(* ===== verification/Frago_Prelude.thy ===== *)
theory Frago_Prelude
  imports Complex_Main "HOL-Library.AList" "HOL-Library.Sublist" "HOL-Library.List_Lexorder"
    "HOL-Library.Char_ord" "HOL-Library.Product_Lexorder" "HOL-Library.Multiset"
begin

text \<open>
  Shared vocabulary of the development: JSON values, results with an error branch, Python
  dictionaries as association lists that keep insertion order, and two interfaces that several
  components provide: a component whose operations keep an invariant, and a table on disk that is
  read through a cache.
\<close>

named_theorems dict_simps \<open>lookups after dictionary updates\<close>
named_theorems gate_defs \<open>definitions the access decision unfolds to\<close>
named_theorems store_defs \<open>definitions of persistent stores\<close>

subsection \<open>JSON values\<close>

text \<open>What \<open>json.loads\<close> returns. A number is an integer or a finite float, which is an exact
  rational.\<close>

datatype json =
    JNull
  | JBool bool
  | JNum int
  | JFloat rat
  | JStr string
  | JList "json list"
  | JObj "(string \<times> json) list"

fun is_JObj :: "json \<Rightarrow> bool" where
  "is_JObj (JObj _) = True"
| "is_JObj _ = False"

fun obj_of :: "json \<Rightarrow> (string \<times> json) list" where
  "obj_of (JObj d) = d"
| "obj_of _ = []"

text \<open>Python's truth value of a decoded JSON value.\<close>

fun truthy :: "json \<Rightarrow> bool" where
  "truthy JNull = False"
| "truthy (JBool b) = b"
| "truthy (JNum n) = (n \<noteq> 0)"
| "truthy (JFloat q) = (q \<noteq> 0)"
| "truthy (JStr s) = (s \<noteq> [])"
| "truthy (JList l) = (l \<noteq> [])"
| "truthy (JObj d) = (d \<noteq> [])"

text \<open>The text of a file: either JSON that parses, or something \<open>json.loads\<close> refuses.\<close>

datatype file_text = Parsed json | Unparsable

subsection \<open>Results\<close>

definition bindE :: "'e + 'a \<Rightarrow> ('a \<Rightarrow> 'e + 'b) \<Rightarrow> 'e + 'b" where
  "bindE m f = (case m of Inl e \<Rightarrow> Inl e | Inr a \<Rightarrow> f a)"

lemma bindE_simps [simp]: "bindE (Inl e) f = Inl e" "bindE (Inr a) f = f a"
  by (simp_all add: bindE_def)

lemma bindE_eq_Inr: "bindE m f = Inr b \<longleftrightarrow> (\<exists>a. m = Inr a \<and> f a = Inr b)"
  by (cases m) auto

subsection \<open>Dictionaries\<close>

text \<open>A Python \<open>dict\<close> keeps the position of a key that is assigned again and appends a new key:
  this is \<open>AList.update\<close>.\<close>

type_synonym ('k, 'v) dict = "('k \<times> 'v) list"

abbreviation dict_get :: "('k, 'v) dict \<Rightarrow> 'k \<Rightarrow> 'v option" where
  "dict_get d k \<equiv> map_of d k"

abbreviation dict_set :: "'k \<Rightarrow> 'v \<Rightarrow> ('k, 'v) dict \<Rightarrow> ('k, 'v) dict" where
  "dict_set k v d \<equiv> AList.update k v d"

abbreviation dict_del :: "'k \<Rightarrow> ('k, 'v) dict \<Rightarrow> ('k, 'v) dict" where
  "dict_del k d \<equiv> AList.delete k d"

definition dict_ok :: "('k, 'v) dict \<Rightarrow> bool" where
  "dict_ok d \<longleftrightarrow> distinct (map fst d)"

lemma dict_get_set [simp, dict_simps]: "dict_get (dict_set k v d) k' = (if k' = k then Some v else dict_get d k')"
  by (simp add: update_conv)

lemma dict_get_del [simp, dict_simps]: "dict_get (dict_del k d) k' = (if k' = k then None else dict_get d k')"
  by (simp add: delete_conv)

lemma dict_ok_empty [simp]: "dict_ok []"
  by (simp add: dict_ok_def)

lemma dict_ok_set [simp]: "dict_ok d \<Longrightarrow> dict_ok (dict_set k v d)"
  by (simp add: dict_ok_def distinct_update)

lemma dict_ok_del [simp]: "dict_ok d \<Longrightarrow> dict_ok (dict_del k d)"
  by (simp add: dict_ok_def distinct_delete)

lemma length_dict_set:
  "length (dict_set k v d) = (if k \<in> fst ` set d then length d else Suc (length d))"
  by (induction d) auto

lemma length_dict_del_le: "length (dict_del k d) \<le> length d"
  by (simp add: AList.delete_eq)

lemma dict_ok_filter [simp]: "dict_ok d \<Longrightarrow> dict_ok (filter P d)"
  by (simp add: dict_ok_def distinct_map_filter)

lemma dict_get_in: "dict_ok d \<Longrightarrow> dict_get d k = Some v \<longleftrightarrow> (k, v) \<in> set d"
  by (simp add: dict_ok_def)

lemma in_map_filter: "y \<in> set (List.map_filter f xs) \<longleftrightarrow> (\<exists>x \<in> set xs. f x = Some y)"
proof (induction xs)
  case (Cons x xs)
  then show ?case by (cases "f x") (auto simp: List.map_filter_simps)
qed (simp add: List.map_filter_simps)

lemma dict_get_filter:
  "dict_ok d \<Longrightarrow> dict_get (filter (\<lambda>(k, v). P v) d) k =
     (case dict_get d k of Some v \<Rightarrow> if P v then Some v else None | None \<Rightarrow> None)"
proof (induction d)
  case (Cons x d)
  obtain k' v where x: "x = (k', v)" by (cases x)
  have d: "dict_ok d" and n: "dict_get d k' = None"
    using Cons.prems by (simp_all add: dict_ok_def x map_of_eq_None_iff)
  show ?case using Cons.IH [OF d] n by (cases "k = k'") (auto simp: x)
qed simp

subsection \<open>Tables in JSON files\<close>

text \<open>A table is a JSON object whose values are objects; a value that is not one is skipped. A file
  that may be cached comes with its modification time and size.\<close>

type_synonym entry = "(string, json) dict"
type_synonym entries = "(string, entry) dict"
type_synonym stamp = "int \<times> int"
type_synonym stamped_file = "(stamp \<times> file_text) option"

fun dict_entries :: "(string \<times> json) list \<Rightarrow> entries" where
  "dict_entries [] = []"
| "dict_entries ((n, j) # rest) =
     (case j of JObj e \<Rightarrow> (n, e) # dict_entries rest | _ \<Rightarrow> dict_entries rest)"

definition objs_json :: "entries \<Rightarrow> json" where
  "objs_json es = JObj (map (\<lambda>(n, e). (n, JObj e)) es)"

lemma dict_entries_objs: "dict_entries (map (\<lambda>(n, e). (n, JObj e)) es) = es"
  by (induction es) auto

subsection \<open>Components whose operations keep an invariant\<close>

text \<open>A component is a step function over its operations; its promise is an invariant. What holds
  of one operation holds of every sequence of them.\<close>

locale invariant_ops =
  fixes step :: "'op \<Rightarrow> 's \<Rightarrow> 's"
    and inv :: "'s \<Rightarrow> bool"
  assumes step_keeps: "inv s \<Longrightarrow> inv (step op s)"
begin

lemma run_keeps: "inv s \<Longrightarrow> inv (fold step ops s)"
  by (induction ops arbitrary: s) (simp_all add: step_keeps)

end

subsection \<open>Tables read through a cache\<close>

text \<open>\<open>read\<close> is the uncached answer, \<open>load\<close> the cached one, and \<open>coherent\<close> says that the cache, if
  it would be used for the current file, holds what the file says.\<close>

locale cached_table =
  fixes read :: "'f \<Rightarrow> 'v"
    and load :: "'f \<Rightarrow> 'c \<Rightarrow> 'v \<times> 'c"
    and coherent :: "'f \<Rightarrow> 'c \<Rightarrow> bool"
  assumes load_value: "coherent f c \<Longrightarrow> fst (load f c) = read f"
    and load_coherent: "coherent f c \<Longrightarrow> coherent f (snd (load f c))"
begin

lemma load_again: "coherent f c \<Longrightarrow> fst (load f (snd (load f c))) = read f"
  by (simp add: load_value load_coherent)

end

end
