(* ===== verification/Py_Str.thy ===== *)
theory Py_Str
  imports Frago_Prelude
begin

text \<open>
  The Python string operations the sources use. A \<open>str\<close> is a list of code points; here it is an
  Isabelle \<open>string\<close>, whose characters are the code points 0 to 255. Header bytes are decoded as
  Latin-1 by the sources, so for them this is exact; other text is restricted to that range.
\<close>

subsection \<open>White space and case\<close>

definition is_space :: "char \<Rightarrow> bool" where
  "is_space c = (let n = (of_char c :: nat) in
     9 \<le> n \<and> n \<le> 13 \<or> 28 \<le> n \<and> n \<le> 32 \<or> n = 133 \<or> n = 160)"

definition lstrip :: "string \<Rightarrow> string" where
  "lstrip s = dropWhile is_space s"

definition rstrip :: "string \<Rightarrow> string" where
  "rstrip s = rev (dropWhile is_space (rev s))"

definition strip :: "string \<Rightarrow> string" where
  "strip s = rstrip (lstrip s)"

definition lower_char :: "char \<Rightarrow> char" where
  "lower_char c = (let n = (of_char c :: nat) in
     if 65 \<le> n \<and> n \<le> 90 \<or> 192 \<le> n \<and> n \<le> 222 \<and> n \<noteq> 215 then char_of (n + 32) else c)"

definition lower :: "string \<Rightarrow> string" where
  "lower s = map lower_char s"

text \<open>\<open>str.upper\<close>. The sharp s (223) becomes two letters. The capitals of 181 and 255 lie outside the
  modelled range; they are left alone, which no comparison with an ASCII word can tell.\<close>

definition upper_char :: "char \<Rightarrow> string" where
  "upper_char c = (let n = (of_char c :: nat) in
     if 97 \<le> n \<and> n \<le> 122 \<or> 224 \<le> n \<and> n \<le> 254 \<and> n \<noteq> 247 then [char_of (n - 32)]
     else if n = 223 then ''SS'' else [c])"

definition upper :: "string \<Rightarrow> string" where
  "upper s = concat (map upper_char s)"

subsection \<open>Splitting and searching\<close>

fun split_on :: "char \<Rightarrow> string \<Rightarrow> string list" where
  "split_on d [] = [[]]"
| "split_on d (c # cs) =
     (if c = d then [] # split_on d cs
      else (case split_on d cs of [] \<Rightarrow> [[c]] | w # ws \<Rightarrow> (c # w) # ws))"

text \<open>\<open>s.partition(d)\<close> without the middle part: what is before the first \<open>d\<close>, and what is after.\<close>

definition partition_on :: "char \<Rightarrow> string \<Rightarrow> string \<times> string" where
  "partition_on d s = (takeWhile (\<lambda>c. c \<noteq> d) s, tl (dropWhile (\<lambda>c. c \<noteq> d) s))"

definition startswith :: "string \<Rightarrow> string \<Rightarrow> bool" where
  "startswith s p = (take (length p) s = p)"

definition contains :: "string \<Rightarrow> string \<Rightarrow> bool" where
  "contains s sub = sublist sub s"

fun intercalate :: "string \<Rightarrow> string list \<Rightarrow> string" where
  "intercalate sep [] = []"
| "intercalate sep [x] = x"
| "intercalate sep (x # y # xs) = x @ sep @ intercalate sep (y # xs)"

text \<open>In a Python pattern \<open>$\<close> matches at the end and also just before a final newline, so a pattern
  \<open>^C+$\<close> over a class \<open>C\<close> without newline accepts a word and a word followed by one newline.\<close>

definition newline :: char where
  "newline = CHR 0x0A"

definition chomp_nl :: "string \<Rightarrow> string" where
  "chomp_nl s = (if s \<noteq> [] \<and> last s = newline then butlast s else s)"

definition match_class_plus :: "(char \<Rightarrow> bool) \<Rightarrow> string \<Rightarrow> bool" where
  "match_class_plus P s = (let w = chomp_nl s in w \<noteq> [] \<and> list_all P w)"

lemma split_on_ne [simp]: "split_on d s \<noteq> []"
  by (induction d s rule: split_on.induct) (auto split: list.splits)

lemma split_on_no_sep: "w \<in> set (split_on d s) \<Longrightarrow> d \<notin> set w"
  by (induction d s arbitrary: w rule: split_on.induct) (auto split: list.splits if_splits)

lemma split_on_id: "d \<notin> set s \<Longrightarrow> split_on d s = [s]"
  by (induction d s rule: split_on.induct) auto

lemma split_on_append:
  "d \<notin> set a \<Longrightarrow> split_on d (a @ d # b) = a # split_on d b"
  by (induction a) auto

lemma startswith_append [simp]: "startswith (p @ s) p"
  by (simp add: startswith_def)

lemma chomp_nl_set: "set (chomp_nl s) \<subseteq> set s"
  by (auto simp: chomp_nl_def dest: in_set_butlastD)

subsection \<open>Numbers as text\<close>

definition is_digit :: "char \<Rightarrow> bool" where
  "is_digit c = (let n = (of_char c :: nat) in 48 \<le> n \<and> n \<le> 57)"

definition digit_val :: "char \<Rightarrow> nat" where
  "digit_val c = of_char c - 48"

definition digit_char :: "nat \<Rightarrow> char" where
  "digit_char n = char_of (48 + n)"

fun dec :: "nat \<Rightarrow> string" where
  "dec n = (if n < 10 then [digit_char n] else dec (n div 10) @ [digit_char (n mod 10)])"

declare dec.simps [simp del]

fun digits_val :: "nat \<Rightarrow> string \<Rightarrow> nat" where
  "digits_val a [] = a"
| "digits_val a (c # cs) = digits_val (10 * a + digit_val c) cs"

text \<open>\<open>int(text)\<close>: surrounding white space, one sign, digits, single underscores between digits.
  None is the \<open>ValueError\<close>.\<close>

definition py_int :: "string \<Rightarrow> int option" where
  "py_int s =
     (let t = strip s;
          neg = (t \<noteq> [] \<and> hd t = CHR ''-'');
          u = (if t \<noteq> [] \<and> hd t \<in> {CHR ''-'', CHR ''+''} then tl t else t);
          groups = split_on CHR ''_'' u
      in if list_all (\<lambda>g. g \<noteq> [] \<and> list_all is_digit g) groups
         then Some ((if neg then - 1 else 1) * int (digits_val 0 (concat groups)))
         else None)"

lemma digit_char_props:
  assumes "n < 10"
  shows "is_digit (digit_char n)" "digit_val (digit_char n) = n"
    "digit_char n \<noteq> CHR ''_''" "digit_char n \<noteq> CHR ''-''" "digit_char n \<noteq> CHR ''+''"
    "digit_char n \<noteq> CHR ''$''" "\<not> is_space (digit_char n)"
proof -
  have "n \<in> {0,1,2,3,4,5,6,7,8,9}" using assms by auto
  then show "is_digit (digit_char n)" "digit_val (digit_char n) = n"
    "digit_char n \<noteq> CHR ''_''" "digit_char n \<noteq> CHR ''-''" "digit_char n \<noteq> CHR ''+''"
    "digit_char n \<noteq> CHR ''$''" "\<not> is_space (digit_char n)"
    by (auto simp: digit_char_def is_digit_def digit_val_def is_space_def Let_def char_of_eq_iff)
qed

lemma digits_val_append: "digits_val a (xs @ [c]) = 10 * digits_val a xs + digit_val c"
  by (induction xs arbitrary: a) auto

lemma dec_props:
  "dec n \<noteq> [] \<and> list_all is_digit (dec n) \<and> digits_val 0 (dec n) = n
    \<and> (\<forall>c \<in> set (dec n). \<not> is_space c \<and> c \<notin> {CHR ''_'', CHR ''-'', CHR ''+'', CHR ''$''})"
proof (induction n rule: dec.induct)
  case (1 n)
  show ?case
  proof (cases "n < 10")
    case True
    then show ?thesis using digit_char_props [OF True] by (simp add: dec.simps [of n])
  next
    case False
    moreover have "n mod 10 < 10" by simp
    ultimately show ?thesis
      using 1 digit_char_props [of "n mod 10"] by (auto simp: dec.simps [of n] digits_val_append)
  qed
qed

lemma strip_id: "\<forall>c \<in> set s. \<not> is_space c \<Longrightarrow> strip s = s"
proof -
  assume a: "\<forall>c \<in> set s. \<not> is_space c"
  then have "dropWhile is_space s = s" by (cases s) auto
  moreover have "dropWhile is_space (rev s) = rev s" using a by (cases "rev s") (auto simp: rev_eq_Cons_iff)
  ultimately show ?thesis by (simp add: strip_def lstrip_def rstrip_def)
qed

lemma py_int_dec [simp]: "py_int (dec n) = Some (int n)"
proof -
  note d = dec_props [of n]
  have "strip (dec n) = dec n" using d by (intro strip_id) auto
  moreover have "hd (dec n) \<in> set (dec n)" using d by simp
  then have "hd (dec n) \<notin> {CHR ''-'', CHR ''+''}" using d by blast
  moreover have "split_on CHR ''_'' (dec n) = [dec n]" using d by (intro split_on_id) auto
  ultimately show ?thesis using d by (simp add: py_int_def Let_def)
qed

lemma dec_no_dollar: "CHR ''$'' \<notin> set (dec n)"
  using dec_props [of n] by auto

end
