(* ===== verification/Py_Path.thy ===== *)
theory Py_Path
  imports Py_Str
begin

text \<open>
  Paths and the part of the file system the modelled code touches. A path is the tuple
  \<open>Path.parts\<close>: the components from the root down, the root itself being the component \<open>/\<close>.
  Directories carry their permission bits; a file carries its permission bits and its text.
  Environment variables, the home directory and \<open>expanduser\<close> are inputs of the process.
\<close>

type_synonym path = "string list"

definition path_of :: "string \<Rightarrow> path" where
  "path_of s =
     (let cs = filter (\<lambda>c. c \<noteq> [] \<and> c \<noteq> ''.'') (split_on CHR ''/'' s)
      in if startswith s ''//'' \<and> \<not> startswith s ''///'' then ''//'' # cs
         else if startswith s ''/'' then ''/'' # cs else cs)"

definition is_absolute :: "path \<Rightarrow> bool" where
  "is_absolute p = (p \<noteq> [] \<and> hd p \<in> {''/'', ''//''})"

definition path_join :: "path \<Rightarrow> string \<Rightarrow> path" where
  "path_join p s = (let q = path_of s in if is_absolute q then q else p @ q)"

definition path_str :: "path \<Rightarrow> string" where
  "path_str p =
     (if is_absolute p then hd p @ intercalate ''/'' (tl p)
      else if p = [] then ''.'' else intercalate ''/'' p)"

record os_env =
  environ :: "(string, string) dict"
  home_dir :: path
  expanduser :: "path \<Rightarrow> path"

text \<open>\<open>os.environ.get(name)\<close>, and the idiom \<open>override if override else default\<close>.\<close>

definition getenv :: "os_env \<Rightarrow> string \<Rightarrow> string option" where
  "getenv os n = dict_get (environ os) n"

definition env_path :: "os_env \<Rightarrow> string \<Rightarrow> path \<Rightarrow> path" where
  "env_path os n dflt =
     (case getenv os n of
        Some v \<Rightarrow> if v \<noteq> [] then expanduser os (path_of v) else dflt
      | None \<Rightarrow> dflt)"

subsection \<open>Files and directories\<close>

record file_rec =
  f_mode :: nat
  f_text :: file_text

record file_sys =
  fs_files :: "(path, file_rec) dict"
  fs_dirs :: "(path, nat) dict"

definition is_file :: "file_sys \<Rightarrow> path \<Rightarrow> bool" where
  "is_file fs p = (dict_get (fs_files fs) p \<noteq> None)"

definition is_dir :: "file_sys \<Rightarrow> path \<Rightarrow> bool" where
  "is_dir fs p = (dict_get (fs_dirs fs) p \<noteq> None)"

text \<open>\<open>mkdir(parents=True, exist_ok=True)\<close>: the levels that are missing are made under the umask,
  here \<open>0o755\<close>.\<close>

definition mkdir_level :: "path \<Rightarrow> file_sys \<Rightarrow> file_sys" where
  "mkdir_level p fs = (if is_dir fs p then fs else fs\<lparr>fs_dirs := dict_set p 493 (fs_dirs fs)\<rparr>)"

definition mkdir_parents :: "path \<Rightarrow> file_sys \<Rightarrow> file_sys" where
  "mkdir_parents p fs = fold mkdir_level (tl (prefixes p)) fs"

definition chmod_dir :: "nat \<Rightarrow> path \<Rightarrow> file_sys \<Rightarrow> file_sys" where
  "chmod_dir m p fs = (if is_dir fs p then fs\<lparr>fs_dirs := dict_set p m (fs_dirs fs)\<rparr> else fs)"

definition write_file :: "nat \<Rightarrow> path \<Rightarrow> file_text \<Rightarrow> file_sys \<Rightarrow> file_sys" where
  "write_file m p t fs = fs\<lparr>fs_files := dict_set p \<lparr>f_mode = m, f_text = t\<rparr> (fs_files fs)\<rparr>"

definition remove_file :: "path \<Rightarrow> file_sys \<Rightarrow> file_sys" where
  "remove_file p fs = fs\<lparr>fs_files := dict_del p (fs_files fs)\<rparr>"

lemma fs_files_mkdir_level [simp]: "fs_files (mkdir_level p fs) = fs_files fs"
  by (simp add: mkdir_level_def)

lemma fs_files_fold_mkdir: "fs_files (fold mkdir_level ps fs) = fs_files fs"
  by (induction ps arbitrary: fs) simp_all

lemma fs_files_mkdir_parents [simp]: "fs_files (mkdir_parents p fs) = fs_files fs"
  by (simp add: mkdir_parents_def fs_files_fold_mkdir)

lemma fs_files_chmod_dir [simp]: "fs_files (chmod_dir m p fs) = fs_files fs"
  by (simp add: chmod_dir_def)

lemma fs_dirs_write_file [simp]: "fs_dirs (write_file m p t fs) = fs_dirs fs"
  by (simp add: write_file_def)

lemma fs_dirs_remove_file [simp]: "fs_dirs (remove_file p fs) = fs_dirs fs"
  by (simp add: remove_file_def)

lemma is_dir_mkdir_level: "is_dir (mkdir_level p fs) q \<longleftrightarrow> q = p \<or> is_dir fs q"
  by (auto simp: mkdir_level_def is_dir_def)

lemma is_dir_fold_mkdir: "is_dir (fold mkdir_level ps fs) q \<longleftrightarrow> q \<in> set ps \<or> is_dir fs q"
  by (induction ps arbitrary: fs) (auto simp: is_dir_mkdir_level)

lemma is_dir_mkdir_parents: "q \<noteq> [] \<Longrightarrow> prefix q p \<Longrightarrow> is_dir (mkdir_parents p fs) q"
  by (cases p) (auto simp: mkdir_parents_def is_dir_fold_mkdir prefix_Cons)

lemma chmod_dir_get:
  "dict_get (fs_dirs (chmod_dir m p fs)) q = (if q = p \<and> is_dir fs p then Some m else dict_get (fs_dirs fs) q)"
  by (simp add: chmod_dir_def)

lemma is_dir_chmod [simp]: "is_dir (chmod_dir m p fs) q = is_dir fs q"
  by (auto simp: chmod_dir_def is_dir_def)

lemma dict_get_write_file [simp]:
  "dict_get (fs_files (write_file m p t fs)) q =
     (if q = p then Some \<lparr>f_mode = m, f_text = t\<rparr> else dict_get (fs_files fs) q)"
  by (simp add: write_file_def)

lemma dict_get_remove_file [simp]:
  "dict_get (fs_files (remove_file p fs)) q = (if q = p then None else dict_get (fs_files fs) q)"
  by (simp add: remove_file_def)

subsection \<open>Single components\<close>

text \<open>A name that is one component: joining it appends exactly it.\<close>

definition one_component :: "string \<Rightarrow> bool" where
  "one_component s \<longleftrightarrow> s \<noteq> [] \<and> s \<noteq> ''.'' \<and> CHR ''/'' \<notin> set s"

lemma path_of_one_component: "one_component s \<Longrightarrow> path_of s = [s]"
  by (cases s) (auto simp: one_component_def path_of_def split_on_id startswith_def Let_def)

lemma path_join_one_component: "one_component s \<Longrightarrow> path_join p s = p @ [s]"
  by (auto simp: path_join_def path_of_one_component is_absolute_def one_component_def Let_def)

end
