(* ===== verification/Rate_Limit.thy ===== *)
theory Rate_Limit
  imports Complex_Main Py_Path
begin

text \<open>
  The two limiters of \<open>server/identity.py\<close>: a token bucket per key (\<open>RateLimiter\<close>) and a growing
  delay per account (\<open>Backoff\<close>). Times and token counts are Python floats there and exact rationals
  here. The one place where the width of a float decides what happens is kept: \<open>base ** n\<close> raises
  \<open>OverflowError\<close> from \<open>2 ** 1024\<close> on.
\<close>

subsection \<open>Token buckets\<close>

record rate_limiter =
  rl_capacity :: rat
  rl_window :: rat
  rl_buckets :: "(string, rat \<times> rat) dict"

definition new_limiter :: "nat \<Rightarrow> rat \<Rightarrow> rate_limiter" where
  "new_limiter capacity window =
     \<lparr>rl_capacity = of_nat capacity, rl_window = window, rl_buckets = []\<rparr>"

definition rl_allow :: "string option \<Rightarrow> rat \<Rightarrow> rate_limiter \<Rightarrow> bool \<times> rate_limiter" where
  "rl_allow key now rl =
     (case key of
        None \<Rightarrow> (True, rl)
      | Some k \<Rightarrow>
          (let (tokens0, updated) =
                 (case dict_get (rl_buckets rl) k of Some b \<Rightarrow> b | None \<Rightarrow> (rl_capacity rl, now));
               tokens = min (rl_capacity rl)
                          (tokens0 + (now - updated) * rl_capacity rl / rl_window rl)
           in if tokens < 1
              then (False, rl\<lparr>rl_buckets := dict_set k (tokens, now) (rl_buckets rl)\<rparr>)
              else (True, rl\<lparr>rl_buckets := dict_set k (tokens - 1, now) (rl_buckets rl)\<rparr>)))"

definition rl_reset :: "rate_limiter \<Rightarrow> rate_limiter" where
  "rl_reset rl = rl\<lparr>rl_buckets := []\<rparr>"

subsection \<open>Backoff\<close>

record backoff =
  bo_free_attempts :: nat
  bo_base :: rat
  bo_cap :: rat
  bo_state :: "(string, nat \<times> rat) dict"

definition new_backoff :: backoff where
  "new_backoff = \<lparr>bo_free_attempts = 5, bo_base = 2, bo_cap = 300, bo_state = []\<rparr>"

definition bo_get :: "backoff \<Rightarrow> string \<Rightarrow> nat \<times> rat" where
  "bo_get bo k = (case dict_get (bo_state bo) k of Some x \<Rightarrow> x | None \<Rightarrow> (0, 0))"

definition bo_remaining :: "string \<Rightarrow> rat \<Rightarrow> backoff \<Rightarrow> rat" where
  "bo_remaining k now bo =
     (let (failures, until) = bo_get bo k in if failures = 0 then 0 else max 0 (until - now))"

definition float_pow :: "rat \<Rightarrow> nat \<Rightarrow> rat option" where
  "float_pow b n = (if b ^ n < 2 ^ 1024 then Some (b ^ n) else None)"

text \<open>\<open>fail\<close>: None is the \<open>OverflowError\<close>, raised before the state is written.\<close>

definition bo_fail :: "string \<Rightarrow> rat \<Rightarrow> backoff \<Rightarrow> backoff option" where
  "bo_fail k now bo =
     (let failures = fst (bo_get bo k) + 1
      in if failures > bo_free_attempts bo
         then (case float_pow (bo_base bo) (failures - bo_free_attempts bo) of
                 None \<Rightarrow> None
               | Some p \<Rightarrow>
                   Some (bo\<lparr>bo_state := dict_set k (failures, now + min (bo_cap bo) p) (bo_state bo)\<rparr>))
         else Some (bo\<lparr>bo_state := dict_set k (failures, now) (bo_state bo)\<rparr>))"

definition bo_clear :: "string \<Rightarrow> backoff \<Rightarrow> backoff" where
  "bo_clear k bo = bo\<lparr>bo_state := dict_del k (bo_state bo)\<rparr>"

definition bo_reset :: "backoff \<Rightarrow> backoff" where
  "bo_reset bo = bo\<lparr>bo_state := []\<rparr>"

subsection \<open>The limiters of the process\<close>

record limiters =
  lim_login :: rate_limiter
  lim_signup :: rate_limiter
  lim_backoff :: backoff
  lim_visitor :: rate_limiter

definition visitor_rate_env :: "os_env \<Rightarrow> string \<Rightarrow> nat \<Rightarrow> nat" where
  "visitor_rate_env os name dflt =
     (case getenv os name of
        Some v \<Rightarrow>
          if v = [] then dflt
          else (case py_int v of
                  Some n \<Rightarrow> if n > 0 then nat n else dflt
                | None \<Rightarrow> dflt)
      | None \<Rightarrow> dflt)"

definition LOGIN_LIMIT :: rate_limiter where "LOGIN_LIMIT = new_limiter 30 300"
definition SIGNUP_LIMIT :: rate_limiter where "SIGNUP_LIMIT = new_limiter 5 3600"
definition LOGIN_BACKOFF :: backoff where "LOGIN_BACKOFF = new_backoff"
definition VISITOR_REQUEST_LIMIT :: "os_env \<Rightarrow> rate_limiter" where
  "VISITOR_REQUEST_LIMIT os =
     new_limiter (visitor_rate_env os ''FRAGO_VISITOR_BURST'' 240)
       (of_nat (visitor_rate_env os ''FRAGO_VISITOR_WINDOW'' 60))"

definition reset_rate_limits :: "limiters \<Rightarrow> limiters" where
  "reset_rate_limits l =
     \<lparr>lim_login = rl_reset (lim_login l), lim_signup = rl_reset (lim_signup l),
      lim_backoff = bo_reset (lim_backoff l), lim_visitor = rl_reset (lim_visitor l)\<rparr>"

definition allow_visitor_request :: "string option \<Rightarrow> rat \<Rightarrow> limiters \<Rightarrow> bool \<times> limiters" where
  "allow_visitor_request who now l =
     (let (ok, rl) = rl_allow who now (lim_visitor l) in (ok, l\<lparr>lim_visitor := rl\<rparr>))"

definition allow_login :: "string option \<Rightarrow> rat \<Rightarrow> limiters \<Rightarrow> bool \<times> limiters" where
  "allow_login ip now l =
     (let (ok, rl) = rl_allow ip now (lim_login l) in (ok, l\<lparr>lim_login := rl\<rparr>))"

definition allow_signup :: "string option \<Rightarrow> rat \<Rightarrow> limiters \<Rightarrow> bool \<times> limiters" where
  "allow_signup ip now l =
     (let (ok, rl) = rl_allow ip now (lim_signup l) in (ok, l\<lparr>lim_signup := rl\<rparr>))"

definition login_backoff_remaining :: "string \<Rightarrow> rat \<Rightarrow> limiters \<Rightarrow> rat" where
  "login_backoff_remaining u now l = bo_remaining u now (lim_backoff l)"

definition note_login_failure :: "string \<Rightarrow> rat \<Rightarrow> limiters \<Rightarrow> limiters option" where
  "note_login_failure u now l =
     map_option (\<lambda>b. l\<lparr>lim_backoff := b\<rparr>) (bo_fail u now (lim_backoff l))"

definition note_login_success :: "string \<Rightarrow> limiters \<Rightarrow> limiters" where
  "note_login_success u l = l\<lparr>lim_backoff := bo_clear u (lim_backoff l)\<rparr>"

subsection \<open>A request stream through one limiter\<close>

type_synonym request_event = "string option \<times> rat"

fun rl_run :: "rate_limiter \<Rightarrow> request_event list \<Rightarrow> bool list" where
  "rl_run rl [] = []"
| "rl_run rl ((k, t) # evs) = fst (rl_allow k t rl) # rl_run (snd (rl_allow k t rl)) evs"

text \<open>How many requests of key \<open>k\<close> get through.\<close>

fun admitted :: "string \<Rightarrow> rate_limiter \<Rightarrow> request_event list \<Rightarrow> nat" where
  "admitted k rl [] = 0"
| "admitted k rl ((k', t) # evs) =
     (if k' = Some k \<and> fst (rl_allow k' t rl) then 1 else 0) + admitted k (snd (rl_allow k' t rl)) evs"

text \<open>What is in the bucket of \<open>k\<close> at time \<open>t\<close>.\<close>

definition rl_level :: "string \<Rightarrow> rat \<Rightarrow> rate_limiter \<Rightarrow> rat" where
  "rl_level k t rl =
     (case dict_get (rl_buckets rl) k of
        None \<Rightarrow> rl_capacity rl
      | Some (tok, upd) \<Rightarrow> min (rl_capacity rl) (tok + (t - upd) * rl_capacity rl / rl_window rl))"

definition rl_ok :: "rate_limiter \<Rightarrow> bool" where
  "rl_ok rl \<longleftrightarrow> 0 \<le> rl_capacity rl \<and> 0 < rl_window rl"

text \<open>Every bucket was last touched by time \<open>t0\<close> and holds no debt.\<close>

definition rl_by :: "rat \<Rightarrow> rate_limiter \<Rightarrow> bool" where
  "rl_by t0 rl \<longleftrightarrow> (\<forall>k tok upd. dict_get (rl_buckets rl) k = Some (tok, upd) \<longrightarrow> 0 \<le> tok \<and> upd \<le> t0)"

fun rl_final :: "rate_limiter \<Rightarrow> request_event list \<Rightarrow> rate_limiter" where
  "rl_final rl [] = rl"
| "rl_final rl ((k, t) # evs) = rl_final (snd (rl_allow k t rl)) evs"

lemma rl_allow_params [simp]:
  "rl_capacity (snd (rl_allow k t rl)) = rl_capacity rl"
  "rl_window (snd (rl_allow k t rl)) = rl_window rl"
  by (auto simp: rl_allow_def Let_def split: option.splits prod.splits)

lemma rl_allow_Some:
  "rl_allow (Some k) t rl =
     (1 \<le> rl_level k t rl,
      rl\<lparr>rl_buckets := dict_set k (rl_level k t rl - (if 1 \<le> rl_level k t rl then 1 else 0), t) (rl_buckets rl)\<rparr>)"
  by (auto simp: rl_allow_def rl_level_def Let_def split: option.splits prod.splits)

lemma rl_level_le_capacity: "rl_level k t rl \<le> rl_capacity rl"
  by (auto simp: rl_level_def split: option.splits prod.splits)

lemma rl_level_other: "k \<noteq> k' \<Longrightarrow> rl_level k t (snd (rl_allow (Some k') s rl)) = rl_level k t rl"
  unfolding rl_allow_Some rl_level_def [of k] by (auto split: option.splits prod.splits)

lemma rl_level_same:
  "rl_level k t (snd (rl_allow (Some k) t rl)) =
    rl_level k t rl - (if fst (rl_allow (Some k) t rl) then 1 else 0)"
proof -
  define l where "l = rl_level k t rl"
  have "l \<le> rl_capacity rl" by (simp add: l_def rl_level_le_capacity)
  then show ?thesis
    unfolding rl_allow_Some l_def [symmetric] by (simp add: rl_level_def)
qed

lemma level_refill_aux:
  fixes c :: rat
  assumes "0 \<le> d"
  shows "min c (x + d) \<le> min c x + d"
  using assms by (simp add: min_def)

lemma rl_level_refill:
  assumes "rl_ok rl" "s \<le> t"
  shows "rl_level k t rl \<le> rl_level k s rl + (t - s) * rl_capacity rl / rl_window rl"
proof (cases "dict_get (rl_buckets rl) k")
  case None
  then show ?thesis using assms by (simp add: rl_level_def rl_ok_def)
next
  case (Some b)
  obtain tok upd where b: "b = (tok, upd)" by (cases b)
  have nn: "0 \<le> (t - s) * rl_capacity rl / rl_window rl"
    using assms by (simp add: rl_ok_def)
  have "tok + (s - upd) * rl_capacity rl / rl_window rl + (t - s) * rl_capacity rl / rl_window rl =
      tok + (t - upd) * rl_capacity rl / rl_window rl"
    by (simp add: left_diff_distrib diff_divide_distrib)
  then show ?thesis
    using level_refill_aux [OF nn, of "rl_capacity rl" "tok + (s - upd) * rl_capacity rl / rl_window rl"] Some b
    by (simp add: rl_level_def)
qed

lemma admitted_le_level:
  assumes "rl_ok rl" "sorted (t # map snd evs)" "\<forall>e \<in> set evs. snd e \<le> T" "t \<le> T"
  shows "of_nat (admitted k rl evs) \<le>
    max 0 (rl_level k t rl) + (T - t) * rl_capacity rl / rl_window rl"
  using assms
proof (induction evs arbitrary: rl t)
  case Nil
  then show ?case by (simp add: rl_ok_def)
next
  case (Cons e evs)
  obtain k' t1 where e: "e = (k', t1)" by (cases e)
  define rl' where "rl' = snd (rl_allow k' t1 rl)"
  have t1: "t \<le> t1" "t1 \<le> T" using Cons.prems by (auto simp: e)
  have ok': "rl_ok rl'" using Cons.prems(1) by (simp add: rl_ok_def rl'_def)
  have rate: "rl_capacity rl' = rl_capacity rl" "rl_window rl' = rl_window rl"
    by (simp_all add: rl'_def)
  have IH: "of_nat (admitted k rl' evs) \<le> max 0 (rl_level k t1 rl') + (T - t1) * rl_capacity rl / rl_window rl"
    using Cons.IH [OF ok', of t1] Cons.prems t1 by (simp add: e rate)
  have refill: "rl_level k t1 rl \<le> rl_level k t rl + (t1 - t) * rl_capacity rl / rl_window rl"
    using rl_level_refill [OF Cons.prems(1) t1(1)] .
  have nn: "0 \<le> (t1 - t) * rl_capacity rl / rl_window rl"
    using Cons.prems(1) t1 by (simp add: rl_ok_def)
  have split: "(T - t) * rl_capacity rl / rl_window rl =
      (t1 - t) * rl_capacity rl / rl_window rl + (T - t1) * rl_capacity rl / rl_window rl"
    by (simp add: left_diff_distrib diff_divide_distrib)
  show ?case
  proof (cases "k' = Some k")
    case True
    have "rl_level k t1 rl' = rl_level k t1 rl - (if fst (rl_allow k' t1 rl) then 1 else 0)"
      by (simp add: rl'_def True rl_level_same)
    moreover have "fst (rl_allow k' t1 rl) \<Longrightarrow> 1 \<le> rl_level k t1 rl"
      by (simp add: True rl_allow_Some)
    ultimately show ?thesis
      using IH refill nn split True unfolding e admitted.simps rl'_def [symmetric]
      by auto
  next
    case False
    then have "rl_level k t1 rl' = rl_level k t1 rl"
      by (cases k') (auto simp: rl'_def rl_level_other, simp add: rl_allow_def)
    then show ?thesis
      using IH refill nn split False unfolding e admitted.simps rl'_def [symmetric] by auto
  qed
qed

lemma admitted_bucket_only:
  assumes "rl_capacity rl = rl_capacity rl'" "rl_window rl = rl_window rl'"
    "dict_get (rl_buckets rl) k = dict_get (rl_buckets rl') k"
  shows "admitted k rl evs = admitted k rl' (filter (\<lambda>e. fst e = Some k) evs)"
  using assms
proof (induction evs arbitrary: rl rl')
  case (Cons e evs)
  obtain k' t where e: "e = (k', t)" by (cases e)
  have l: "rl_level k t rl = rl_level k t rl'"
    using Cons.prems by (auto simp: rl_level_def split: option.splits)
  show ?case
  proof (cases "k' = Some k")
    case True
    have "admitted k (snd (rl_allow k' t rl)) evs =
        admitted k (snd (rl_allow k' t rl')) (filter (\<lambda>e. fst e = Some k) evs)"
      using Cons.prems l True by (intro Cons.IH) (simp_all add: rl_allow_Some)
    then show ?thesis using True l by (simp add: e rl_allow_Some)
  next
    case False
    have "admitted k (snd (rl_allow k' t rl)) evs = admitted k rl' (filter (\<lambda>e. fst e = Some k) evs)"
    proof (intro Cons.IH)
      show "dict_get (rl_buckets (snd (rl_allow k' t rl))) k = dict_get (rl_buckets rl') k"
        using Cons.prems False by (cases k') (auto simp: rl_allow_Some, simp add: rl_allow_def)
    qed (use Cons.prems in simp_all)
    then show ?thesis using False by (simp add: e)
  qed
qed simp

lemma rl_level_nonneg:
  assumes "rl_ok rl" "rl_by t0 rl" "t0 \<le> t"
  shows "0 \<le> rl_level k t rl"
proof (cases "dict_get (rl_buckets rl) k")
  case None
  with assms show ?thesis by (simp add: rl_level_def rl_ok_def)
next
  case (Some b)
  obtain tok upd where b: "b = (tok, upd)" by (cases b)
  then have "0 \<le> tok" "upd \<le> t" using assms Some by (force simp: rl_by_def)+
  then have "0 \<le> tok + (t - upd) * rl_capacity rl / rl_window rl"
    using assms(1) by (simp add: rl_ok_def)
  with assms Some b show ?thesis by (simp add: rl_level_def rl_ok_def)
qed

lemma rl_by_allow:
  assumes "rl_ok rl" "rl_by t0 rl" "t0 \<le> t"
  shows "rl_by t (snd (rl_allow k t rl))"
proof (cases k)
  case None
  with assms show ?thesis by (force simp: rl_allow_def rl_by_def)
next
  case (Some k')
  have "0 \<le> rl_level k' t rl" using rl_level_nonneg [OF assms] .
  with assms Some show ?thesis
    by (auto simp: rl_allow_Some rl_by_def) force+
qed

lemma rl_final_props:
  assumes "rl_ok rl" "rl_by t0 rl" "sorted (t0 # map snd evs)" "\<forall>e \<in> set evs. snd e \<le> T" "t0 \<le> T"
  shows "rl_ok (rl_final rl evs) \<and> rl_by T (rl_final rl evs)
    \<and> rl_capacity (rl_final rl evs) = rl_capacity rl \<and> rl_window (rl_final rl evs) = rl_window rl"
  using assms
proof (induction evs arbitrary: rl t0)
  case Nil
  then show ?case by (force simp: rl_by_def)
next
  case (Cons e evs)
  obtain k t where e: "e = (k, t)" by (cases e)
  have "rl_by t (snd (rl_allow k t rl))"
    using Cons.prems by (intro rl_by_allow) (auto simp: e)
  then show ?case
    using Cons.IH [of "snd (rl_allow k t rl)" t] Cons.prems by (auto simp: e rl_ok_def)
qed

subsection \<open>Properties\<close>

text \<open>C17: a token bucket bounds the requests it lets through. Whatever the bucket holds at time \<open>t\<close> and
  however the requests of all keys interleave until time \<open>T\<close>, at most the capacity plus the refill of
  that interval is admitted for any one key.\<close>

theorem rate_limit_bound:
  assumes "rl_ok rl" "sorted (t # map snd evs)" "\<forall>e \<in> set evs. snd e \<le> T" "t \<le> T"
  shows "of_nat (admitted k rl evs) \<le> rl_capacity rl + (T - t) * rl_capacity rl / rl_window rl"
proof -
  have "max 0 (rl_level k t rl) \<le> rl_capacity rl"
    using assms(1) rl_level_le_capacity [of k t rl] by (simp add: rl_ok_def)
  then show ?thesis using admitted_le_level [OF assms, of k] by linarith
qed

theorem rate_limit_bound_witness:
  "of_nat (admitted ''acct'' SIGNUP_LIMIT (replicate 9 (Some ''acct'', 10))) \<le> (5::rat) + (100 - 10) * 5 / 3600"
  using rate_limit_bound [of SIGNUP_LIMIT 10 "replicate 9 (Some ''acct'', 10)" 100 "''acct''"]
  by (simp add: SIGNUP_LIMIT_def new_limiter_def rl_ok_def)

text \<open>Buckets are independent. Of a mixed request stream, key \<open>k\<close> gets through exactly as often as
  it would if nobody else had made a request: a flood under one account costs no other account.\<close>

lemma rate_limit_isolated:
  "admitted k rl evs = admitted k rl (filter (\<lambda>e. fst e = Some k) evs)"
  by (rule admitted_bucket_only) simp_all

text \<open>C18: the limiter never locks a key out. After any time-ordered request stream, a request that comes
  one refill period (window divided by capacity) after its end is admitted.\<close>

theorem rate_limit_no_lockout:
  assumes "rl_ok rl" "1 \<le> rl_capacity rl" "rl_by t0 rl" "sorted (t0 # map snd evs)"
    and "\<forall>e \<in> set evs. snd e \<le> T" "t0 \<le> T" "T + rl_window rl / rl_capacity rl \<le> now"
  shows "fst (rl_allow (Some k) now (rl_final rl evs))"
proof -
  let ?f = "rl_final rl evs"
  have f: "rl_ok ?f" "rl_by T ?f" "rl_capacity ?f = rl_capacity rl" "rl_window ?f = rl_window rl"
    using rl_final_props [OF assms(1,3,4,5,6)] by auto
  have pos: "0 < rl_capacity rl" "0 < rl_window rl" using assms(1,2) by (auto simp: rl_ok_def)
  have refill: "1 \<le> (now - upd) * rl_capacity rl / rl_window rl" if "upd \<le> T" for upd
  proof -
    have "rl_window rl / rl_capacity rl \<le> now - upd" using that assms(7) by simp
    then have "rl_window rl \<le> (now - upd) * rl_capacity rl" using pos by (simp add: divide_le_eq)
    then show ?thesis using pos by (simp add: le_divide_eq)
  qed
  have "1 \<le> rl_level k now ?f"
  proof (cases "dict_get (rl_buckets ?f) k")
    case None
    then show ?thesis using assms(2) f by (simp add: rl_level_def)
  next
    case (Some b)
    obtain tok upd where b: "b = (tok, upd)" by (cases b)
    then have "0 \<le> tok" "upd \<le> T" using f(2) Some by (auto simp: rl_by_def)
    then show ?thesis using refill [of upd] assms(2) f Some b by (simp add: rl_level_def)
  qed
  then show ?thesis by (simp add: rl_allow_Some)
qed

theorem rate_limit_no_lockout_witness:
  "fst (rl_allow (Some ''acct'') 1000 (rl_final SIGNUP_LIMIT (replicate 9 (Some ''acct'', 10))))"
  by (rule rate_limit_no_lockout [where ?t0.0 = 0 and T = 10])
    (simp_all add: SIGNUP_LIMIT_def new_limiter_def rl_ok_def rl_by_def)

text \<open>the delay after failed logins. With the deployed parameters and up to 1028 recorded failures,
  a further failure is recorded; the delay that starts then is zero for the first five failures, doubles
  from there and never exceeds 300 seconds, so 300 seconds later the account can be tried again; no
  other account is affected.\<close>

theorem backoff_delay:
  assumes "bo_free_attempts bo = 5" "bo_base bo = 2" "bo_cap bo = 300"
    and "fst (bo_get bo k) = n" "n < 1028"
  shows "\<exists>bo'. bo_fail k now bo = Some bo' \<and> fst (bo_get bo' k) = Suc n
    \<and> bo_remaining k now bo' = (if Suc n \<le> 5 then 0 else min 300 (2 ^ (Suc n - 5)))
    \<and> (\<forall>t \<ge> now + 300. bo_remaining k t bo' = 0)
    \<and> (\<forall>j. j \<noteq> k \<longrightarrow> bo_get bo' j = bo_get bo j)"
proof (cases "n < 5")
  case True
  then show ?thesis
    using assms by (auto simp: bo_fail_def Let_def bo_get_def bo_remaining_def split: prod.splits)
next
  case False
  have lt: "(2::rat) ^ (Suc n - 5) < 2 ^ 1024"
    using assms(5) by (intro power_strict_increasing) auto
  have pos: "(0::rat) < 2 ^ (Suc n - 5)" by simp
  show ?thesis
    using assms(1-4) False lt pos
    by (simp add: bo_fail_def Let_def float_pow_def bo_get_def bo_remaining_def min_def)
qed

theorem backoff_delay_witness:
  "\<exists>bo'. bo_fail ''u'' 7 (new_backoff\<lparr>bo_state := [(''u'', 6, 0)]\<rparr>) = Some bo'
    \<and> bo_remaining ''u'' 7 bo' = 4"
proof -
  let ?bo = "new_backoff\<lparr>bo_state := [(''u'', 6, 0)]\<rparr>"
  have "bo_free_attempts ?bo = 5" "bo_base ?bo = 2" "bo_cap ?bo = 300" "fst (bo_get ?bo ''u'') = 6"
    by (simp_all add: new_backoff_def bo_get_def)
  then show ?thesis using backoff_delay [of ?bo "''u''" 6 7] by auto
qed

text \<open>from the 1029th consecutive failure on, recording a failure raises instead of recording it
  (the power overflows a float before it is capped), so the state keeps the old deadline and no
  further delay is ever imposed.\<close>

theorem backoff_overflow:
  assumes "bo_free_attempts bo = 5" "bo_base bo = 2" "1028 \<le> fst (bo_get bo k)"
  shows "bo_fail k now bo = None"
proof -
  have "(2::rat) ^ 1024 \<le> 2 ^ (fst (bo_get bo k) + 1 - 5)"
    using assms(3) by (intro power_increasing) auto
  then show ?thesis using assms by (simp add: bo_fail_def Let_def float_pow_def)
qed

theorem backoff_overflow_witness:
  "bo_fail ''u'' 900 (new_backoff\<lparr>bo_state := [(''u'', 1028, 300)]\<rparr>) = None"
  by (rule backoff_overflow) (simp_all add: new_backoff_def bo_get_def)

end
