(* ===== verification/Invocation.thy ===== *)
theory Invocation
  imports Py_Path
begin

text \<open>
  \<open>recipes/context.py\<close>: what the platform tells a recipe about the run it starts. The context
  travels through three environment variables; the server stamps them on a child's environment
  (\<open>apply_to_env\<close>) and every publishing process reads them back (\<open>current_ctx\<close>).
\<close>

definition CALLER_ENV :: string where "CALLER_ENV = ''FRAGO_RECIPE_CALLER''"
definition SLOT_ENV :: string where "SLOT_ENV = ''FRAGO_RECIPE_SLOT''"
definition DATA_DIR_ENV :: string where "DATA_DIR_ENV = ''FRAGO_RECIPE_DATA_DIR''"

definition CONTEXT_ENV_KEYS :: "string list" where
  "CONTEXT_ENV_KEYS = [CALLER_ENV, SLOT_ENV, DATA_DIR_ENV]"

lemmas ctx_env_names = CALLER_ENV_def SLOT_ENV_def DATA_DIR_ENV_def CONTEXT_ENV_KEYS_def

definition OWNER :: string where "OWNER = ''owner''"
definition VISITOR :: string where "VISITOR = ''visitor''"

datatype invalid_context =
    UnknownCaller string
  | EmptySlot
  | EmptyDataDir
  | IncompleteContext

record invocation_context =
  ic_caller :: string
  ic_slot :: "string option"
  ic_data_dir :: "path option"

definition is_visitor_ctx :: "invocation_context \<Rightarrow> bool" where
  "is_visitor_ctx ctx = (ic_caller ctx = VISITOR)"

definition OWNER_CONTEXT :: invocation_context where
  "OWNER_CONTEXT = \<lparr>ic_caller = OWNER, ic_slot = None, ic_data_dir = None\<rparr>"

text \<open>\<open>str.casefold\<close> in the modelled range: lower case, and two letters for the sharp s.\<close>

definition casefold :: "string \<Rightarrow> string" where
  "casefold s = concat (map (\<lambda>c. if of_char c = (223::nat) then ''ss'' else [lower_char c]) s)"

definition read_env :: "(string, string) dict \<Rightarrow> string \<Rightarrow> string" where
  "read_env env k = strip (case dict_get env k of Some v \<Rightarrow> v | None \<Rightarrow> [])"

definition current_ctx ::
    "(path \<Rightarrow> path) \<Rightarrow> (string, string) dict \<Rightarrow> invalid_context + invocation_context" where
  "current_ctx expand env =
     (let caller = casefold (read_env env CALLER_ENV)
      in if caller = [] \<or> caller = OWNER then Inr OWNER_CONTEXT
         else if caller \<noteq> VISITOR then Inl (UnknownCaller caller)
         else let slot = read_env env SLOT_ENV
              in if slot = [] then Inl EmptySlot
                 else let raw_dir = read_env env DATA_DIR_ENV
                      in if raw_dir = [] then Inl EmptyDataDir
                         else Inr \<lparr>ic_caller = VISITOR, ic_slot = Some slot,
                                   ic_data_dir = Some (expand (path_of raw_dir))\<rparr>)"

definition is_visitor :: "(path \<Rightarrow> path) \<Rightarrow> (string, string) dict \<Rightarrow> invalid_context + bool" where
  "is_visitor expand env = bindE (current_ctx expand env) (\<lambda>c. Inr (is_visitor_ctx c))"

definition ctx_data_dir ::
    "(path \<Rightarrow> path) \<Rightarrow> string \<Rightarrow> (string, string) dict \<Rightarrow> invalid_context + path" where
  "ctx_data_dir expand fallback env =
     bindE (current_ctx expand env)
       (\<lambda>ctx. Inr (case ic_data_dir ctx of Some d \<Rightarrow> d | None \<Rightarrow> expand (path_of fallback)))"

definition working_dir :: "path \<Rightarrow> string \<Rightarrow> invocation_context option \<Rightarrow> path" where
  "working_dir home recipe_name ctx =
     (case ctx of
        Some c \<Rightarrow> (case ic_data_dir c of
            Some d \<Rightarrow> d
          | None \<Rightarrow> path_join (home @ [''.frago'', ''users'', OWNER, ''data'']) recipe_name)
      | None \<Rightarrow> path_join (home @ [''.frago'', ''users'', OWNER, ''data'']) recipe_name)"

definition prepare_working_dir ::
    "path \<Rightarrow> string \<Rightarrow> invocation_context option \<Rightarrow> file_sys \<Rightarrow> path \<times> file_sys" where
  "prepare_working_dir home recipe_name ctx fs =
     (let target = working_dir home recipe_name ctx in (target, mkdir_parents target fs))"

definition apply_to_env ::
    "(string, string) dict \<Rightarrow> invocation_context option \<Rightarrow> invalid_context + (string, string) dict" where
  "apply_to_env env ctx =
     (case ctx of
        None \<Rightarrow> Inr (fold dict_del CONTEXT_ENV_KEYS env)
      | Some c \<Rightarrow>
          if \<not> is_visitor_ctx c then Inr (fold dict_del CONTEXT_ENV_KEYS env)
          else (case (ic_slot c, ic_data_dir c) of
                  (Some s, Some d) \<Rightarrow>
                    if s = [] then Inl IncompleteContext
                    else Inr (dict_set DATA_DIR_ENV (path_str d)
                               (dict_set SLOT_ENV s (dict_set CALLER_ENV VISITOR env)))
                | _ \<Rightarrow> Inl IncompleteContext))"

subsection \<open>The context a child reads is the one it was started with\<close>

lemma apply_to_env_keys [simp]:
  "SLOT_ENV \<noteq> CALLER_ENV" "CALLER_ENV \<noteq> SLOT_ENV" "DATA_DIR_ENV \<noteq> CALLER_ENV"
  "CALLER_ENV \<noteq> DATA_DIR_ENV" "DATA_DIR_ENV \<noteq> SLOT_ENV" "SLOT_ENV \<noteq> DATA_DIR_ENV"
  by (simp_all add: ctx_env_names)

lemma read_env_VISITOR [simp]: "casefold (strip VISITOR) = VISITOR"
  by code_simp

lemma VISITOR_neq [simp]: "VISITOR \<noteq> []" "VISITOR \<noteq> OWNER" "OWNER \<noteq> VISITOR"
  by (simp_all add: VISITOR_def OWNER_def)

lemma current_ctx_of_cleared:
  "apply_to_env env ctx = Inr env' \<Longrightarrow> (case ctx of Some c \<Rightarrow> \<not> is_visitor_ctx c | None \<Rightarrow> True) \<Longrightarrow>
   current_ctx expand env' = Inr OWNER_CONTEXT"
proof -
  assume a: "apply_to_env env ctx = Inr env'"
    and b: "case ctx of Some c \<Rightarrow> \<not> is_visitor_ctx c | None \<Rightarrow> True"
  have e: "env' = fold dict_del CONTEXT_ENV_KEYS env"
    using a b by (auto simp: apply_to_env_def split: option.splits)
  have "read_env env' CALLER_ENV = []"
    by (simp add: e read_env_def CONTEXT_ENV_KEYS_def strip_def lstrip_def rstrip_def)
  then show ?thesis
    by (simp add: current_ctx_def casefold_def)
qed

lemma current_ctx_of_visitor:
  assumes "apply_to_env env (Some c) = Inr env'" "is_visitor_ctx c"
    "ic_slot c = Some s" "ic_data_dir c = Some d" "strip s = s"
    "path_str d \<noteq> []" "strip (path_str d) = path_str d" "expand (path_of (path_str d)) = d"
  shows "current_ctx expand env' = Inr c"
proof -
  have "s \<noteq> []"
    and e: "env' = dict_set DATA_DIR_ENV (path_str d) (dict_set SLOT_ENV s (dict_set CALLER_ENV VISITOR env))"
    using assms(1-4) by (auto simp: apply_to_env_def split: if_splits)
  moreover have "c = \<lparr>ic_caller = VISITOR, ic_slot = Some s, ic_data_dir = Some d\<rparr>"
    using assms(2-4) by (simp add: is_visitor_ctx_def)
  ultimately show ?thesis
    using assms(5-8) by (simp add: current_ctx_def read_env_def Let_def)
qed

end
