(* ===== verification/Passwords.thy ===== *)
theory Passwords
  imports Invocation
begin

text \<open>
  The password and address part of \<open>server/identity.py\<close>: what an account name and a password must look
  like, and the stored form \<open>scrypt$n$r$p$salt$hash\<close>. SHA-256, scrypt and the Unicode tables are
  functions of the process; base64, UTF-8 and the text format are spelled out.
\<close>

record crypto =
  sha256_hex :: "string \<Rightarrow> string"
  scrypt :: "string \<Rightarrow> string \<Rightarrow> nat \<Rightarrow> nat \<Rightarrow> nat \<Rightarrow> nat \<Rightarrow> string option"
  nfkc_casefold :: "string \<Rightarrow> string"

subsection \<open>Bytes\<close>

text \<open>\<open>str.encode("utf-8")\<close> for the code points below 256: one or two bytes each.\<close>

definition utf8_char :: "char \<Rightarrow> string" where
  "utf8_char c = (let n = (of_char c :: nat) in
     if n < 128 then [c] else [char_of (192 + n div 64), char_of (128 + n mod 64)])"

definition utf8 :: "string \<Rightarrow> string" where
  "utf8 s = concat (map utf8_char s)"

definition b64_char :: "nat \<Rightarrow> char" where
  "b64_char n =
     (if n < 26 then char_of (65 + n) else if n < 52 then char_of (71 + n)
      else if n < 62 then char_of (n - 4) else if n = 62 then CHR ''+'' else CHR ''/'')"

definition b64_val :: "char \<Rightarrow> nat option" where
  "b64_val c = (let n = (of_char c :: nat) in
     if 65 \<le> n \<and> n \<le> 90 then Some (n - 65)
     else if 97 \<le> n \<and> n \<le> 122 then Some (n - 71)
     else if 48 \<le> n \<and> n \<le> 57 then Some (n + 4)
     else if n = 43 then Some 62 else if n = 47 then Some 63 else None)"

fun b64encode :: "string \<Rightarrow> string" where
  "b64encode [] = []"
| "b64encode [a] = (let x = of_char a in
     [b64_char (x div 4), b64_char ((x mod 4) * 16), CHR ''='', CHR ''=''])"
| "b64encode [a, b] = (let x = of_char a; y = of_char b in
     [b64_char (x div 4), b64_char ((x mod 4) * 16 + y div 16), b64_char ((y mod 16) * 4), CHR ''=''])"
| "b64encode (a # b # c # rest) = (let x = of_char a; y = of_char b; z = of_char c in
     [b64_char (x div 4), b64_char ((x mod 4) * 16 + y div 16),
      b64_char ((y mod 16) * 4 + z div 64), b64_char (z mod 64)] @ b64encode rest)"

text \<open>\<open>b64decode(validate=True)\<close>; None is the \<open>binascii.Error\<close>, a \<open>ValueError\<close>.\<close>

fun b64decode :: "string \<Rightarrow> string option" where
  "b64decode [] = Some []"
| "b64decode (a # b # c # d # rest) =
     (case (b64_val a, b64_val b) of
        (Some w, Some x) \<Rightarrow>
          if rest = [] \<and> c = CHR ''='' \<and> d = CHR ''='' then Some [char_of (w * 4 + x div 16)]
          else (case b64_val c of
                  None \<Rightarrow> None
                | Some y \<Rightarrow>
                    if rest = [] \<and> d = CHR ''=''
                    then Some [char_of (w * 4 + x div 16), char_of ((x mod 16) * 16 + y div 4)]
                    else (case b64_val d of
                            None \<Rightarrow> None
                          | Some z \<Rightarrow>
                              map_option (\<lambda>r. [char_of (w * 4 + x div 16), char_of ((x mod 16) * 16 + y div 4),
                                                char_of ((y mod 4) * 64 + z)] @ r) (b64decode rest)))
      | _ \<Rightarrow> None)"
| "b64decode _ = None"

subsection \<open>Addresses and passwords\<close>

definition MIN_PASSWORD_LENGTH :: nat where "MIN_PASSWORD_LENGTH = 10"
definition MAX_PASSWORD_LENGTH :: nat where "MAX_PASSWORD_LENGTH = 256"
definition MAX_EMAIL_LENGTH :: nat where "MAX_EMAIL_LENGTH = 320"
definition MAX_RAW_EMAIL_LENGTH :: nat where "MAX_RAW_EMAIL_LENGTH = 512"

definition WEAK_PASSWORDS :: "string list" where
  "WEAK_PASSWORDS =
     [''password'', ''password1'', ''password123'', ''passw0rd'', ''123456'', ''1234567'',
      ''12345678'', ''123456789'', ''1234567890'', ''qwertyuiop'', ''letmein'', ''welcome'',
      ''iloveyou'', ''admin'', ''administrator'', ''changeme'', ''abc123'', ''monkey'',
      ''dragon'', ''sunshine'', ''princess'', ''football'', ''baseball'', ''trustno1'',
      ''qwerty123'', ''1q2w3e4r'', ''zaq12wsx'', ''asdfghjkl'', ''000000'', ''111111'']"

text \<open>The pattern \<open>^[^\s@]+@[^\s@]+\.[^\s@]+$\<close>: one @, no white space, and a dot inside the domain that
  is neither its first nor its last character.\<close>

definition EMAIL_SHAPE :: "string \<Rightarrow> bool" where
  "EMAIL_SHAPE s =
     (case split_on CHR ''@'' (chomp_nl s) of
        [local, domain] \<Rightarrow>
          local \<noteq> [] \<and> list_all (\<lambda>c. \<not> is_space c) (local @ domain)
          \<and> CHR ''.'' \<in> set (butlast (tl domain))
      | _ \<Rightarrow> False)"

definition normalize_email :: "crypto \<Rightarrow> string \<Rightarrow> string" where
  "normalize_email cr raw = nfkc_casefold cr (strip raw)"

definition derive_id :: "crypto \<Rightarrow> string \<Rightarrow> string" where
  "derive_id cr email = take 32 (sha256_hex cr (utf8 (normalize_email cr email)))"

definition email_problem :: "crypto \<Rightarrow> string \<Rightarrow> string option" where
  "email_problem cr raw =
     (if strip raw = [] then Some ''email is required''
      else if length raw > MAX_RAW_EMAIL_LENGTH then Some ''email is too long''
      else if length (utf8 (normalize_email cr raw)) > MAX_EMAIL_LENGTH then Some ''email is too long''
      else if \<not> EMAIL_SHAPE (normalize_email cr raw)
      then Some ''that does not look like an email address''
      else None)"

definition password_problem :: "string \<Rightarrow> string option" where
  "password_problem password =
     (if password = [] then Some ''password is required''
      else if length password < MIN_PASSWORD_LENGTH
      then Some (''password must be at least '' @ dec MIN_PASSWORD_LENGTH @ '' characters'')
      else if length password > MAX_PASSWORD_LENGTH
      then Some (''password must be at most '' @ dec MAX_PASSWORD_LENGTH @ '' characters'')
      else if casefold (strip password) \<in> set WEAK_PASSWORDS
      then Some ''that password is on every guessing list; pick another''
      else None)"

subsection \<open>Hashing\<close>

definition SCRYPT_N :: nat where "SCRYPT_N = 2 ^ 14"
definition SCRYPT_R :: nat where "SCRYPT_R = 8"
definition SCRYPT_P :: nat where "SCRYPT_P = 1"
definition SCRYPT_DKLEN :: nat where "SCRYPT_DKLEN = 32"

text \<open>The salt is the fresh random value. None is the \<open>ValueError\<close> of scrypt.\<close>

definition hash_password :: "crypto \<Rightarrow> string \<Rightarrow> string \<Rightarrow> nat \<Rightarrow> nat \<Rightarrow> nat \<Rightarrow> string option" where
  "hash_password cr salt password n r p =
     map_option
       (\<lambda>digest. ''scrypt$'' @ dec n @ ''$'' @ dec r @ ''$'' @ dec p @ ''$'' @ b64encode salt @ ''$''
                  @ b64encode digest)
       (scrypt cr (utf8 password) salt n r p SCRYPT_DKLEN)"

definition verify_password :: "crypto \<Rightarrow> string \<Rightarrow> string \<Rightarrow> bool" where
  "verify_password cr password encoded =
     (if encoded = [] \<or> length password > MAX_PASSWORD_LENGTH then False
      else case split_on CHR ''$'' encoded of
        [tag, sn, sr, sp, ssalt, shash] \<Rightarrow>
          if tag \<noteq> ''scrypt'' then False
          else (case (py_int sn, py_int sr, py_int sp, b64decode ssalt, b64decode shash) of
                  (Some n, Some r, Some p, Some salt, Some expected) \<Rightarrow>
                    if \<not> (0 < n \<and> n \<le> 2 ^ 20 \<and> 0 < r \<and> r \<le> 32 \<and> 0 < p \<and> p \<le> 16) then False
                    else (case scrypt cr (utf8 password) salt (nat n) (nat r) (nat p)
                                 (if expected = [] then SCRYPT_DKLEN else length expected) of
                            None \<Rightarrow> False
                          | Some digest \<Rightarrow> digest = expected)
                | _ \<Rightarrow> False)
      | _ \<Rightarrow> False)"

definition needs_rehash :: "string \<Rightarrow> bool" where
  "needs_rehash encoded =
     (case split_on CHR ''$'' encoded of
        [tag, sn, sr, sp, ssalt, shash] \<Rightarrow>
          if tag \<noteq> ''scrypt'' then True
          else (case (py_int sn, py_int sr, py_int sp) of
                  (Some n, Some r, Some p) \<Rightarrow>
                    (n, r, p) \<noteq> (int SCRYPT_N, int SCRYPT_R, int SCRYPT_P)
                | _ \<Rightarrow> True)
      | _ \<Rightarrow> True)"

subsection \<open>Base64\<close>

lemma b64_char_code:
  "n < 64 \<Longrightarrow> (of_char (b64_char n) :: nat) =
     (if n < 26 then 65 + n else if n < 52 then 71 + n else if n < 62 then n - 4 else if n = 62 then 43 else 47)"
  by (auto simp: b64_char_def)

lemma b64_char_facts:
  assumes "n < 64"
  shows "b64_val (b64_char n) = Some n" "b64_char n \<noteq> CHR ''=''" "b64_char n \<noteq> CHR ''$''"
proof -
  have c: "(of_char CHR ''='' :: nat) = 61" "(of_char CHR ''$'' :: nat) = 36" by simp_all
  show "b64_val (b64_char n) = Some n"
    using assms by (auto simp: b64_val_def Let_def b64_char_code)
  show "b64_char n \<noteq> CHR ''=''" "b64_char n \<noteq> CHR ''$''"
    using assms b64_char_code [OF assms] c by (auto split: if_splits)
qed

lemma sextet_bounds:
  fixes x y z :: nat
  assumes "x < 256" "y < 256" "z < 256"
  shows "x div 4 < 64" "(x mod 4) * 16 < 64" "(x mod 4) * 16 + y div 16 < 64" "(y mod 16) * 4 < 64"
    "(y mod 16) * 4 + z div 64 < 64" "z mod 64 < 64"
  using assms by auto

lemma sextet_join:
  fixes x y z :: nat
  assumes "x < 256" "y < 256" "z < 256"
  shows "(x div 4) * 4 + ((x mod 4) * 16) div 16 = x"
    "(x div 4) * 4 + ((x mod 4) * 16 + y div 16) div 16 = x"
    "(((x mod 4) * 16 + y div 16) mod 16) * 16 + ((y mod 16) * 4) div 4 = y"
    "(((x mod 4) * 16 + y div 16) mod 16) * 16 + ((y mod 16) * 4 + z div 64) div 4 = y"
    "(((y mod 16) * 4 + z div 64) mod 4) * 64 + z mod 64 = z"
proof -
  have a: "y div 16 < 16" "z div 64 < 4" using assms by auto
  have b: "((x mod 4) * 16 + y div 16) div 16 = x mod 4" "((x mod 4) * 16 + y div 16) mod 16 = y div 16"
    "((y mod 16) * 4 + z div 64) div 4 = y mod 16" "((y mod 16) * 4 + z div 64) mod 4 = z div 64"
    using a by simp_all
  show "(x div 4) * 4 + ((x mod 4) * 16) div 16 = x"
    "(x div 4) * 4 + ((x mod 4) * 16 + y div 16) div 16 = x"
    "(((x mod 4) * 16 + y div 16) mod 16) * 16 + ((y mod 16) * 4) div 4 = y"
    "(((x mod 4) * 16 + y div 16) mod 16) * 16 + ((y mod 16) * 4 + z div 64) div 4 = y"
    "(((y mod 16) * 4 + z div 64) mod 4) * 64 + z mod 64 = z"
    unfolding b by simp_all
qed

lemma b64decode_group:
  assumes "w < 64" "x < 64" "y < 64" "z < 64"
  shows "b64decode (b64_char w # b64_char x # b64_char y # b64_char z # rest) =
    map_option (\<lambda>r. [char_of (w * 4 + x div 16), char_of ((x mod 16) * 16 + y div 4),
      char_of ((y mod 4) * 64 + z)] @ r) (b64decode rest)"
  using assms by (cases "b64decode rest") (simp_all add: b64_char_facts)

lemma b64decode_tail1:
  "w < 64 \<Longrightarrow> x < 64 \<Longrightarrow>
    b64decode [b64_char w, b64_char x, CHR ''='', CHR ''=''] = Some [char_of (w * 4 + x div 16)]"
  by (simp add: b64_char_facts)

lemma b64decode_tail2:
  "w < 64 \<Longrightarrow> x < 64 \<Longrightarrow> y < 64 \<Longrightarrow>
    b64decode [b64_char w, b64_char x, b64_char y, CHR ''=''] =
      Some [char_of (w * 4 + x div 16), char_of ((x mod 16) * 16 + y div 4)]"
  by (simp add: b64_char_facts)

lemma bytes_back:
  fixes a b c :: char
  defines "x \<equiv> (of_char a :: nat)" and "y \<equiv> (of_char b :: nat)" and "z \<equiv> (of_char c :: nat)"
  shows "char_of (x div 4 * 4 + (x mod 4 * 16) div 16) = a"
    "char_of (x div 4 * 4 + (x mod 4 * 16 + y div 16) div 16) = a"
    "char_of ((x mod 4 * 16 + y div 16) mod 16 * 16 + (y mod 16 * 4) div 4) = b"
    "char_of ((x mod 4 * 16 + y div 16) mod 16 * 16 + (y mod 16 * 4 + z div 64) div 4) = b"
    "char_of ((y mod 16 * 4 + z div 64) mod 4 * 64 + z mod 64) = c"
proof -
  have l: "x < 256" "y < 256" "z < 256" by (simp_all add: x_def y_def z_def)
  have r: "char_of x = a" "char_of y = b" "char_of z = c" by (simp_all add: x_def y_def z_def)
  show "char_of (x div 4 * 4 + (x mod 4 * 16) div 16) = a"
    "char_of (x div 4 * 4 + (x mod 4 * 16 + y div 16) div 16) = a"
    "char_of ((x mod 4 * 16 + y div 16) mod 16 * 16 + (y mod 16 * 4) div 4) = b"
    "char_of ((x mod 4 * 16 + y div 16) mod 16 * 16 + (y mod 16 * 4 + z div 64) div 4) = b"
    "char_of ((y mod 16 * 4 + z div 64) mod 4 * 64 + z mod 64) = c"
    using r by (simp_all only: sextet_join [OF l])
qed

lemmas byte_sextets = sextet_bounds [OF nat_of_char_less_256 nat_of_char_less_256 nat_of_char_less_256]

lemma b64_roundtrip: "b64decode (b64encode s) = Some s"
proof (induction s rule: b64encode.induct)
  case (2 a)
  show ?case
    by (simp only: b64encode.simps Let_def b64decode_tail1 b64decode_tail2 byte_sextets bytes_back)
next
  case (3 a b)
  show ?case
    by (simp only: b64encode.simps Let_def b64decode_tail1 b64decode_tail2 byte_sextets bytes_back)
next
  case (4 a b c rest)
  have "b64decode (b64encode rest) = Some rest" by (rule 4) simp_all
  then show ?case
    by (simp only: b64encode.simps Let_def append.simps b64decode_group byte_sextets bytes_back option.map)
qed simp

lemma b64_char_dollar: "n < 64 \<Longrightarrow> CHR ''$'' \<noteq> b64_char n"
  using b64_char_facts(3) by metis

lemma b64encode_no_dollar: "CHR ''$'' \<notin> set (b64encode s)"
proof (induction s rule: b64encode.induct)
  case (4 a b c rest)
  have "CHR ''$'' \<notin> set (b64encode rest)" by (rule 4) simp_all
  then show ?case
    by (simp only: b64encode.simps Let_def append.simps list.set byte_sextets b64_char_dollar insert_iff simp_thms)
qed (simp_all only: b64encode.simps Let_def append.simps list.set byte_sextets b64_char_dollar insert_iff
      empty_iff simp_thms char.inject)

lemma six_fields:
  "(case xs of [a, b, c, d, e, f] \<Rightarrow> P a b c d e f | _ \<Rightarrow> False) \<longleftrightarrow>
     (\<exists>a b c d e f. xs = [a, b, c, d, e, f] \<and> P a b c d e f)"
  by (auto split: list.split)

lemma five_values:
  "(case (a, b, c, d, e) of (Some v, Some w, Some x, Some y, Some z) \<Rightarrow> P v w x y z | _ \<Rightarrow> False) \<longleftrightarrow>
     (\<exists>v w x y z. a = Some v \<and> b = Some w \<and> c = Some x \<and> d = Some y \<and> e = Some z \<and> P v w x y z)"
  by (cases a; cases b; cases c; cases d; cases e) simp_all

lemma if_False_else: "(if A then False else B) \<longleftrightarrow> \<not> A \<and> B"
  by simp

lemma some_equals: "(case m of None \<Rightarrow> False | Some d \<Rightarrow> d = e) \<longleftrightarrow> m = Some e"
  by (cases m) simp_all

lemmas verify_password_iff = verify_password_def [unfolded six_fields five_values if_False_else some_equals]

lemma stored_form_parts:
  assumes "hash_password cr salt pw n r p = Some enc"
  obtains digest where "scrypt cr (utf8 pw) salt n r p SCRYPT_DKLEN = Some digest"
    "split_on CHR ''$'' enc = [''scrypt'', dec n, dec r, dec p, b64encode salt, b64encode digest]"
proof -
  obtain d where d: "scrypt cr (utf8 pw) salt n r p SCRYPT_DKLEN = Some d"
    and e: "enc = ''scrypt$'' @ dec n @ ''$'' @ dec r @ ''$'' @ dec p @ ''$'' @ b64encode salt @ ''$'' @ b64encode d"
    using assms by (auto simp: hash_password_def)
  have "split_on CHR ''$'' enc = [''scrypt'', dec n, dec r, dec p, b64encode salt, b64encode d]"
    by (simp add: e split_on_append dec_no_dollar b64encode_no_dollar split_on_id)
  with d that show ?thesis by blast
qed

lemma hash_password_ne: "hash_password cr salt pw n r p = Some enc \<Longrightarrow> enc \<noteq> []"
  by (auto simp: hash_password_def)

lemma hash_verify_facts:
  assumes "hash_password cr salt pw n r p = Some enc"
    and "\<And>d. scrypt cr (utf8 pw) salt n r p SCRYPT_DKLEN = Some d \<Longrightarrow> length d = SCRYPT_DKLEN"
    and "length pw \<le> MAX_PASSWORD_LENGTH" "0 < n" "n \<le> 2 ^ 20" "0 < r" "r \<le> 32" "0 < p" "p \<le> 16"
  shows "verify_password cr pw enc
    \<and> (needs_rehash enc \<longleftrightarrow> (n, r, p) \<noteq> (SCRYPT_N, SCRYPT_R, SCRYPT_P))"
proof -
  obtain d where d: "scrypt cr (utf8 pw) salt n r p SCRYPT_DKLEN = Some d"
    and sp: "split_on CHR ''$'' enc = [''scrypt'', dec n, dec r, dec p, b64encode salt, b64encode d]"
    using stored_form_parts [OF assms(1)] .
  have len: "length d = SCRYPT_DKLEN" using assms(2) d .
  then have "d \<noteq> []" by (auto simp: SCRYPT_DKLEN_def)
  moreover have "int n \<le> 2 ^ 20" using assms(5) by (metis of_nat_le_iff of_nat_numeral of_nat_power)
  ultimately have "verify_password cr pw enc"
    using assms(3-9) d len sp hash_password_ne [OF assms(1)] by (simp add: verify_password_def b64_roundtrip)
  moreover have "needs_rehash enc \<longleftrightarrow> (n, r, p) \<noteq> (SCRYPT_N, SCRYPT_R, SCRYPT_P)"
    by (simp add: needs_rehash_def sp)
  ultimately show ?thesis by blast
qed

subsection \<open>Properties\<close>

text \<open>the stored form verifies. A password of acceptable length, hashed with parameters inside the
  accepted range, is accepted against its own stored form, and a form written with today's parameters
  is not marked for rehashing. (scrypt returns as many bytes as were asked for.)\<close>

theorem hash_verify_roundtrip:
  assumes "hash_password cr salt pw n r p = Some enc"
    and "\<And>d. scrypt cr (utf8 pw) salt n r p SCRYPT_DKLEN = Some d \<Longrightarrow> length d = SCRYPT_DKLEN"
    and "length pw \<le> MAX_PASSWORD_LENGTH" "0 < n" "n \<le> 2 ^ 20" "0 < r" "r \<le> 32" "0 < p" "p \<le> 16"
  shows "verify_password cr pw enc
    \<and> (needs_rehash enc \<longleftrightarrow> (n, r, p) \<noteq> (SCRYPT_N, SCRYPT_R, SCRYPT_P))"
  using assms by (rule hash_verify_facts)

definition demo_crypto :: crypto where
  "demo_crypto = \<lparr>sha256_hex = (\<lambda>s. take 64 (s @ replicate 64 CHR ''0'')),
     scrypt = (\<lambda>pw salt n r p k. Some (take k (pw @ salt @ replicate k CHR ''x''))), nfkc_casefold = lower\<rparr>"

theorem hash_verify_roundtrip_witness:
  "\<exists>enc. hash_password demo_crypto ''salt'' ''correct horse'' SCRYPT_N SCRYPT_R SCRYPT_P = Some enc
    \<and> verify_password demo_crypto ''correct horse'' enc \<and> \<not> needs_rehash enc"
proof -
  obtain enc where e: "hash_password demo_crypto ''salt'' ''correct horse'' SCRYPT_N SCRYPT_R SCRYPT_P = Some enc"
    by (simp add: hash_password_def demo_crypto_def)
  have "verify_password demo_crypto ''correct horse'' enc
      \<and> (needs_rehash enc \<longleftrightarrow> (SCRYPT_N, SCRYPT_R, SCRYPT_P) \<noteq> (SCRYPT_N, SCRYPT_R, SCRYPT_P))"
    by (rule hash_verify_roundtrip [OF e])
      (simp_all add: demo_crypto_def SCRYPT_N_def SCRYPT_R_def SCRYPT_P_def SCRYPT_DKLEN_def
        MAX_PASSWORD_LENGTH_def)
  with e show ?thesis by simp
qed

text \<open>C19: acceptance means the digest matched, at bounded cost. If a password is accepted, the stored
  form has six fields starting with \<open>scrypt\<close>, its parameters lie within the accepted bounds, the password
  is at most 256 characters, and scrypt of the password under the stored salt is the stored digest.
  A malformed record accepts nothing.\<close>

theorem verify_password_sound:
  assumes "verify_password cr pw enc"
  shows "\<exists>sn sr sp ssalt shash n r p salt expected.
     split_on CHR ''$'' enc = [''scrypt'', sn, sr, sp, ssalt, shash]
     \<and> py_int sn = Some (int n) \<and> py_int sr = Some (int r) \<and> py_int sp = Some (int p)
     \<and> b64decode ssalt = Some salt \<and> b64decode shash = Some expected
     \<and> 0 < n \<and> n \<le> 2 ^ 20 \<and> 0 < r \<and> r \<le> 32 \<and> 0 < p \<and> p \<le> 16 \<and> length pw \<le> MAX_PASSWORD_LENGTH
     \<and> scrypt cr (utf8 pw) salt n r p (if expected = [] then SCRYPT_DKLEN else length expected) = Some expected"
proof -
  obtain tag sn sr sp ssalt shash n r p salt expected
    where f: "split_on CHR ''$'' enc = [tag, sn, sr, sp, ssalt, shash]" "\<not> tag \<noteq> ''scrypt''"
      "py_int sn = Some n" "py_int sr = Some r" "py_int sp = Some p"
      "b64decode ssalt = Some salt" "b64decode shash = Some expected"
      and b: "\<not> \<not> (0 < n \<and> n \<le> 2 ^ 20 \<and> 0 < r \<and> r \<le> 32 \<and> 0 < p \<and> p \<le> 16)"
      and d: "scrypt cr (utf8 pw) salt (nat n) (nat r) (nat p)
         (if expected = [] then SCRYPT_DKLEN else length expected) = Some expected"
    using assms unfolding verify_password_iff by blast
  have "length pw \<le> MAX_PASSWORD_LENGTH" using assms unfolding verify_password_iff by linarith
  moreover have "nat n \<le> 2 ^ 20" "nat r \<le> 32" "nat p \<le> 16" using b by (simp_all add: nat_le_iff)
  ultimately show ?thesis
    using f b d by - (rule exI [of _ sn], rule exI [of _ sr], rule exI [of _ sp], rule exI [of _ ssalt],
        rule exI [of _ shash], rule exI [of _ "nat n"], rule exI [of _ "nat r"], rule exI [of _ "nat p"],
        rule exI [of _ salt], rule exI [of _ expected], simp)
qed

theorem verify_password_sound_witness:
  "\<exists>sn sr sp ssalt shash n r p salt expected.
     split_on CHR ''$'' ''scrypt$2$1$1$YWI=$cHd4'' = [''scrypt'', sn, sr, sp, ssalt, shash]
     \<and> py_int sn = Some (int n) \<and> py_int sr = Some (int r) \<and> py_int sp = Some (int p)
     \<and> b64decode ssalt = Some salt \<and> b64decode shash = Some expected
     \<and> 0 < n \<and> n \<le> 2 ^ 20 \<and> 0 < r \<and> r \<le> 32 \<and> 0 < p \<and> p \<le> 16
     \<and> length ''pwx'' \<le> MAX_PASSWORD_LENGTH
     \<and> scrypt demo_crypto (utf8 ''pwx'') salt n r p
          (if expected = [] then SCRYPT_DKLEN else length expected) = Some expected"
proof (rule verify_password_sound)
  show "verify_password demo_crypto ''pwx'' ''scrypt$2$1$1$YWI=$cHd4''" by code_simp
qed

end
