(* ===== verification/Switches.thy ===== *)
theory Switches
  imports Rate_Limit Passwords
begin

text \<open>
  What a deployment is made of, seen from the server: its environment variables, the library functions
  it calls (hashes, time stamps, address and query parsing) and the container markers on its disk, all
  in one record \<open>site\<close>. On top of it the switches of \<open>server/security.py\<close> and \<open>server/identity.py\<close>,
  which both the gate and the account table consult.
\<close>

subsection \<open>Addresses\<close>

text \<open>An address as \<open>ipaddress\<close> parses it: a 32-bit or a 128-bit number.\<close>

datatype ip = V4 nat | V6 nat

definition ip_unspecified :: "ip \<Rightarrow> bool" where
  "ip_unspecified a = (case a of V4 n \<Rightarrow> n = 0 | V6 n \<Rightarrow> n = 0)"

definition ip_loopback :: "ip \<Rightarrow> bool" where
  "ip_loopback a = (case a of V4 n \<Rightarrow> n div 2 ^ 24 = 127 | V6 n \<Rightarrow> n = 1)"

definition ip_link_local :: "ip \<Rightarrow> bool" where
  "ip_link_local a = (case a of V4 n \<Rightarrow> n div 2 ^ 16 = 169 * 256 + 254 | V6 n \<Rightarrow> n div 2 ^ 118 = 1018)"

definition ipv4_mapped :: "ip \<Rightarrow> ip option" where
  "ipv4_mapped a =
     (case a of V4 _ \<Rightarrow> None | V6 n \<Rightarrow> if n div 2 ^ 32 = 65535 then Some (V4 (n mod 2 ^ 32)) else None)"

subsection \<open>The deployment\<close>

text \<open>\<open>isoformat\<close> renders a moment, given in whole seconds, in the local zone with its offset;
  \<open>fromisoformat\<close> reads such a text back. \<open>str_json\<close> is \<open>str()\<close> of a decoded value that is not a
  string. \<open>query_params\<close> is Starlette's parser of a query string, \<open>unquote_plus\<close> the standard
  library's decoding of one value, \<open>ip_parse\<close> and \<open>ip_private\<close> come from \<open>ipaddress\<close>.\<close>

record site =
  st_os :: os_env
  st_crypto :: crypto
  isoformat :: "int \<Rightarrow> string"
  fromisoformat :: "string \<Rightarrow> int option"
  str_json :: "json \<Rightarrow> string"
  query_params :: "string \<Rightarrow> (string \<times> string) list"
  unquote_plus :: "string \<Rightarrow> string"
  ip_parse :: "string \<Rightarrow> ip option"
  ip_private :: "ip \<Rightarrow> bool"
  dockerenv :: bool
  containerenv :: bool
  cgroup :: "string option"

definition site_env :: "site \<Rightarrow> string \<Rightarrow> string option" where
  "site_env w n = getenv (st_os w) n"

subsection \<open>Switches\<close>

definition NEGATIVE :: "string list" where
  "NEGATIVE = [[], ''0'', ''false'', ''no'', ''off'']"

definition enabled :: "site \<Rightarrow> string \<Rightarrow> bool \<Rightarrow> bool" where
  "enabled w name dflt =
     (case site_env w name of None \<Rightarrow> dflt | Some raw \<Rightarrow> lower (strip raw) \<notin> set NEGATIVE)"

definition in_container :: "site \<Rightarrow> bool" where
  "in_container w =
     (if dockerenv w \<or> containerenv w then True
      else (case cgroup w of
              None \<Rightarrow> False
            | Some text \<Rightarrow>
                list_ex (contains text) [''docker'', ''containerd'', ''kubepods'', ''lxc'']))"

definition lan_is_trusted :: "site \<Rightarrow> bool" where
  "lan_is_trusted w = enabled w ''FRAGO_TRUST_LAN'' (\<not> in_container w)"

definition peer_trust_disabled :: "site \<Rightarrow> bool" where
  "peer_trust_disabled w = enabled w ''FRAGO_BEHIND_PROXY'' False"

definition DEFAULT_LOGIN_PORTAL :: string where
  "DEFAULT_LOGIN_PORTAL = ''frago_login_portal''"

definition login_portal :: "site \<Rightarrow> string option" where
  "login_portal w =
     (let name = (case site_env w ''FRAGO_LOGIN_PORTAL'' of None \<Rightarrow> DEFAULT_LOGIN_PORTAL | Some raw \<Rightarrow> strip raw)
      in if name = [] then None else Some name)"

definition int_env :: "site \<Rightarrow> string \<Rightarrow> nat \<Rightarrow> nat" where
  "int_env w name dflt =
     (case site_env w name of
        None \<Rightarrow> dflt
      | Some raw \<Rightarrow>
          (case py_int (strip raw) of
             None \<Rightarrow> dflt
           | Some v \<Rightarrow> if v > 0 then nat v else dflt))"

lemma int_env_pos: "0 < dflt \<Longrightarrow> 0 < int_env w name dflt"
  by (auto simp: int_env_def split: option.splits)

subsection \<open>Proxies and the sign-up passphrase\<close>

definition trusted_proxies :: "site \<Rightarrow> string list" where
  "trusted_proxies w =
     (let raw = (case site_env w ''FRAGO_TRUSTED_PROXIES'' of None \<Rightarrow> [] | Some v \<Rightarrow> v)
      in [strip part. part \<leftarrow> split_on CHR '','' raw, strip part \<noteq> []])"

definition ip_rate_limiting_available :: "site \<Rightarrow> bool" where
  "ip_rate_limiting_available w =
     (if peer_trust_disabled w then trusted_proxies w \<noteq> [] else True)"

text \<open>\<open>client\<close> is the host half of \<open>scope["client"]\<close>, if the transport gives one.\<close>

definition client_ip :: "site \<Rightarrow> string option \<Rightarrow> string option" where
  "client_ip w client = (if \<not> ip_rate_limiting_available w then None else client)"

definition signup_gate :: "site \<Rightarrow> string option" where
  "signup_gate w =
     (case site_env w ''FRAGO_SIGNUP_GATE'' of
        Some v \<Rightarrow> if v \<noteq> [] then Some v else None
      | None \<Rightarrow> None)"

definition signup_gate_required :: "site \<Rightarrow> bool" where
  "signup_gate_required w = (signup_gate w \<noteq> None \<or> \<not> ip_rate_limiting_available w)"

definition gate_message :: "site \<Rightarrow> string" where
  "gate_message w =
     (if signup_gate w = None
      then ''this server cannot accept new accounts: it is behind a proxy but '' @
           ''FRAGO_TRUSTED_PROXIES is unset, so rate limiting is off and '' @
           ''FRAGO_SIGNUP_GATE must be set instead''
      else ''this server needs the shared passphrase to create an account'')"

definition check_signup_gate :: "site \<Rightarrow> string option \<Rightarrow> bool" where
  "check_signup_gate w presented =
     (case signup_gate w of
        None \<Rightarrow> \<not> signup_gate_required w
      | Some expected \<Rightarrow> utf8 (case presented of Some p \<Rightarrow> p | None \<Rightarrow> []) = utf8 expected)"

definition public_https :: "site \<Rightarrow> bool" where
  "public_https w = enabled w ''FRAGO_PUBLIC_HTTPS'' False"

definition cookie_is_secure :: "site \<Rightarrow> string option \<Rightarrow> bool" where
  "cookie_is_secure w scheme =
     (lower (case scheme of Some s \<Rightarrow> s | None \<Rightarrow> []) \<in> {''https'', ''wss''} \<or> public_https w)"

text \<open>UTF-8 separates texts, so the passphrase is compared as it was typed.\<close>

lemma utf8_char_cases:
  "(utf8_char c = [c] \<and> (of_char c :: nat) < 128) \<or>
   (\<exists>a b. utf8_char c = [a, b] \<and> 192 \<le> (of_char a :: nat) \<and>
      (of_char c :: nat) = 64 * (of_char a - 192) + (of_char b - 128))"
proof (cases "(of_char c :: nat) < 128")
  case False
  have b: "(of_char c :: nat) < 256" by simp
  then have "(192 + (of_char c :: nat) div 64) mod 256 = 192 + of_char c div 64" by (intro mod_less) linarith
  with False b show ?thesis
    by (simp add: utf8_char_def Let_def)
qed (simp add: utf8_char_def)

lemma utf8_char_inj: "utf8_char c @ x = utf8_char d @ y \<Longrightarrow> c = d \<and> x = y"
  using utf8_char_cases [of c] utf8_char_cases [of d]
  by (auto simp: of_char_eq_iff [symmetric, where 'a = nat] simp del: of_char_eq_iff)

lemma utf8_char_ne: "utf8_char c \<noteq> []"
  by (simp add: utf8_char_def Let_def)

lemma utf8_inj: "utf8 s = utf8 t \<Longrightarrow> s = t"
proof (induction s arbitrary: t)
  case Nil
  then show ?case by (cases t) (auto simp: utf8_def utf8_char_ne)
next
  case (Cons c s)
  then obtain d t' where t: "t = d # t'" by (cases t) (auto simp: utf8_def utf8_char_ne)
  with Cons.prems have "utf8_char c @ utf8 s = utf8_char d @ utf8 t'" by (simp add: utf8_def)
  then show ?case using utf8_char_inj Cons.IH t by blast
qed

lemma check_signup_gate_iff:
  "check_signup_gate w presented \<longleftrightarrow>
     (case signup_gate w of
        None \<Rightarrow> ip_rate_limiting_available w
      | Some expected \<Rightarrow> presented = Some expected)"
  by (auto simp: check_signup_gate_def signup_gate_required_def signup_gate_def utf8_inj
      split: option.splits if_splits dest: utf8_inj)

end
