(* ===== verification/Login_Sessions.thy ===== *)
theory Login_Sessions
  imports Switches
begin

text \<open>
  The login sessions of \<open>server/identity.py\<close>: one file per session under \<open>login-sessions/\<close>, named by the
  hash of the cookie. The directory is a dictionary from the stem of the file name to what the file
  holds. A file that does not parse is possible (it may be half-written by another process), so it is
  kept apart from a missing one.
\<close>

text \<open>What the world supplies to one call: the clocks, the stat of a file written now, fresh random
  bytes and the fresh tokens \<open>secrets.token_urlsafe\<close> would return one after the other. The moment \<open>now\<close> is
  in whole seconds, which is the resolution of every stamp the server writes: comparing a stamp with a
  later fraction of the same second gives the same answer.\<close>

record tick =
  now :: int
  wall :: rat
  mono :: rat
  new_stat :: stamp
  new_salt :: string
  new_tokens :: "string list"

record session_file =
  sf_text :: file_text
  sf_mtime :: rat

type_synonym sessions = "(string, session_file) dict"

record login_session =
  ls_sid :: string
  ls_identity :: string
  ls_created :: string
  ls_expires :: string
  ls_last_seen :: string

definition DEFAULT_SESSION_TTL :: nat where "DEFAULT_SESSION_TTL = 7 * 24 * 3600"
definition DEFAULT_SESSIONS_PER_USER :: nat where "DEFAULT_SESSIONS_PER_USER = 10"
definition DEFAULT_TOTAL_SESSIONS :: nat where "DEFAULT_TOTAL_SESSIONS = 5000"
definition WRITE_GRACE :: nat where "WRITE_GRACE = 60"
definition LAST_SEEN_RESOLUTION :: int where "LAST_SEEN_RESOLUTION = 300"

definition session_ttl :: "site \<Rightarrow> nat" where
  "session_ttl w = int_env w ''FRAGO_SESSION_TTL'' DEFAULT_SESSION_TTL"

subsection \<open>Reading records\<close>

text \<open>The idiom \<open>str(record.get(k) or "")\<close>.\<close>

definition py_str :: "site \<Rightarrow> json \<Rightarrow> string" where
  "py_str w j = (case j of JStr s \<Rightarrow> s | _ \<Rightarrow> str_json w j)"

definition rec_str :: "site \<Rightarrow> entry \<Rightarrow> string \<Rightarrow> string" where
  "rec_str w d k =
     (case dict_get d k of
        Some j \<Rightarrow> if truthy j then py_str w j else []
      | None \<Rightarrow> [])"

definition rec_flag :: "entry \<Rightarrow> string \<Rightarrow> bool" where
  "rec_flag d k = (case dict_get d k of Some j \<Rightarrow> truthy j | None \<Rightarrow> False)"

text \<open>\<open>_parse_time\<close>: a missing field becomes the text \<open>None\<close>, which is no time.\<close>

definition parse_time :: "site \<Rightarrow> json option \<Rightarrow> int option" where
  "parse_time w raw = (case raw of Some j \<Rightarrow> fromisoformat w (py_str w j) | None \<Rightarrow> None)"

lemma rec_str_JStr [simp]: "dict_get d k = Some (JStr s) \<Longrightarrow> rec_str w d k = s"
  by (simp add: rec_str_def py_str_def)

lemma parse_time_JStr [simp]: "parse_time w (Some (JStr s)) = fromisoformat w s"
  by (simp add: parse_time_def py_str_def)

definition sid_of :: "site \<Rightarrow> string \<Rightarrow> string" where
  "sid_of w token = sha256_hex (st_crypto w) (utf8 token)"

definition read_session :: "sessions \<Rightarrow> string \<Rightarrow> entry option" where
  "read_session ss sid =
     (case dict_get ss sid of
        Some f \<Rightarrow> (case sf_text f of Parsed (JObj d) \<Rightarrow> Some d | _ \<Rightarrow> None)
      | None \<Rightarrow> None)"

text \<open>\<open>_session_files\<close>: the stems, in the order of the file names.\<close>

definition session_files :: "sessions \<Rightarrow> string list" where
  "session_files ss = sort_key (\<lambda>sid. sid @ ''.json'') (map fst ss)"

subsection \<open>Expiry and quotas\<close>

text \<open>Whether the purge leaves a file alone.\<close>

definition purge_keeps :: "site \<Rightarrow> tick \<Rightarrow> session_file \<Rightarrow> bool" where
  "purge_keeps w t f =
     (case sf_text f of
        Parsed (JObj d) \<Rightarrow>
          (case parse_time w (dict_get d ''expires'') of
             Some e \<Rightarrow> e > now t
           | None \<Rightarrow> False)
      | _ \<Rightarrow> wall t - sf_mtime f < of_nat (session_ttl w + WRITE_GRACE))"

definition purge_expired_sessions :: "site \<Rightarrow> tick \<Rightarrow> sessions \<Rightarrow> nat \<times> sessions" where
  "purge_expired_sessions w t ss =
     (length (filter (\<lambda>(sid, f). \<not> purge_keeps w t f) ss), filter (\<lambda>(sid, f). purge_keeps w t f) ss)"

text \<open>\<open>live\<close>: the readable, non-empty records, in file order, with the account each names.\<close>

definition live_sessions :: "site \<Rightarrow> sessions \<Rightarrow> (string \<times> string \<times> entry) list" where
  "live_sessions w ss =
     List.map_filter
       (\<lambda>sid. case read_session ss sid of
                Some d \<Rightarrow> if d \<noteq> [] then Some (rec_str w d ''identity'', sid, d) else None
              | None \<Rightarrow> None)
       (session_files ss)"

definition evict ::
    "site \<Rightarrow> (string \<times> string \<times> entry) list \<Rightarrow> nat \<Rightarrow> sessions \<Rightarrow> sessions" where
  "evict w candidates keep ss =
     (let ordered = sort_key (\<lambda>(who, sid, d). rec_str w d ''created'') candidates
      in fold (\<lambda>(who, sid, d). dict_del sid) (take (length ordered + 1 - keep) ordered) ss)"

definition enforce_session_caps :: "site \<Rightarrow> string \<Rightarrow> sessions \<Rightarrow> sessions" where
  "enforce_session_caps w identity ss =
     (let per_user = int_env w ''FRAGO_MAX_SESSIONS_PER_USER'' DEFAULT_SESSIONS_PER_USER;
          total = int_env w ''FRAGO_MAX_SESSIONS'' DEFAULT_TOTAL_SESSIONS;
          live = live_sessions w ss;
          mine = filter (\<lambda>(who, sid, d). who = identity) live;
          ss1 = (if length mine \<ge> per_user then evict w mine per_user ss else ss)
      in if length live \<ge> total then evict w live total ss1 else ss1)"

subsection \<open>Issuing and revoking\<close>

datatype id_error =
    IdentityError (reason: string) (detail: string)
  | PyOverflowError
  | PyValueError

definition session_record :: "site \<Rightarrow> tick \<Rightarrow> string \<Rightarrow> entry" where
  "session_record w t identity =
     [(''identity'', JStr identity), (''created'', JStr (isoformat w (now t))),
      (''expires'', JStr (isoformat w (now t + int (session_ttl w)))),
      (''last_seen'', JStr (isoformat w (now t)))]"

text \<open>The loop over fresh tokens: the file is linked into place, which fails if the name is taken.\<close>

fun link_session ::
    "site \<Rightarrow> tick \<Rightarrow> entry \<Rightarrow> string list \<Rightarrow> sessions \<Rightarrow> (id_error + string) \<times> sessions" where
  "link_session w t d [] ss = (Inl (IdentityError ''session_failed'' ''could not issue a session''), ss)"
| "link_session w t d (token # tokens) ss =
     (if dict_get ss (sid_of w token) \<noteq> None then link_session w t d tokens ss
      else (Inr token, dict_set (sid_of w token) \<lparr>sf_text = Parsed (JObj d), sf_mtime = wall t\<rparr> ss))"

definition create_session :: "site \<Rightarrow> tick \<Rightarrow> string \<Rightarrow> sessions \<Rightarrow> (id_error + string) \<times> sessions" where
  "create_session w t identity ss =
     (let ss1 = snd (purge_expired_sessions w t ss);
          ss2 = enforce_session_caps w identity ss1
      in link_session w t (session_record w t identity) (take 4 (new_tokens t)) ss2)"

definition touch :: "site \<Rightarrow> tick \<Rightarrow> string \<Rightarrow> entry \<Rightarrow> login_session \<Rightarrow> sessions \<Rightarrow> sessions" where
  "touch w t sid d session ss =
     (case fromisoformat w (ls_last_seen session) of
        Some seen \<Rightarrow>
          if now t - seen < LAST_SEEN_RESOLUTION then ss
          else dict_set sid \<lparr>sf_text = Parsed (JObj (dict_set ''last_seen'' (JStr (isoformat w (now t))) d)),
                 sf_mtime = wall t\<rparr> ss
      | None \<Rightarrow> dict_set sid \<lparr>sf_text = Parsed (JObj (dict_set ''last_seen'' (JStr (isoformat w (now t))) d)),
                 sf_mtime = wall t\<rparr> ss)"

definition unlink_session :: "string \<Rightarrow> sessions \<Rightarrow> bool \<times> sessions" where
  "unlink_session sid ss = (dict_get ss sid \<noteq> None, dict_del sid ss)"

definition revoke_session :: "site \<Rightarrow> string \<Rightarrow> sessions \<Rightarrow> bool \<times> sessions" where
  "revoke_session w token ss = unlink_session (sid_of w token) ss"

definition revoke_session_id :: "string \<Rightarrow> sessions \<Rightarrow> bool \<times> sessions" where
  "revoke_session_id sid ss =
     (if sid = [] \<or> CHR ''/'' \<in> set sid \<or> CHR 0x5C \<in> set sid \<or> CHR ''.'' \<in> set sid then (False, ss)
      else unlink_session sid ss)"

definition names_identity :: "site \<Rightarrow> string \<Rightarrow> session_file \<Rightarrow> bool" where
  "names_identity w identity f =
     (case sf_text f of
        Parsed (JObj d) \<Rightarrow> d \<noteq> [] \<and> rec_str w d ''identity'' = identity
      | _ \<Rightarrow> False)"

definition revoke_identity_sessions :: "site \<Rightarrow> string \<Rightarrow> sessions \<Rightarrow> nat \<times> sessions" where
  "revoke_identity_sessions w identity ss =
     (length (filter (\<lambda>(sid, f). names_identity w identity f) ss),
      filter (\<lambda>(sid, f). \<not> names_identity w identity f) ss)"

definition session_view :: "site \<Rightarrow> string \<Rightarrow> entry \<Rightarrow> login_session" where
  "session_view w sid d =
     \<lparr>ls_sid = sid, ls_identity = rec_str w d ''identity'', ls_created = rec_str w d ''created'',
      ls_expires = rec_str w d ''expires'', ls_last_seen = rec_str w d ''last_seen''\<rparr>"

text \<open>\<open>sorted(..., reverse=True)\<close> keeps the order of equal keys.\<close>

definition list_sessions :: "site \<Rightarrow> tick \<Rightarrow> sessions \<Rightarrow> login_session list" where
  "list_sessions w t ss =
     rev (sort_key ls_created (rev (List.map_filter
       (\<lambda>sid. case read_session ss sid of
                Some d \<Rightarrow>
                  if d = [] then None
                  else (case parse_time w (dict_get d ''expires'') of
                          Some e \<Rightarrow> if e > now t then Some (session_view w sid d) else None
                        | None \<Rightarrow> None)
              | None \<Rightarrow> None)
       (session_files ss))))"

subsection \<open>Counting sessions\<close>

text \<open>The readable sessions, and those that name one account, counted on the directory itself.\<close>

definition readable :: "session_file \<Rightarrow> bool" where
  "readable f = (case sf_text f of Parsed (JObj d) \<Rightarrow> d \<noteq> [] | _ \<Rightarrow> False)"

definition session_count :: "(session_file \<Rightarrow> bool) \<Rightarrow> sessions \<Rightarrow> nat" where
  "session_count P ss = length (filter (\<lambda>(sid, f). P f) ss)"

lemma names_identity_readable: "names_identity w who f \<Longrightarrow> readable f"
  by (auto simp: names_identity_def readable_def split: file_text.splits json.splits)

lemma del_many: "fold (\<lambda>(who, sid, d). dict_del sid) xs ss = filter (\<lambda>(k, v). k \<notin> (fst \<circ> snd) ` set xs) ss"
proof (induction xs arbitrary: ss)
  case (Cons x xs)
  then show ?case
    by (cases x) (auto simp: AList.delete_eq intro!: filter_cong)
qed simp

lemma keys_card:
  "dict_ok ss \<Longrightarrow> session_count P ss = card (fst ` {x \<in> set ss. P (snd x)})"
proof -
  assume ok: "dict_ok ss"
  have "distinct (map fst (filter (\<lambda>(sid, f). P f) ss))"
    using ok by (simp add: dict_ok_def distinct_map_filter)
  from distinct_card [OF this] show ?thesis
    by (simp add: session_count_def case_prod_unfold)
qed

lemma count_after_removal:
  assumes "dict_ok ss" "distinct rs" "set rs \<subseteq> fst ` {x \<in> set ss. P (snd x)}"
  shows "session_count P (filter (\<lambda>(k, v). k \<notin> set rs) ss) + length rs = session_count P ss"
proof -
  let ?K = "fst ` {x \<in> set ss. P (snd x)}"
  have "fst ` {x \<in> set (filter (\<lambda>(k, v). k \<notin> set rs) ss). P (snd x)} = ?K - set rs" by auto
  then have "session_count P (filter (\<lambda>(k, v). k \<notin> set rs) ss) = card (?K - set rs)"
    using assms(1) by (simp add: keys_card)
  also have "\<dots> = card ?K - length rs"
    using assms(2,3) by (simp add: card_Diff_subset distinct_card)
  moreover have "length rs \<le> card ?K"
    using assms(2,3) card_mono [of ?K "set rs"] by (simp add: distinct_card)
  ultimately show ?thesis using assms(1) by (simp add: keys_card)
qed

lemma session_count_filter_le: "session_count P (filter Q ss) \<le> session_count P ss"
  by (induction ss) (auto simp: session_count_def)

lemma read_session_iff:
  "dict_ok ss \<Longrightarrow> read_session ss k = Some d \<longleftrightarrow> (\<exists>f. (k, f) \<in> set ss \<and> sf_text f = Parsed (JObj d))"
  by (auto simp: read_session_def dict_get_in [symmetric] split: option.splits file_text.splits json.splits)

lemma live_mem:
  assumes "dict_ok ss"
  shows "(who, k, d) \<in> set (live_sessions w ss) \<longleftrightarrow>
    (\<exists>f. (k, f) \<in> set ss \<and> sf_text f = Parsed (JObj d) \<and> d \<noteq> [] \<and> who = rec_str w d ''identity'')"
    (is "?l = ?r")
proof -
  let ?f = "\<lambda>sid. case read_session ss sid of
      Some d \<Rightarrow> if d \<noteq> [] then Some (rec_str w d ''identity'', sid, d) else None | None \<Rightarrow> None"
  have f: "?f x = Some (who, k, d) \<longleftrightarrow>
      x = k \<and> read_session ss x = Some d \<and> d \<noteq> [] \<and> who = rec_str w d ''identity''" for x
    by (cases "read_session ss x") auto
  have "?l \<longleftrightarrow> (\<exists>x \<in> fst ` set ss. x = k \<and> read_session ss x = Some d \<and> d \<noteq> [] \<and> who = rec_str w d ''identity'')"
    by (simp only: live_sessions_def in_map_filter session_files_def set_sort set_map f)
  also have "\<dots> \<longleftrightarrow> k \<in> fst ` set ss \<and> read_session ss k = Some d \<and> d \<noteq> [] \<and> who = rec_str w d ''identity''"
    by blast
  also have "\<dots> \<longleftrightarrow> ?r" unfolding read_session_iff [OF assms] by (auto intro: rev_image_eqI)
  finally show ?thesis .
qed

lemma readable_iff: "readable f \<longleftrightarrow> (\<exists>d. sf_text f = Parsed (JObj d) \<and> d \<noteq> [])"
  by (auto simp: readable_def split: file_text.splits json.splits)

lemma names_identity_iff:
  "names_identity w who f \<longleftrightarrow> (\<exists>d. sf_text f = Parsed (JObj d) \<and> d \<noteq> [] \<and> who = rec_str w d ''identity'')"
  by (auto simp: names_identity_def split: file_text.splits json.splits)

lemma live_sids:
  assumes "dict_ok ss"
  shows "distinct (map (fst \<circ> snd) (live_sessions w ss))"
    "(fst \<circ> snd) ` set (live_sessions w ss) = fst ` {x \<in> set ss. readable (snd x)}"
    "(fst \<circ> snd) ` set (filter (\<lambda>(who, sid, d). who = identity) (live_sessions w ss)) =
       fst ` {x \<in> set ss. names_identity w identity (snd x)}"
proof -
  let ?f = "\<lambda>sid. case read_session ss sid of
      Some d \<Rightarrow> if d \<noteq> [] then Some (rec_str w d ''identity'', sid, d) else None | None \<Rightarrow> None"
  have d: "distinct (session_files ss)"
    using assms by (simp add: session_files_def dict_ok_def)
  have "map (fst \<circ> snd) (List.map_filter ?f xs) = filter (\<lambda>x. ?f x \<noteq> None) xs" for xs
  proof (induction xs)
    case (Cons x xs)
    then show ?case by (cases "read_session ss x") (simp_all add: List.map_filter_simps)
  qed (simp add: List.map_filter_simps)
  then show "distinct (map (fst \<circ> snd) (live_sessions w ss))"
    using d by (simp add: live_sessions_def)
  show "(fst \<circ> snd) ` set (live_sessions w ss) = fst ` {x \<in> set ss. readable (snd x)}" (is "?A = ?B")
  proof (intro equalityI subsetI)
    fix k assume "k \<in> ?A"
    then show "k \<in> ?B" by (force simp: live_mem [OF assms] readable_iff)
  next
    fix k assume "k \<in> ?B"
    then obtain f d where "(k, f) \<in> set ss" "sf_text f = Parsed (JObj d)" "d \<noteq> []" by (auto simp: readable_iff)
    then have "(rec_str w d ''identity'', k, d) \<in> set (live_sessions w ss)" using live_mem [OF assms] by blast
    then show "k \<in> ?A" by force
  qed
  show "(fst \<circ> snd) ` set (filter (\<lambda>(who, sid, d). who = identity) (live_sessions w ss)) =
       fst ` {x \<in> set ss. names_identity w identity (snd x)}" (is "?A = ?B")
  proof (intro equalityI subsetI)
    fix k assume "k \<in> ?A"
    then show "k \<in> ?B" by (force simp: live_mem [OF assms] names_identity_iff)
  next
    fix k assume "k \<in> ?B"
    then obtain f d where "(k, f) \<in> set ss" "sf_text f = Parsed (JObj d)" "d \<noteq> []" "identity = rec_str w d ''identity''"
      by (auto simp: names_identity_iff)
    then have "(identity, k, d) \<in> set (live_sessions w ss)" using live_mem [OF assms] by blast
    then show "k \<in> ?A" by force
  qed
qed

lemma evict_facts:
  assumes "dict_ok ss" "distinct (map (fst \<circ> snd) cs)" "(fst \<circ> snd) ` set cs = fst ` {x \<in> set ss. P (snd x)}"
    and "0 < keep" "keep \<le> length cs"
  shows "session_count P (evict w cs keep ss) = keep - 1"
proof -
  define rs where "rs = map (fst \<circ> snd) (take (length cs + 1 - keep) (sort_key (\<lambda>(who, sid, d). rec_str w d ''created'') cs))"
  have e: "evict w cs keep ss = filter (\<lambda>(k, v). k \<notin> set rs) ss"
    by (simp add: evict_def Let_def del_many rs_def)
  have "mset (map (fst \<circ> snd) (sort_key (\<lambda>(who, sid, d). rec_str w d ''created'') cs)) = mset (map (fst \<circ> snd) cs)"
    by simp
  then have "distinct (map (fst \<circ> snd) (sort_key (\<lambda>(who, sid, d). rec_str w d ''created'') cs))"
    using assms(2) by (metis mset_eq_imp_distinct_iff)
  then have d: "distinct rs" by (simp add: rs_def take_map [symmetric])
  have "set rs \<subseteq> (fst \<circ> snd) ` set cs"
    using set_take_subset by (fastforce simp: rs_def)
  then have sub: "set rs \<subseteq> fst ` {x \<in> set ss. P (snd x)}" using assms(3) by simp
  have "length cs = session_count P ss"
    using assms(1,2,3) distinct_card [OF assms(2)] by (simp add: keys_card)
  moreover have "length rs = length cs + 1 - keep" using assms(4) by (simp add: rs_def)
  ultimately show ?thesis
    using count_after_removal [OF assms(1) d sub] assms(4,5) by (simp add: e)
qed

lemma evict_filter: "\<exists>Q. \<forall>ss. evict w cs keep ss = filter Q ss"
  by (auto simp: evict_def Let_def del_many)

lemma live_lengths:
  assumes "dict_ok ss"
  shows "length (live_sessions w ss) = session_count readable ss"
    "length (filter (\<lambda>(who, sid, d). who = identity) (live_sessions w ss)) = session_count (names_identity w identity) ss"
    "distinct (map (fst \<circ> snd) (filter (\<lambda>(who, sid, d). who = identity) (live_sessions w ss)))"
proof -
  note d = live_sids(1) [OF assms, of w]
  then show f: "distinct (map (fst \<circ> snd) (filter (\<lambda>(who, sid, d). who = identity) (live_sessions w ss)))"
    by (simp add: distinct_map_filter)
  from distinct_card [OF d] show "length (live_sessions w ss) = session_count readable ss"
    by (simp add: keys_card [OF assms] live_sids(2) [OF assms, unfolded comp_def] comp_def)
  from distinct_card [OF f] show "length (filter (\<lambda>(who, sid, d). who = identity) (live_sessions w ss)) =
      session_count (names_identity w identity) ss"
    using live_sids(3) [OF assms, of identity w] by (simp only: keys_card [OF assms] set_map length_map)
qed

lemma enforce_session_caps_filter: "\<exists>Q. enforce_session_caps w who ss = filter Q ss"
proof -
  let ?live = "live_sessions w ss"
  let ?mine = "filter (\<lambda>(who', sid, d). who' = who) ?live"
  let ?per = "int_env w ''FRAGO_MAX_SESSIONS_PER_USER'' DEFAULT_SESSIONS_PER_USER"
  let ?tot = "int_env w ''FRAGO_MAX_SESSIONS'' DEFAULT_TOTAL_SESSIONS"
  obtain Q1 where Q1: "\<And>xs. evict w ?mine ?per xs = filter Q1 xs" using evict_filter by blast
  obtain Q2 where Q2: "\<And>xs. evict w ?live ?tot xs = filter Q2 xs" using evict_filter by blast
  show ?thesis
    by (rule exI [of _ "\<lambda>x. (length ?mine \<ge> ?per \<longrightarrow> Q1 x) \<and> (length ?live \<ge> ?tot \<longrightarrow> Q2 x)"])
      (simp add: enforce_session_caps_def Let_def Q1 Q2 conj_commute)
qed

lemma enforce_session_caps_Nil [simp]: "enforce_session_caps w who [] = []"
  using enforce_session_caps_filter [of w who "[]"] by auto

lemma caps_enforced:
  assumes "dict_ok ss"
  shows "session_count (names_identity w who) (enforce_session_caps w who ss)
      < int_env w ''FRAGO_MAX_SESSIONS_PER_USER'' DEFAULT_SESSIONS_PER_USER" (is "_ < ?per")
    and "session_count readable (enforce_session_caps w who ss)
      < int_env w ''FRAGO_MAX_SESSIONS'' DEFAULT_TOTAL_SESSIONS" (is "_ < ?tot")
proof -
  let ?live = "live_sessions w ss"
  let ?mine = "filter (\<lambda>(who', sid, d). who' = who) ?live"
  define ss1 where "ss1 = (if length ?mine \<ge> ?per then evict w ?mine ?per ss else ss)"
  have pos: "0 < ?per" "0 < ?tot"
    by (simp_all add: int_env_pos DEFAULT_SESSIONS_PER_USER_def DEFAULT_TOTAL_SESSIONS_def)
  have e: "enforce_session_caps w who ss = (if length ?live \<ge> ?tot then evict w ?live ?tot ss1 else ss1)"
    by (simp add: enforce_session_caps_def Let_def ss1_def)
  obtain Q1 where Q1: "\<And>xs. evict w ?mine ?per xs = filter Q1 xs" using evict_filter by blast
  define Q where "Q = (\<lambda>x. length ?mine \<ge> ?per \<longrightarrow> Q1 x)"
  have Q: "ss1 = filter Q ss" by (simp add: ss1_def Q1 Q_def)
  obtain R where R: "\<forall>xs. evict w ?live ?tot xs = filter R xs" using evict_filter by blast
  have "session_count (names_identity w who) ss1 < ?per"
    using evict_facts [OF assms live_lengths(3) [OF assms] live_sids(3) [OF assms] pos(1)] pos
      live_lengths(2) [OF assms, of who w]
    by (auto simp: ss1_def not_le)
  then show "session_count (names_identity w who) (enforce_session_caps w who ss) < ?per"
    using session_count_filter_le [of "names_identity w who" R ss1] R e by (auto intro: le_less_trans)
  show "session_count readable (enforce_session_caps w who ss) < ?tot"
  proof (cases "length ?live \<ge> ?tot")
    case True
    have "evict w ?live ?tot ss1 = filter Q (evict w ?live ?tot ss)"
      by (simp add: R Q conj_commute)
    then have "enforce_session_caps w who ss = filter Q (evict w ?live ?tot ss)" using True e by simp
    moreover have "session_count readable (evict w ?live ?tot ss) < ?tot"
      using evict_facts [OF assms live_sids(1,2) [OF assms] pos(2) True] pos(2) by simp
    ultimately show ?thesis
      using session_count_filter_le [of readable Q "evict w ?live ?tot ss"] by simp
  next
    case False
    then show ?thesis
      using session_count_filter_le [of readable Q ss] live_lengths(1) [OF assms, of w] Q e by simp
  qed
qed

lemma link_session_Inr:
  assumes "link_session w t d tokens ss = (Inr token, ss')"
  shows "token \<in> set tokens" "dict_get ss (sid_of w token) = None"
    "ss' = dict_set (sid_of w token) \<lparr>sf_text = Parsed (JObj d), sf_mtime = wall t\<rparr> ss"
  using assms by (induction tokens) (auto split: if_splits)

lemma session_count_set_new:
  "dict_get ss k = None \<Longrightarrow> session_count P (dict_set k f ss) = session_count P ss + (if P f then 1 else 0)"
  by (induction ss) (auto simp: session_count_def)

lemma create_session_parts:
  assumes "create_session w t who ss = (Inr token, ss')"
  obtains ss2 where "ss2 = enforce_session_caps w who (snd (purge_expired_sessions w t ss))"
    "dict_get ss2 (sid_of w token) = None" "token \<in> set (new_tokens t)"
    "ss' = dict_set (sid_of w token) \<lparr>sf_text = Parsed (JObj (session_record w t who)), sf_mtime = wall t\<rparr> ss2"
proof -
  have "link_session w t (session_record w t who) (take 4 (new_tokens t))
      (enforce_session_caps w who (snd (purge_expired_sessions w t ss))) = (Inr token, ss')"
    using assms by (simp add: create_session_def Let_def)
  from link_session_Inr [OF this] show ?thesis
    using that by (blast dest: in_set_takeD)
qed

lemma session_record_fields [simp]:
  "rec_str w (session_record w t who) ''identity'' = who"
  "dict_get (session_record w t who) ''expires'' = Some (JStr (isoformat w (now t + int (session_ttl w))))"
  by (simp_all add: session_record_def rec_str_def py_str_def)

lemma purge_ok [simp]: "dict_ok ss \<Longrightarrow> dict_ok (snd (purge_expired_sessions w t ss))"
  by (simp add: purge_expired_sessions_def)

lemma caps_ok [simp]: "dict_ok ss \<Longrightarrow> dict_ok (enforce_session_caps w who ss)"
  using enforce_session_caps_filter by (metis dict_ok_filter)

lemma create_session_ok: "dict_ok ss \<Longrightarrow> dict_ok (snd (create_session w t who ss))"
proof -
  have "dict_ok xs \<Longrightarrow> dict_ok (snd (link_session w t d tokens xs))" for d tokens xs
    by (induction tokens) auto
  then show "dict_ok ss \<Longrightarrow> dict_ok (snd (create_session w t who ss))"
    by (simp add: create_session_def Let_def)
qed

lemma session_quotas_facts:
  assumes "dict_ok ss" and "create_session w t who ss = (Inr token, ss')"
  shows "session_count (names_identity w who) ss'
           \<le> int_env w ''FRAGO_MAX_SESSIONS_PER_USER'' DEFAULT_SESSIONS_PER_USER
    \<and> session_count readable ss' \<le> int_env w ''FRAGO_MAX_SESSIONS'' DEFAULT_TOTAL_SESSIONS
    \<and> read_session ss' (sid_of w token) = Some (session_record w t who)"
proof -
  obtain ss2 where ss2: "ss2 = enforce_session_caps w who (snd (purge_expired_sessions w t ss))"
    "dict_get ss2 (sid_of w token) = None"
    "ss' = dict_set (sid_of w token) \<lparr>sf_text = Parsed (JObj (session_record w t who)), sf_mtime = wall t\<rparr> ss2"
    using create_session_parts [OF assms(2)] by metis
  have "session_count (names_identity w who) ss2
      < int_env w ''FRAGO_MAX_SESSIONS_PER_USER'' DEFAULT_SESSIONS_PER_USER"
    "session_count readable ss2 < int_env w ''FRAGO_MAX_SESSIONS'' DEFAULT_TOTAL_SESSIONS"
    unfolding ss2(1) using assms(1) by (simp_all add: caps_enforced)
  then show ?thesis
    using ss2(2) by (simp add: ss2(3) session_count_set_new read_session_def)
qed

lemma read_after_revoke:
  assumes "dict_ok ss"
  shows "read_session (snd (revoke_identity_sessions w who ss)) sid =
      (case read_session ss sid of
         Some d \<Rightarrow> if d \<noteq> [] \<and> rec_str w d ''identity'' = who then None else Some d
       | None \<Rightarrow> None)"
proof -
  have "dict_get (filter (\<lambda>(sid, f). \<not> names_identity w who f) ss) sid =
      (case dict_get ss sid of Some f \<Rightarrow> if names_identity w who f then None else Some f | None \<Rightarrow> None)"
    by (auto simp: dict_get_filter [OF assms] split: option.split)
  then show "read_session (snd (revoke_identity_sessions w who ss)) sid =
        (case read_session ss sid of
           Some d \<Rightarrow> if d \<noteq> [] \<and> rec_str w d ''identity'' = who then None else Some d
         | None \<Rightarrow> None)"
    by (auto simp: revoke_identity_sessions_def read_session_def names_identity_def
        split: option.splits file_text.splits json.splits)
qed

subsection \<open>Properties\<close>

text \<open>the session quotas hold after every login. Once a session has been issued, at most
  \<open>FRAGO_MAX_SESSIONS_PER_USER\<close> sessions name that account and at most \<open>FRAGO_MAX_SESSIONS\<close> sessions exist
  in all, whatever was in the directory before; the new one is among them.\<close>

theorem session_quotas:
  assumes "dict_ok ss" and "create_session w t who ss = (Inr token, ss')"
  shows "session_count (names_identity w who) ss'
           \<le> int_env w ''FRAGO_MAX_SESSIONS_PER_USER'' DEFAULT_SESSIONS_PER_USER
    \<and> session_count readable ss' \<le> int_env w ''FRAGO_MAX_SESSIONS'' DEFAULT_TOTAL_SESSIONS
    \<and> read_session ss' (sid_of w token) = Some (session_record w t who)"
  using assms by (rule session_quotas_facts)

text \<open>A deployment on one machine, no switch set, with readable stand-ins for the library functions.\<close>

definition demo_site :: site where
  "demo_site =
     \<lparr>st_os = \<lparr>environ = [], home_dir = [''/'', ''home'', ''ada''], expanduser = id\<rparr>, st_crypto = demo_crypto,
      isoformat = (\<lambda>n. dec (nat n)), fromisoformat = py_int, str_json = (\<lambda>_. ''?''),
      query_params = (\<lambda>q. if q = [] then [] else map (partition_on CHR ''='') (split_on CHR ''&'' q)),
      unquote_plus = id,
      ip_parse = (\<lambda>s. if s = ''127.0.0.1'' then Some (V4 (127 * 2 ^ 24 + 1))
                       else if s = ''203.0.113.9'' then Some (V4 (203 * 2 ^ 24 + 113 * 2 ^ 8 + 9)) else None),
      ip_private = (\<lambda>_. False), dockerenv = False, containerenv = False, cgroup = None\<rparr>"

definition demo_tick :: tick where
  "demo_tick = \<lparr>now = 1000, wall = 1000, mono = 50, new_stat = (1000, 7), new_salt = ''salt'',
     new_tokens = [''tok-1'', ''tok-2'', ''tok-3'', ''tok-4'']\<rparr>"

theorem session_quotas_witness:
  "\<exists>token ss'. create_session demo_site demo_tick ''ada'' [] = (Inr token, ss')
    \<and> session_count (names_identity demo_site ''ada'') ss'
        \<le> int_env demo_site ''FRAGO_MAX_SESSIONS_PER_USER'' DEFAULT_SESSIONS_PER_USER
    \<and> read_session ss' (sid_of demo_site token) = Some (session_record demo_site demo_tick ''ada'')"
proof -
  have "\<exists>token ss'. create_session demo_site demo_tick ''ada'' [] = (Inr token, ss')"
    by (simp add: create_session_def Let_def purge_expired_sessions_def demo_tick_def)
  then show ?thesis using session_quotas [of "[]" demo_site demo_tick "''ada''"] by auto
qed

text \<open>Logging one cookie out ends exactly that session, and logging an account out everywhere ends
  exactly its sessions: the records that remain readable are the others, unchanged, and none of them
  names the account.\<close>

lemma revocation_exact:
  assumes "dict_ok ss"
  shows "read_session (snd (revoke_session w token ss)) sid =
      (if sid = sid_of w token then None else read_session ss sid)
    \<and> read_session (snd (revoke_identity_sessions w who ss)) sid =
        (case read_session ss sid of
           Some d \<Rightarrow> if d \<noteq> [] \<and> rec_str w d ''identity'' = who then None else Some d
         | None \<Rightarrow> None)
    \<and> fst (revoke_identity_sessions w who ss) = session_count (names_identity w who) ss
    \<and> session_count (names_identity w who) (snd (revoke_identity_sessions w who ss)) = 0"
  using read_after_revoke [OF assms, of w who sid]
  by (auto simp: revoke_session_def unlink_session_def read_session_def revoke_identity_sessions_def
      session_count_def filter_empty_conv)

end
