(* ===== verification/App_State.thy ===== *)
theory App_State
  imports Invocation
begin

text \<open>
  \<open>recipes/app_state.py\<close>: the slots in which a recipe publishes the state of its page. There are
  two roots, one for the recipe's own slots and one for signed-in people; this theory holds the
  name check, the addresses, \<open>publish\<close> and \<open>read\<close>.
\<close>

definition DEFAULT_SLOT :: string where "DEFAULT_SLOT = ''default''"

definition APP_STATE_DIR :: "os_env \<Rightarrow> path" where
  "APP_STATE_DIR os = home_dir os @ [''.frago'', ''app-state'']"

definition USER_STATE_DIR :: "os_env \<Rightarrow> path" where
  "USER_STATE_DIR os = home_dir os @ [''.frago'', ''users'']"

definition safe_name_char :: "char \<Rightarrow> bool" where
  "safe_name_char c = (let n = (of_char c :: nat) in
     65 \<le> n \<and> n \<le> 90 \<or> 97 \<le> n \<and> n \<le> 122 \<or> 48 \<le> n \<and> n \<le> 57
     \<or> c = CHR ''.'' \<or> c = CHR ''_'' \<or> c = CHR ''-'')"

definition SAFE_NAME :: "string \<Rightarrow> bool" where
  "SAFE_NAME s = match_class_plus safe_name_char s"

datatype slot_error = InvalidSlotName string string | BadContext invalid_context

definition valid_value :: "string \<Rightarrow> bool" where
  "valid_value v = (v \<noteq> [] \<and> SAFE_NAME v \<and> v \<noteq> ''.'' \<and> v \<noteq> ''..'')"

definition validate_names :: "string \<Rightarrow> string \<Rightarrow> slot_error + unit" where
  "validate_names recipe_name slot =
     (if \<not> valid_value recipe_name then Inl (InvalidSlotName ''recipe name'' recipe_name)
      else if \<not> valid_value slot then Inl (InvalidSlotName ''slot'' slot)
      else Inr ())"

definition user_state_dir :: "os_env \<Rightarrow> path" where
  "user_state_dir os = env_path os ''FRAGO_USER_STATE_DIR'' (USER_STATE_DIR os)"

definition state_root :: "os_env \<Rightarrow> bool \<Rightarrow> path" where
  "state_root os identity = (if identity then user_state_dir os else APP_STATE_DIR os)"

definition user_root :: "os_env \<Rightarrow> string \<Rightarrow> slot_error + path" where
  "user_root os account_id =
     bindE (validate_names DEFAULT_SLOT account_id) (\<lambda>_. Inr (path_join (user_state_dir os) account_id))"

definition user_data_dir :: "os_env \<Rightarrow> string \<Rightarrow> string \<Rightarrow> slot_error + path" where
  "user_data_dir os account_id recipe_name =
     bindE (validate_names recipe_name account_id) (\<lambda>_.
     bindE (user_root os account_id) (\<lambda>r. Inr (path_join (r @ [''data'']) recipe_name)))"

definition slot_path :: "os_env \<Rightarrow> string \<Rightarrow> string \<Rightarrow> bool \<Rightarrow> slot_error + path" where
  "slot_path os recipe_name slot identity =
     bindE (validate_names recipe_name slot) (\<lambda>_.
       if identity
       then bindE (user_root os slot) (\<lambda>r. Inr (path_join (r @ [''state'']) (recipe_name @ ''.json'')))
       else Inr (path_join (path_join (APP_STATE_DIR os) recipe_name) (slot @ ''.json'')))"

text \<open>\<open>path.with_suffix(".tmp")\<close> on a name that ends in \<open>.json\<close>.\<close>

definition tmp_name :: "string \<Rightarrow> string" where
  "tmp_name n = take (length n - 5) n @ ''.tmp''"

definition publish_slot ::
    "os_env \<Rightarrow> string \<Rightarrow> (string, json) dict \<Rightarrow> string \<Rightarrow> bool \<Rightarrow> file_sys \<Rightarrow>
     slot_error + path \<times> file_sys" where
  "publish_slot os recipe_name state slot identity fs =
     (case current_ctx (expanduser os) (environ os) of
        Inl e \<Rightarrow> Inl (BadContext e)
      | Inr ctx \<Rightarrow>
          (let visitor = is_visitor_ctx ctx;
               slot' = (if visitor then (case ic_slot ctx of Some s \<Rightarrow> s | None \<Rightarrow> []) else slot);
               identity' = (visitor \<or> identity);
               state' = (if visitor
                         then dict_set ''dataDir''
                                (JStr (case ic_data_dir ctx of Some d \<Rightarrow> path_str d | None \<Rightarrow> ''None'')) state
                         else state)
           in bindE (slot_path os recipe_name slot' identity') (\<lambda>p.
                let fs1 = mkdir_parents (butlast p) fs;
                    fs2 = fold (chmod_dir 448)
                            [state_root os identity', butlast (butlast p), butlast p] fs1;
                    tmp = butlast p @ [tmp_name (last p)];
                    fs3 = write_file 384 tmp (Parsed (JObj state')) fs2;
                    fs4 = write_file 384 p (Parsed (JObj state')) (remove_file tmp fs3)
                in Inr (p, fs4))))"

definition read_slot ::
    "os_env \<Rightarrow> file_sys \<Rightarrow> string \<Rightarrow> string \<Rightarrow> bool \<Rightarrow> slot_error + (string, json) dict" where
  "read_slot os fs recipe_name slot identity =
     bindE (slot_path os recipe_name slot identity) (\<lambda>p.
       Inr (case dict_get (fs_files fs) p of
              None \<Rightarrow> []
            | Some f \<Rightarrow> (case f_text f of
                  Parsed (JObj d) \<Rightarrow> d
                | _ \<Rightarrow> [])))"

definition page_url :: "string \<Rightarrow> string \<Rightarrow> nat \<Rightarrow> slot_error + string" where
  "page_url recipe_name slot port =
     bindE (validate_names recipe_name slot) (\<lambda>_.
       let base = ''http://localhost:'' @ dec port @ ''/app/'' @ recipe_name
       in Inr (if slot = DEFAULT_SLOT then base else base @ ''?key='' @ slot))"

subsection \<open>Names that pass the check are single, harmless components\<close>

definition harmless :: "string \<Rightarrow> bool" where
  "harmless c \<longleftrightarrow> c \<noteq> [] \<and> c \<noteq> ''.'' \<and> c \<noteq> ''..'' \<and> CHR ''/'' \<notin> set c"

lemma SAFE_NAME_chars: "SAFE_NAME s \<Longrightarrow> c \<in> set s \<Longrightarrow> safe_name_char c \<or> c = newline"
proof -
  assume s: "SAFE_NAME s" and c: "c \<in> set s"
  have "list_all safe_name_char (chomp_nl s)"
    using s by (simp add: SAFE_NAME_def match_class_plus_def Let_def)
  moreover have "c \<in> set (chomp_nl s) \<or> c = newline"
  proof (cases "s \<noteq> [] \<and> last s = newline")
    case True
    then have "s = butlast s @ [newline]" by (metis append_butlast_last_id)
    then have "set s = set (butlast s) \<union> {newline}" by (metis list.set(1,2) set_append)
    then show ?thesis using c True by (auto simp: chomp_nl_def)
  qed (use c in \<open>auto simp: chomp_nl_def\<close>)
  ultimately show ?thesis by (auto simp: list_all_iff)
qed

lemma SAFE_NAME_no_slash: "SAFE_NAME s \<Longrightarrow> CHR ''/'' \<notin> set s"
proof
  assume s: "SAFE_NAME s" and m: "CHR ''/'' \<in> set s"
  have "\<not> safe_name_char CHR ''/''" "CHR ''/'' \<noteq> newline" by (code_simp, code_simp)
  with SAFE_NAME_chars [OF s m] show False by blast
qed

lemma valid_value_harmless: "valid_value v \<Longrightarrow> harmless v"
  by (simp add: valid_value_def harmless_def SAFE_NAME_no_slash)

lemma harmless_one_component: "harmless v \<Longrightarrow> one_component v"
  by (simp add: harmless_def one_component_def)

lemma harmless_json: "CHR ''/'' \<notin> set v \<Longrightarrow> harmless (v @ ''.json'')"
  by (cases v) (auto simp: harmless_def)

lemma validate_names_Inr:
  "validate_names r s = Inr u \<longleftrightarrow> valid_value r \<and> valid_value s"
  by (simp add: validate_names_def)

lemma valid_default: "valid_value DEFAULT_SLOT"
  by code_simp

lemma user_root_Inr: "user_root os a = Inr p \<longleftrightarrow> valid_value a \<and> p = user_state_dir os @ [a]"
  by (auto simp: user_root_def bindE_eq_Inr validate_names_Inr valid_default
      path_join_one_component valid_value_harmless harmless_one_component)

lemma slot_path_Inr:
  "slot_path os r s i = Inr p \<longleftrightarrow>
     valid_value r \<and> valid_value s \<and>
     p = (if i then user_state_dir os @ [s, ''state'', r @ ''.json'']
          else APP_STATE_DIR os @ [r, s @ ''.json''])"
  (is "?L = ?R")
proof -
  have j: "path_join q (v @ ''.json'') = q @ [v @ ''.json'']" if "valid_value v" for q v
    using that by (intro path_join_one_component harmless_one_component harmless_json)
      (simp add: valid_value_harmless [unfolded harmless_def])
  have k: "path_join q v = q @ [v]" if "valid_value v" for q v
    using that by (intro path_join_one_component harmless_one_component valid_value_harmless)
  show ?thesis
    by (auto simp: slot_path_def bindE_eq_Inr validate_names_Inr user_root_Inr j k)
qed

lemma user_data_dir_Inr:
  "user_data_dir os a r = Inr p \<longleftrightarrow>
     valid_value r \<and> valid_value a \<and> p = user_state_dir os @ [a, ''data'', r]"
  by (auto simp: user_data_dir_def bindE_eq_Inr validate_names_Inr user_root_Inr
      path_join_one_component valid_value_harmless harmless_one_component)

lemma slot_path_total: "valid_value r \<Longrightarrow> valid_value s \<Longrightarrow> \<exists>p. slot_path os r s i = Inr p"
  by (simp add: slot_path_Inr)

subsection \<open>Publishing and reading back\<close>

lemma publish_slot_Inr:
  assumes "publish_slot os r st s i fs = Inr (p, fs')"
  obtains ctx where "current_ctx (expanduser os) (environ os) = Inr ctx"
    "slot_path os r (if is_visitor_ctx ctx then (case ic_slot ctx of Some s \<Rightarrow> s | None \<Rightarrow> []) else s)
       (is_visitor_ctx ctx \<or> i) = Inr p"
    "dict_get (fs_files fs') p = Some \<lparr>f_mode = 384, f_text = Parsed (JObj
       (if is_visitor_ctx ctx
        then dict_set ''dataDir'' (JStr (case ic_data_dir ctx of Some d \<Rightarrow> path_str d | None \<Rightarrow> ''None'')) st
        else st))\<rparr>"
  using assms that
  by (auto simp: publish_slot_def bindE_eq_Inr Let_def split: sum.splits)

lemma slot_path_last_json:
  "slot_path os r s i = Inr p \<Longrightarrow> p \<noteq> [] \<and> (\<exists>v. last p = v @ ''.json'')"
  by (auto simp: slot_path_Inr)

lemma tmp_name_not_json: "tmp_name n \<noteq> v @ ''.json''"
proof
  assume "tmp_name n = v @ ''.json''"
  then have "last (tmp_name n) = last (v @ ''.json'')" by simp
  then show False by (simp add: tmp_name_def)
qed

lemma chmod_three:
  "d \<in> {a, b, c} \<Longrightarrow> is_dir fs d \<Longrightarrow>
   dict_get (fs_dirs (fold (chmod_dir 448) [a, b, c] fs)) d = Some 448"
  by (auto simp: chmod_dir_get)

lemma publish_slot_frame:
  assumes "publish_slot os r st s i fs = Inr (p, fs')" "slot_path os r' s' i' = Inr q" "q \<noteq> p"
  shows "dict_get (fs_files fs') q = dict_get (fs_files fs) q"
proof -
  obtain v where v: "last q = v @ ''.json''" and q: "q \<noteq> []"
    using slot_path_last_json [OF assms(2)] by blast
  have "q \<noteq> butlast p @ [tmp_name (last p)]"
    using v tmp_name_not_json by (metis last_snoc)
  then show ?thesis
    using assms(1,3) by (auto simp: publish_slot_def bindE_eq_Inr Let_def split: sum.splits)
qed

lemma publish_slot_dirs:
  assumes "publish_slot os r st s i fs = Inr (p, fs')" "d \<noteq> []"
    "d = butlast p \<or> d = butlast (butlast p)"
  shows "dict_get (fs_dirs fs') d = Some 448"
proof -
  have "prefix d (butlast p)"
    using assms(3) by (auto simp: prefixeq_butlast)
  then have "is_dir (mkdir_parents (butlast p) fs) d"
    using assms(2) by (rule is_dir_mkdir_parents [rotated])
  then have "dict_get (fs_dirs (fold (chmod_dir 448) [x, butlast (butlast p), butlast p]
      (mkdir_parents (butlast p) fs))) d = Some 448" for x
    using assms(3) by (intro chmod_three) auto
  then show ?thesis
    using assms(1) by (auto simp: publish_slot_def bindE_eq_Inr Let_def split: sum.splits)
qed

subsection \<open>Properties\<close>

text \<open>a slot address never leaves its root. When \<open>slot_path\<close> answers, the address is the root
  followed by components that are non-empty, contain no separator and are neither \<open>.\<close> nor \<open>..\<close>.\<close>

theorem slot_path_confined:
  assumes "slot_path os r s i = Inr p"
  shows "\<exists>cs. p = state_root os i @ cs \<and> cs \<noteq> [] \<and> list_all harmless cs"
proof -
  have v: "valid_value r" "valid_value s"
    and p: "p = (if i then user_state_dir os @ [s, ''state'', r @ ''.json'']
      else APP_STATE_DIR os @ [r, s @ ''.json''])"
    using assms by (simp_all add: slot_path_Inr)
  have h: "harmless r" "harmless s"
    using v by (simp_all add: valid_value_harmless)
  then have "harmless (r @ ''.json'')" "harmless (s @ ''.json'')"
    by (auto intro: harmless_json simp: harmless_def)
  moreover have "harmless ''state''" by (simp add: harmless_def)
  ultimately show ?thesis
    using p h by (cases i) (auto simp: state_root_def)
qed

definition demo_os :: os_env where
  "demo_os = \<lparr>environ = [], home_dir = [''/'', ''home'', ''me''], expanduser = (\<lambda>p. p)\<rparr>"

theorem slot_path_confined_witness:
  "\<exists>cs. [''/'', ''home'', ''me'', ''.frago'', ''users'', ''acme'', ''state'', ''dash.json''] =
     state_root demo_os True @ cs \<and> cs \<noteq> [] \<and> list_all harmless cs"
proof -
  have "slot_path demo_os ''dash'' ''acme'' True =
      Inr [''/'', ''home'', ''me'', ''.frago'', ''users'', ''acme'', ''state'', ''dash.json'']"
    by code_simp
  then show ?thesis by (rule slot_path_confined)
qed

text \<open>two different slots are two different files. If neither root lies inside the other (as with
  the default roots), the address determines the recipe, the slot and whose slot it is; in particular
  a recipe writing any slot of its own never lands on a person's file.\<close>

theorem slot_path_injective:
  assumes "slot_path os r s i = Inr p" "slot_path os r' s' i' = Inr p"
    and "\<not> prefix (user_state_dir os) (APP_STATE_DIR os)"
    and "\<not> prefix (APP_STATE_DIR os) (user_state_dir os)"
  shows "r = r' \<and> s = s' \<and> i = i'"
proof -
  have same: False if "user_state_dir os @ xs = APP_STATE_DIR os @ ys" for xs ys
    using that assms(3,4) by (metis append_eq_append_conv2 prefixI)
  show ?thesis
  proof (cases "i = i'")
    case True
    with assms(1,2) show ?thesis by (auto simp: slot_path_Inr split: if_splits)
  next
    case False
    with assms(1,2) have False
      using same [of "[_, _, _]" "[_, _]"] by (cases i) (simp_all add: slot_path_Inr, metis+)
    then show ?thesis ..
  qed
qed

theorem slot_path_injective_witness:
  "slot_path demo_os ''dash'' ''acme'' True \<noteq> slot_path demo_os ''state'' ''dash'' False"
proof
  have a: "slot_path demo_os ''dash'' ''acme'' True =
      Inr [''/'', ''home'', ''me'', ''.frago'', ''users'', ''acme'', ''state'', ''dash.json'']"
    by code_simp
  have n: "\<not> prefix (user_state_dir demo_os) (APP_STATE_DIR demo_os)"
    "\<not> prefix (APP_STATE_DIR demo_os) (user_state_dir demo_os)"
    by (code_simp, code_simp)
  assume "slot_path demo_os ''dash'' ''acme'' True = slot_path demo_os ''state'' ''dash'' False"
  then show False
    using slot_path_injective [OF a _ n, of "''state''" "''dash''" False] a by simp
qed



text \<open>C38: on a visitor run the recipe has no say. Whatever slot, root and \<open>dataDir\<close> the recipe passes,
  the write lands in the slot of the account the run is for, and the published \<open>dataDir\<close> is the one
  the platform chose.\<close>

theorem visitor_publish_forced:
  assumes "current_ctx (expanduser os) (environ os) = Inr ctx" "is_visitor_ctx ctx"
    and "publish_slot os r st s i fs = Inr (p, fs')"
  shows "\<exists>acct d. ic_slot ctx = Some acct \<and> ic_data_dir ctx = Some d
    \<and> p = user_state_dir os @ [acct, ''state'', r @ ''.json'']
    \<and> read_slot os fs' r acct True = Inr (dict_set ''dataDir'' (JStr (path_str d)) st)"
proof -
  obtain acct d where c: "ic_slot ctx = Some acct" "ic_data_dir ctx = Some d"
    using assms(1,2) by (auto simp: current_ctx_def Let_def is_visitor_ctx_def OWNER_CONTEXT_def split: if_splits)
  have f: "slot_path os r acct True = Inr p"
    "dict_get (fs_files fs') p =
       Some \<lparr>f_mode = 384, f_text = Parsed (JObj (dict_set ''dataDir'' (JStr (path_str d)) st))\<rparr>"
    using publish_slot_Inr [OF assms(3)] assms(1,2) c by auto
  then have "read_slot os fs' r acct True = Inr (dict_set ''dataDir'' (JStr (path_str d)) st)"
    by (simp add: read_slot_def)
  moreover have "p = user_state_dir os @ [acct, ''state'', r @ ''.json'']"
    using f(1) by (simp add: slot_path_Inr)
  ultimately show ?thesis using c by blast
qed

definition demo_visitor_os :: os_env where
  "demo_visitor_os = demo_os\<lparr>environ :=
     [(''FRAGO_RECIPE_CALLER'', ''visitor''), (''FRAGO_RECIPE_SLOT'', ''a1b2''),
      (''FRAGO_RECIPE_DATA_DIR'', ''/home/me/.frago/users/a1b2/data/dash'')]\<rparr>"

definition demo_visitor_ctx :: invocation_context where
  "demo_visitor_ctx = \<lparr>ic_caller = VISITOR, ic_slot = Some ''a1b2'',
     ic_data_dir = Some [''/'', ''home'', ''me'', ''.frago'', ''users'', ''a1b2'', ''data'', ''dash'']\<rparr>"

theorem visitor_publish_forced_witness:
  "\<exists>p fs'. publish_slot demo_visitor_os ''dash'' [(''dataDir'', JStr ''/home/me/secret'')] ''default'' False
      \<lparr>fs_files = [], fs_dirs = []\<rparr> = Inr (p, fs')
    \<and> (\<exists>acct d. ic_slot demo_visitor_ctx = Some acct \<and> ic_data_dir demo_visitor_ctx = Some d
      \<and> p = user_state_dir demo_visitor_os @ [acct, ''state'', ''dash.json'']
      \<and> read_slot demo_visitor_os fs' ''dash'' acct True =
          Inr (dict_set ''dataDir'' (JStr (path_str d)) [(''dataDir'', JStr ''/home/me/secret'')]))"
proof -
  have c: "current_ctx (expanduser demo_visitor_os) (environ demo_visitor_os) = Inr demo_visitor_ctx"
    by code_simp
  have v: "is_visitor_ctx demo_visitor_ctx" by code_simp
  have s: "valid_value ''dash''" "valid_value ''a1b2''"
    by (code_simp, code_simp)
  have "\<exists>p fs'. publish_slot demo_visitor_os ''dash'' [(''dataDir'', JStr ''/home/me/secret'')] ''default''
      False \<lparr>fs_files = [], fs_dirs = []\<rparr> = Inr (p, fs')"
    using s by (simp add: publish_slot_def c v Let_def bindE_eq_Inr slot_path_Inr) (simp add: demo_visitor_ctx_def)
  then show ?thesis using visitor_publish_forced [OF c v] by fastforce
qed

end
