(* ===== verification/Accounts.thy ===== *)
theory Accounts
  imports Login_Sessions App_State
begin

text \<open>
  The account table of \<open>server/identity.py\<close> and what hangs on it: reading it through a cache, creating
  accounts under two quotas, signing in, suspending, changing a password, and resolving a cookie to an
  account. A call runs at one instant; a change of the table happens under the lock, so calls do not
  interleave.
\<close>

record id_state =
  users_file :: stamped_file
  users_cache :: "(path \<times> stamp \<times> entries) option"
  sess :: sessions
  lims :: limiters
  id_fs :: file_sys

record user =
  u_id :: string
  u_email :: string
  u_disabled :: bool
  u_created :: string

type_synonym 'a id_result = "(id_error + 'a) \<times> id_state"

definition DEFAULT_TOTAL_CAP :: nat where "DEFAULT_TOTAL_CAP = 500"
definition DEFAULT_UNUSED_CAP :: nat where "DEFAULT_UNUSED_CAP = 200"

definition users_path :: "site \<Rightarrow> path" where
  "users_path w = env_path (st_os w) ''FRAGO_USERS_FILE'' (home_dir (st_os w) @ [''.frago'', ''users.json''])"

definition id_user_state_dir :: "site \<Rightarrow> path" where
  "id_user_state_dir w = env_path (st_os w) ''FRAGO_USER_STATE_DIR'' (home_dir (st_os w) @ [''.frago'', ''users''])"

subsection \<open>The table\<close>

definition read_users_file :: "stamped_file \<Rightarrow> entries" where
  "read_users_file f = (case f of Some (st, Parsed (JObj d)) \<Rightarrow> dict_entries d | _ \<Rightarrow> [])"

definition load_users ::
    "site \<Rightarrow> stamped_file \<Rightarrow> (path \<times> stamp \<times> entries) option \<Rightarrow> entries \<times> (path \<times> stamp \<times> entries) option" where
  "load_users w f cache =
     (case f of
        None \<Rightarrow> ([], None)
      | Some (st, text) \<Rightarrow>
          (let fresh = (read_users_file f, Some (users_path w, st, read_users_file f))
           in case cache of
                Some (p, st', es) \<Rightarrow> if p = users_path w \<and> st' = st then (es, cache) else fresh
              | None \<Rightarrow> fresh))"

definition users_coherent :: "site \<Rightarrow> stamped_file \<Rightarrow> (path \<times> stamp \<times> entries) option \<Rightarrow> bool" where
  "users_coherent w f cache \<longleftrightarrow>
     (case (f, cache) of
        (Some (st, text), Some (p, st', es)) \<Rightarrow> p = users_path w \<and> st' = st \<longrightarrow> es = read_users_file f
      | _ \<Rightarrow> True)"

interpretation user_table: cached_table read_users_file "load_users w" "users_coherent w" for w
  by unfold_locales
    (auto simp: load_users_def users_coherent_def Let_def read_users_file_def
      split: option.splits prod.splits if_splits)

definition write_users :: "tick \<Rightarrow> entries \<Rightarrow> id_state \<Rightarrow> id_state" where
  "write_users t es s =
     s\<lparr>users_file := Some (new_stat t, Parsed (objs_json es)), users_cache := None\<rparr>"

text \<open>\<open>_users_locked\<close>: the body gets the table as it is on disk; what it leaves behind is written if it
  differs, and nothing is written when the body raises.\<close>

definition commit :: "tick \<Rightarrow> entries \<Rightarrow> entries \<Rightarrow> id_state \<Rightarrow> id_state" where
  "commit t before after s = (if after \<noteq> before then write_users t after s else s)"

definition users_locked ::
    "tick \<Rightarrow> (entries \<Rightarrow> id_state \<Rightarrow> ('a \<times> entries) id_result) \<Rightarrow> id_state \<Rightarrow> 'a id_result" where
  "users_locked t body s =
     (let before = read_users_file (users_file s)
      in case body before s of
           (Inl e, s') \<Rightarrow> (Inl e, s')
         | (Inr (a, after), s') \<Rightarrow> (Inr a, commit t before after s'))"

definition as_user :: "site \<Rightarrow> entry \<Rightarrow> user" where
  "as_user w r =
     \<lparr>u_id = rec_str w r ''id'', u_email = rec_str w r ''email'', u_disabled = rec_flag r ''disabled'',
      u_created = rec_str w r ''created''\<rparr>"

text \<open>A call to \<open>load_users\<close> inside an operation, with its effect on the cache.\<close>

definition loaded :: "site \<Rightarrow> id_state \<Rightarrow> entries \<times> id_state" where
  "loaded w s =
     (let (es, c) = load_users w (users_file s) (users_cache s) in (es, s\<lparr>users_cache := c\<rparr>))"

definition find_user_by_id :: "site \<Rightarrow> string \<Rightarrow> id_state \<Rightarrow> user option \<times> id_state" where
  "find_user_by_id w uid s =
     (let (es, s') = loaded w s
      in (case dict_get es uid of
            Some r \<Rightarrow> if r \<noteq> [] then Some (as_user w r) else None
          | None \<Rightarrow> None, s'))"

definition find_user_by_email :: "site \<Rightarrow> string \<Rightarrow> id_state \<Rightarrow> user option \<times> id_state" where
  "find_user_by_email w email s = find_user_by_id w (derive_id (st_crypto w) email) s"

definition list_users :: "site \<Rightarrow> id_state \<Rightarrow> user list \<times> id_state" where
  "list_users w s =
     (let (es, s') = loaded w s
      in (sort_key (\<lambda>u. (u_created u, u_email u)) (map (as_user w \<circ> snd) es), s'))"

definition revoke_all :: "site \<Rightarrow> string \<Rightarrow> id_state \<Rightarrow> id_state" where
  "revoke_all w uid s = s\<lparr>sess := snd (revoke_identity_sessions w uid (sess s))\<rparr>"

definition set_disabled :: "site \<Rightarrow> tick \<Rightarrow> string \<Rightarrow> bool \<Rightarrow> id_state \<Rightarrow> user id_result" where
  "set_disabled w t uid disabled s =
     (case users_locked t
             (\<lambda>es s1. case dict_get es uid of
                None \<Rightarrow> (Inl (IdentityError ''no_such_user'' ''no such account''), s1)
              | Some r \<Rightarrow>
                  (let r' = dict_set ''disabled'' (JBool disabled) r in (Inr (r', dict_set uid r' es), s1))) s of
        (Inl e, s') \<Rightarrow> (Inl e, s')
      | (Inr r', s') \<Rightarrow> (Inr (as_user w r'), if disabled then revoke_all w uid s' else s'))"

subsection \<open>Quotas\<close>

definition has_data :: "site \<Rightarrow> file_sys \<Rightarrow> string \<Rightarrow> bool" where
  "has_data w fs uid = (if uid = [] then False else is_dir fs (path_join (id_user_state_dir w) uid))"

definition account_caps :: "site \<Rightarrow> nat \<times> nat" where
  "account_caps w =
     (let total = int_env w ''FRAGO_MAX_USERS'' DEFAULT_TOTAL_CAP;
          unused = int_env w ''FRAGO_MAX_UNUSED_USERS'' DEFAULT_UNUSED_CAP
      in (total, min unused total))"

definition unused_records :: "site \<Rightarrow> file_sys \<Rightarrow> entries \<Rightarrow> entry list" where
  "unused_records w fs es = filter (\<lambda>r. \<not> has_data w fs (rec_str w r ''id'')) (map snd es)"

definition drop_account :: "site \<Rightarrow> entry \<Rightarrow> entries \<times> id_state \<Rightarrow> entries \<times> id_state" where
  "drop_account w victim x =
     (let vid = rec_str w victim ''id'' in (dict_del vid (fst x), revoke_all w vid (snd x)))"

definition make_room :: "site \<Rightarrow> entries \<Rightarrow> id_state \<Rightarrow> entries id_result" where
  "make_room w es s =
     (let (total_cap, unused_cap) = account_caps w
      in if length es \<ge> total_cap
         then (Inl (IdentityError ''account_limit'' ''this server is not accepting new accounts''), s)
         else let unused = unused_records w (id_fs s) es
              in if length unused < unused_cap then (Inr es, s)
                 else let (es', s') = fold (drop_account w)
                        (take (length unused - unused_cap + 1) (sort_key (\<lambda>r. rec_str w r ''created'') unused)) (es, s)
                      in (Inr es', s'))"

definition new_record :: "site \<Rightarrow> tick \<Rightarrow> string \<Rightarrow> string \<Rightarrow> entry" where
  "new_record w t email encoded =
     [(''id'', JStr (derive_id (st_crypto w) email)), (''email'', JStr (normalize_email (st_crypto w) email)),
      (''pwd'', JStr encoded), (''disabled'', JBool False), (''created'', JStr (isoformat w (now t)))]"

definition create_user :: "site \<Rightarrow> tick \<Rightarrow> string \<Rightarrow> string \<Rightarrow> id_state \<Rightarrow> user id_result" where
  "create_user w t email password s =
     (case email_problem (st_crypto w) email of
        Some p \<Rightarrow> (Inl (IdentityError ''invalid_email'' p), s)
      | None \<Rightarrow>
          (case password_problem password of
             Some p \<Rightarrow> (Inl (IdentityError ''weak_password'' p), s)
           | None \<Rightarrow>
               (let uid = derive_id (st_crypto w) email
                in case hash_password (st_crypto w) (new_salt t) password SCRYPT_N SCRYPT_R SCRYPT_P of
                     None \<Rightarrow> (Inl PyValueError, s)
                   | Some encoded \<Rightarrow>
                       users_locked t
                         (\<lambda>es s1.
                            let existing = (case dict_get es uid of Some r \<Rightarrow> r | None \<Rightarrow> [])
                            in if existing \<noteq> [] then (Inr (as_user w existing, es), s1)
                               else (case make_room w es s1 of
                                       (Inl e, s2) \<Rightarrow> (Inl e, s2)
                                     | (Inr es', s2) \<Rightarrow>
                                         (let r = new_record w t email encoded
                                          in (Inr (as_user w r, dict_set uid r es'), s2)))) s)))"

subsection \<open>Passwords and signing in\<close>

definition verify_user_password :: "site \<Rightarrow> string \<Rightarrow> string \<Rightarrow> id_state \<Rightarrow> bool \<times> id_state" where
  "verify_user_password w uid password s =
     (let (es, s') = loaded w s
      in (case dict_get es uid of
            None \<Rightarrow> False
          | Some r \<Rightarrow>
              if rec_flag r ''disabled'' then False
              else verify_password (st_crypto w) password (rec_str w r ''pwd''), s'))"

definition set_password ::
    "site \<Rightarrow> tick \<Rightarrow> string \<Rightarrow> string \<Rightarrow> bool \<Rightarrow> id_state \<Rightarrow> unit id_result" where
  "set_password w t uid password revoke_sessions s =
     (case password_problem password of
        Some p \<Rightarrow> (Inl (IdentityError ''weak_password'' p), s)
      | None \<Rightarrow>
          (case hash_password (st_crypto w) (new_salt t) password SCRYPT_N SCRYPT_R SCRYPT_P of
             None \<Rightarrow> (Inl PyValueError, s)
           | Some encoded \<Rightarrow>
               (case users_locked t
                       (\<lambda>es s1. case dict_get es uid of
                          None \<Rightarrow> (Inl (IdentityError ''no_such_user'' ''no such account''), s1)
                        | Some r \<Rightarrow> (Inr ((), dict_set uid (dict_set ''pwd'' (JStr encoded) r) es), s1)) s of
                  (Inl e, s') \<Rightarrow> (Inl e, s')
                | (Inr u, s') \<Rightarrow> (Inr u, if revoke_sessions then revoke_all w uid s' else s'))))"

text \<open>\<open>authenticate\<close>; \<open>ip\<close> is the address \<open>acting_for\<close> has set. The second half of the answer is True for
  \<open>created\<close> and False for \<open>ok\<close>.\<close>

definition bad_credentials :: id_error where
  "bad_credentials = IdentityError ''bad_credentials'' ''email or password is wrong''"

text \<open>\<open>int(penalty) + 1\<close> on a penalty that is positive.\<close>

definition retry_text :: "rat \<Rightarrow> string" where
  "retry_text penalty = ''too many failed attempts; try again in '' @ dec (nat \<lfloor>penalty\<rfloor> + 1) @ ''s''"

definition authenticate ::
    "site \<Rightarrow> tick \<Rightarrow> string option \<Rightarrow> string \<Rightarrow> string \<Rightarrow> string option \<Rightarrow> id_state \<Rightarrow> (user \<times> bool) id_result" where
  "authenticate w t ip email password gate s =
     (case email_problem (st_crypto w) email of
        Some p \<Rightarrow> (Inl (IdentityError ''invalid_email'' p), s)
      | None \<Rightarrow>
          (let uid = derive_id (st_crypto w) email;
               (es, s1) = loaded w s
           in case dict_get es uid of
                None \<Rightarrow>
                  if \<not> check_signup_gate w gate
                  then (Inl (IdentityError ''gate_required'' (gate_message w)), s1)
                  else (let (ok, l) = allow_signup ip (mono t) (lims s1); s2 = s1\<lparr>lims := l\<rparr>
                        in if \<not> ok
                           then (Inl (IdentityError ''rate_limited'' ''too many new accounts from here; wait a while''), s2)
                           else (case create_user w t email password s2 of
                                   (Inl e, s3) \<Rightarrow> (Inl e, s3)
                                 | (Inr u, s3) \<Rightarrow> (Inr (u, True), s3)))
              | Some r \<Rightarrow>
                  if rec_flag r ''disabled'' then (Inl bad_credentials, s1)
                  else let penalty = login_backoff_remaining uid (mono t) (lims s1)
                       in if penalty > 0 then (Inl (IdentityError ''rate_limited'' (retry_text penalty)), s1)
                          else if \<not> verify_password (st_crypto w) password (rec_str w r ''pwd'')
                          then (case note_login_failure uid (mono t) (lims s1) of
                                  None \<Rightarrow> (Inl PyOverflowError, s1)
                                | Some l \<Rightarrow> (Inl bad_credentials, s1\<lparr>lims := l\<rparr>))
                          else let s2 = s1\<lparr>lims := note_login_success uid (lims s1)\<rparr>
                               in if needs_rehash (rec_str w r ''pwd'')
                                  then (case set_password w t uid password False s2 of
                                          (Inl PyValueError, s3) \<Rightarrow> (Inl PyValueError, s3)
                                        | (_, s3) \<Rightarrow> (Inr (as_user w r, False), s3))
                                  else (Inr (as_user w r, False), s2)))"

subsection \<open>Resolving a cookie\<close>

definition resolve_session ::
    "site \<Rightarrow> tick \<Rightarrow> string option \<Rightarrow> id_state \<Rightarrow> login_session option \<times> id_state" where
  "resolve_session w t token s =
     (if token = None \<or> token = Some [] then (None, s)
      else let sid = sid_of w (the token)
           in case read_session (sess s) sid of
                None \<Rightarrow> (None, s)
              | Some d \<Rightarrow>
                  (let expired = (case parse_time w (dict_get d ''expires'') of
                                    Some e \<Rightarrow> e \<le> now t
                                  | None \<Rightarrow> True)
                   in if expired then (None, s\<lparr>sess := dict_del sid (sess s)\<rparr>)
                      else (case find_user_by_id w (rec_str w d ''identity'') s of
                              (None, s1) \<Rightarrow> (None, s1)
                            | (Some u, s1) \<Rightarrow>
                                if u_disabled u then (None, s1)
                                else let session = session_view w sid d
                                     in (Some session, s1\<lparr>sess := touch w t sid d session (sess s1)\<rparr>))))"

subsection \<open>Reading and writing the table\<close>

abbreviation users :: "id_state \<Rightarrow> entries" where
  "users s \<equiv> read_users_file (users_file s)"

lemma read_write_users [simp]: "read_users_file (users_file (write_users t es s)) = es"
  by (simp add: write_users_def read_users_file_def objs_json_def dict_entries_objs)

lemma write_users_rest [simp]:
  "sess (write_users t es s) = sess s" "lims (write_users t es s) = lims s" "id_fs (write_users t es s) = id_fs s"
  "users_coherent w (users_file (write_users t es s)) (users_cache (write_users t es s))"
  by (simp_all add: write_users_def users_coherent_def)

lemma revoke_all_rest [simp]:
  "users_file (revoke_all w u s) = users_file s" "users_cache (revoke_all w u s) = users_cache s"
  "lims (revoke_all w u s) = lims s" "id_fs (revoke_all w u s) = id_fs s"
  by (simp_all add: revoke_all_def)

definition coherent :: "site \<Rightarrow> id_state \<Rightarrow> bool" where
  "coherent w s = users_coherent w (users_file s) (users_cache s)"

lemma coherent_simps [simp]:
  "coherent w (write_users t es s)" "coherent w (revoke_all w' u s) = coherent w s"
  "coherent w (s\<lparr>sess := ss\<rparr>) = coherent w s" "coherent w (s\<lparr>lims := l\<rparr>) = coherent w s"
  by (simp_all add: coherent_def)

lemma loaded_facts:
  assumes "coherent w s"
  shows "fst (loaded w s) = users s" "users_file (snd (loaded w s)) = users_file s" "sess (snd (loaded w s)) = sess s"
    "lims (snd (loaded w s)) = lims s" "id_fs (snd (loaded w s)) = id_fs s" "coherent w (snd (loaded w s))"
  using user_table.load_value [OF assms [unfolded coherent_def]]
    user_table.load_coherent [OF assms [unfolded coherent_def]]
  by (simp_all add: loaded_def coherent_def case_prod_unfold Let_def)

lemma loadedE:
  assumes "coherent w s"
  obtains s1 where "loaded w s = (users s, s1)" "users_file s1 = users_file s" "sess s1 = sess s"
    "lims s1 = lims s" "id_fs s1 = id_fs s" "coherent w s1"
  using loaded_facts [OF assms] by (metis prod.collapse)

subsection \<open>What the table promises\<close>

text \<open>Every record carries the id it is filed under.\<close>

definition ids_match :: "site \<Rightarrow> entries \<Rightarrow> bool" where
  "ids_match w es \<longleftrightarrow> (\<forall>k r. dict_get es k = Some r \<longrightarrow> rec_str w r ''id'' = k)"

definition unused_keys :: "site \<Rightarrow> file_sys \<Rightarrow> entries \<Rightarrow> string set" where
  "unused_keys w fs es = {k \<in> fst ` set es. \<not> has_data w fs k}"

definition table_ok :: "site \<Rightarrow> file_sys \<Rightarrow> entries \<Rightarrow> bool" where
  "table_ok w fs es \<longleftrightarrow>
     dict_ok es \<and> ids_match w es \<and> length es \<le> fst (account_caps w) \<and> card (unused_keys w fs es) \<le> snd (account_caps w)"

definition sessions_ok :: "site \<Rightarrow> sessions \<Rightarrow> bool" where
  "sessions_ok w ss \<longleftrightarrow>
     dict_ok ss
     \<and> (\<forall>who. session_count (names_identity w who) ss
           \<le> int_env w ''FRAGO_MAX_SESSIONS_PER_USER'' DEFAULT_SESSIONS_PER_USER)
     \<and> session_count readable ss \<le> int_env w ''FRAGO_MAX_SESSIONS'' DEFAULT_TOTAL_SESSIONS"

definition accounts_ok :: "site \<Rightarrow> id_state \<Rightarrow> bool" where
  "accounts_ok w s \<longleftrightarrow> coherent w s \<and> table_ok w (id_fs s) (users s) \<and> sessions_ok w (sess s)"

lemma caps_pos: "0 < fst (account_caps w)" "0 < snd (account_caps w)"
  by (simp_all add: account_caps_def Let_def int_env_pos DEFAULT_TOTAL_CAP_def DEFAULT_UNUSED_CAP_def)

lemma sessions_ok_filter: "sessions_ok w ss \<Longrightarrow> sessions_ok w (filter Q ss)"
  by (auto simp: sessions_ok_def intro: le_trans [OF session_count_filter_le])

lemma sessions_ok_del: "sessions_ok w ss \<Longrightarrow> sessions_ok w (dict_del k ss)"
  by (simp add: AList.delete_eq sessions_ok_filter)

lemma sessions_ok_revoke: "sessions_ok w ss \<Longrightarrow> sessions_ok w (snd (revoke_identity_sessions w' who ss))"
  by (simp add: revoke_identity_sessions_def sessions_ok_filter)

lemma session_count_set_old:
  "dict_get ss k = Some g \<Longrightarrow> P f = P g \<Longrightarrow> session_count P (dict_set k f ss) = session_count P ss"
  by (induction ss) (auto simp: session_count_def)

lemma sessions_ok_touch:
  assumes "sessions_ok w ss" "read_session ss sid = Some d" "d \<noteq> []"
  shows "sessions_ok w (touch w t sid d v ss)"
proof -
  obtain g where g: "dict_get ss sid = Some g" "sf_text g = Parsed (JObj d)"
    using assms(2) by (auto simp: read_session_def split: option.splits file_text.splits json.splits)
  let ?f = "\<lparr>sf_text = Parsed (JObj (dict_set ''last_seen'' (JStr (isoformat w (now t))) d)), sf_mtime = wall t\<rparr>"
  have ne: "dict_set ''last_seen'' x d \<noteq> []" for x using assms(3) by (cases d) auto
  have "names_identity w who ?f = names_identity w who g" for who
    using assms(3) g(2) ne by (simp add: names_identity_def rec_str_def)
  moreover have "readable ?f = readable g" using g(2) assms(3) ne by (simp add: readable_def)
  ultimately have "sessions_ok w (dict_set sid ?f ss)"
    using assms(1) g(1) by (simp add: sessions_ok_def session_count_set_old [of ss sid g])
  then show ?thesis using assms(1) by (simp add: touch_def split: option.splits)
qed

lemma sessions_ok_create:
  assumes "sessions_ok w ss"
  shows "sessions_ok w (snd (create_session w t who ss))"
proof (cases "create_session w t who ss")
  case (Pair res ss')
  obtain Q where Q: "enforce_session_caps w who (snd (purge_expired_sessions w t ss)) = filter Q ss"
    using enforce_session_caps_filter [of w who "snd (purge_expired_sessions w t ss)"]
    by (auto simp: purge_expired_sessions_def)
  show ?thesis
  proof (cases res)
    case (Inl e)
    have "link_session w t d tokens xs = (Inl e, ss') \<Longrightarrow> ss' = xs" for d tokens xs
      by (induction tokens) (auto split: if_splits)
    then have "ss' = filter Q ss" using Pair Inl by (simp add: create_session_def Let_def Q)
    then show ?thesis using assms by (simp add: Pair sessions_ok_filter)
  next
    case (Inr token)
    have c: "create_session w t who ss = (Inr token, ss')" using Pair Inr by simp
    obtain ss2 where ss2: "ss2 = filter Q ss" "dict_get ss2 (sid_of w token) = None"
      "ss' = dict_set (sid_of w token) \<lparr>sf_text = Parsed (JObj (session_record w t who)), sf_mtime = wall t\<rparr> ss2"
      using create_session_parts [OF c] Q by metis
    have ok2: "sessions_ok w ss2" by (simp add: ss2(1) sessions_ok_filter assms)
    have other: "session_count (names_identity w v) ss' = session_count (names_identity w v) ss2" if "v \<noteq> who" for v
      using that ss2(2) by (simp add: ss2(3) session_count_set_new names_identity_def)
    have "dict_ok ss" using assms by (simp add: sessions_ok_def)
    note q = session_quotas_facts [OF this c]
    have "session_count (names_identity w v) ss'
        \<le> int_env w ''FRAGO_MAX_SESSIONS_PER_USER'' DEFAULT_SESSIONS_PER_USER" for v
      using q other [of v] ok2 by (cases "v = who") (auto simp: sessions_ok_def)
    moreover have "dict_ok ss'" using ok2 by (simp add: ss2(3) sessions_ok_def)
    ultimately show ?thesis using q by (simp add: Pair sessions_ok_def)
  qed
qed

subsection \<open>Each operation keeps the promise\<close>

lemma keys_card_filter: "dict_ok es \<Longrightarrow> length (filter (\<lambda>(k, r). Q k) es) = card {k \<in> fst ` set es. Q k}"
proof -
  assume "dict_ok es"
  then have "distinct (map fst (filter (\<lambda>(k, r). Q k) es))" by (simp add: dict_ok_def distinct_map_filter)
  from distinct_card [OF this] have "length (filter (\<lambda>(k, r). Q k) es) = card (fst ` {x \<in> set es. Q (fst x)})"
    by (simp add: case_prod_unfold)
  moreover have "fst ` {x \<in> set es. Q (fst x)} = {k \<in> fst ` set es. Q k}" by auto
  ultimately show ?thesis by simp
qed

lemma keys_set: "fst ` set (dict_set k v d) = insert k (fst ` set d)"
  by (induction d) auto

lemma table_ok_update:
  assumes "table_ok w fs es" "dict_get es k = Some r" "rec_str w r' ''id'' = rec_str w r ''id''"
  shows "table_ok w fs (dict_set k r' es)"
proof -
  have k: "k \<in> fst ` set es" using assms(2) by (metis domI dom_map_of_conv_image_fst)
  then have "fst ` set (dict_set k r' es) = fst ` set es" by (auto simp: keys_set)
  then show ?thesis
    using assms k by (auto simp: table_ok_def ids_match_def unused_keys_def length_dict_set)
qed

lemma drop_accounts:
  "fold (drop_account w) vs (es, s) =
     (filter (\<lambda>(k, r). k \<notin> (\<lambda>v. rec_str w v ''id'') ` set vs) es,
      s\<lparr>sess := filter (\<lambda>(sid, f). \<not> (\<exists>v \<in> set vs. names_identity w (rec_str w v ''id'') f)) (sess s)\<rparr>)"
proof (induction vs arbitrary: es s)
  case (Cons v vs)
  have "drop_account w v (es, s) = (filter (\<lambda>(k, r). k \<noteq> rec_str w v ''id'') es,
      s\<lparr>sess := filter (\<lambda>(sid, f). \<not> names_identity w (rec_str w v ''id'') f) (sess s)\<rparr>)"
    by (simp add: drop_account_def Let_def revoke_all_def revoke_identity_sessions_def AList.delete_eq
        case_prod_unfold eq_commute)
  then show ?case
    by (simp add: Cons) (simp add: case_prod_unfold conj_commute)
qed simp

lemma unused_ids:
  assumes "dict_ok es" "ids_match w es"
  shows "map (\<lambda>r. rec_str w r ''id'') (unused_records w fs es) = map fst (filter (\<lambda>(k, r). \<not> has_data w fs k) es)"
    "length (unused_records w fs es) = card (unused_keys w fs es)"
proof -
  have m: "\<forall>(k, r) \<in> set es. rec_str w r ''id'' = k"
    using assms by (auto simp: ids_match_def dict_get_in)
  then show i: "map (\<lambda>r. rec_str w r ''id'') (unused_records w fs es) = map fst (filter (\<lambda>(k, r). \<not> has_data w fs k) es)"
    by (induction es) (auto simp: unused_records_def)
  from arg_cong [OF i, of length] show "length (unused_records w fs es) = card (unused_keys w fs es)"
    by (simp add: keys_card_filter [OF assms(1)] unused_keys_def)
qed

lemma make_room_facts:
  assumes ok: "dict_ok es" "ids_match w es" and "make_room w es s = (Inr es', s')"
  obtains V where "es' = filter (\<lambda>(k, r). k \<notin> V) es" "V \<subseteq> unused_keys w (id_fs s) es"
    "s' = s\<lparr>sess := filter (\<lambda>(sid, f). \<not> (\<exists>v \<in> V. names_identity w v f)) (sess s)\<rparr>"
    "length es < fst (account_caps w)" "card (unused_keys w (id_fs s) es') < snd (account_caps w)"
proof -
  let ?u = "unused_records w (id_fs s) es"
  let ?K = "unused_keys w (id_fs s) es"
  note caps = caps_pos [of w]
  have len: "length es < fst (account_caps w)"
    using assms(3) by (auto simp: make_room_def Let_def split: prod.splits if_splits)
  show ?thesis
  proof (cases "length ?u < snd (account_caps w)")
    case True
    then have "es' = es" "s' = s"
      using assms(3) len by (auto simp: make_room_def Let_def case_prod_unfold)
    with True len that [of "{}"] show ?thesis by (simp add: unused_ids(2) [OF ok])
  next
    case False
    define vs where "vs = take (length ?u - snd (account_caps w) + 1) (sort_key (\<lambda>r. rec_str w r ''created'') ?u)"
    define V where "V = (\<lambda>v. rec_str w v ''id'') ` set vs"
    have r: "es' = filter (\<lambda>(k, r). k \<notin> V) es"
      "s' = s\<lparr>sess := filter (\<lambda>(sid, f). \<not> (\<exists>v \<in> V. names_identity w v f)) (sess s)\<rparr>"
      using assms(3) len False by (auto simp: make_room_def Let_def case_prod_unfold drop_accounts vs_def V_def)
    have ids: "mset (map (\<lambda>r. rec_str w r ''id'') (sort_key (\<lambda>r. rec_str w r ''created'') ?u)) =
        mset (map fst (filter (\<lambda>(k, r). \<not> has_data w (id_fs s) k) es))"
      by (simp add: unused_ids(1) [OF ok, symmetric])
    have "distinct (map fst (filter (\<lambda>(k, r). \<not> has_data w (id_fs s) k) es))"
      using ok(1) by (simp add: dict_ok_def distinct_map_filter)
    then have "distinct (map (\<lambda>r. rec_str w r ''id'') (sort_key (\<lambda>r. rec_str w r ''created'') ?u))"
      using ids by (metis mset_eq_imp_distinct_iff)
    then have d: "distinct (map (\<lambda>r. rec_str w r ''id'') vs)"
      by (simp add: vs_def take_map [symmetric])
    have "V \<subseteq> (\<lambda>r. rec_str w r ''id'') ` set ?u"
      unfolding V_def vs_def using set_take_subset by (metis image_mono set_sort)
    also have "\<dots> = ?K"
      using arg_cong [OF unused_ids(1) [OF ok, of "id_fs s"], of set] by (auto simp: unused_keys_def image_iff)
    finally have sub: "V \<subseteq> ?K" .
    have "card V = length ?u - snd (account_caps w) + 1"
      using distinct_card [OF d] False caps by (simp add: V_def vs_def)
    moreover have "unused_keys w (id_fs s) es' = ?K - V" by (auto simp: unused_keys_def r(1))
    moreover have "finite ?K" by (simp add: unused_keys_def)
    ultimately have "card (unused_keys w (id_fs s) es') < snd (account_caps w)"
      using sub False caps by (simp add: card_Diff_subset finite_subset unused_ids(2) [OF ok])
    with that [of V] r sub len show ?thesis by blast
  qed
qed

lemma commit_facts:
  shows "sess (commit t b a s) = sess s" "lims (commit t b a s) = lims s" "id_fs (commit t b a s) = id_fs s"
    "coherent w s \<Longrightarrow> coherent w (commit t b a s)" "users s = b \<Longrightarrow> users (commit t b a s) = a"
  by (simp_all add: commit_def)

lemma set_disabled_Inr:
  assumes "set_disabled w t uid dis s = (Inr u, s')"
  obtains r where "dict_get (users s) uid = Some r" "users s' = dict_set uid (dict_set ''disabled'' (JBool dis) r) (users s)"
    "sess s' = (if dis then snd (revoke_identity_sessions w uid (sess s)) else sess s)"
    "lims s' = lims s" "id_fs s' = id_fs s" "coherent w s \<Longrightarrow> coherent w s'"
proof -
  obtain r where r: "dict_get (users s) uid = Some r"
    using assms by (cases "dict_get (users s) uid") (simp_all add: set_disabled_def users_locked_def Let_def)
  then show ?thesis
    using assms that [OF r]
    by (cases dis) (auto simp: set_disabled_def users_locked_def Let_def commit_facts revoke_all_def)
qed

lemma set_disabled_Inl: "set_disabled w t uid dis s = (Inl e, s') \<Longrightarrow> s' = s"
  by (cases "dict_get (users s) uid") (auto simp: set_disabled_def users_locked_def Let_def)

lemma set_password_Inr:
  assumes "set_password w t uid pw rv s = (Inr u, s')"
  obtains r enc where "dict_get (users s) uid = Some r" "users s' = dict_set uid (dict_set ''pwd'' (JStr enc) r) (users s)"
    "hash_password (st_crypto w) (new_salt t) pw SCRYPT_N SCRYPT_R SCRYPT_P = Some enc" "password_problem pw = None"
    "sess s' = (if rv then snd (revoke_identity_sessions w uid (sess s)) else sess s)"
    "lims s' = lims s" "id_fs s' = id_fs s" "coherent w s \<Longrightarrow> coherent w s'"
proof -
  obtain enc where enc: "password_problem pw = None"
    "hash_password (st_crypto w) (new_salt t) pw SCRYPT_N SCRYPT_R SCRYPT_P = Some enc"
    using assms by (auto simp: set_password_def split: option.splits)
  moreover obtain r where r: "dict_get (users s) uid = Some r"
    using assms enc by (cases "dict_get (users s) uid") (simp_all add: set_password_def users_locked_def Let_def)
  ultimately show ?thesis
    using assms that [OF r]
    by (cases rv) (auto simp: set_password_def users_locked_def Let_def commit_facts revoke_all_def)
qed

lemma set_password_Inl: "set_password w t uid pw rv s = (Inl e, s') \<Longrightarrow> s' = s"
  by (cases "dict_get (users s) uid")
    (auto simp: set_password_def users_locked_def Let_def split: option.splits)

lemma create_user_Inr:
  assumes "create_user w t email pw s = (Inr u, s')" "dict_ok (users s)" "ids_match w (users s)"
  obtains
    (existing) r where "dict_get (users s) (derive_id (st_crypto w) email) = Some r" "r \<noteq> []" "u = as_user w r" "s' = s"
  | (new) V enc where "dict_get (users s) (derive_id (st_crypto w) email) \<in> {None, Some []}"
      "V \<subseteq> unused_keys w (id_fs s) (users s)"
      "users s' = dict_set (derive_id (st_crypto w) email) (new_record w t email enc)
         (filter (\<lambda>(k, r). k \<notin> V) (users s))"
      "sess s' = filter (\<lambda>(sid, f). \<not> (\<exists>v \<in> V. names_identity w v f)) (sess s)"
      "length (users s) < fst (account_caps w)"
      "card (unused_keys w (id_fs s) (filter (\<lambda>(k, r). k \<notin> V) (users s))) < snd (account_caps w)"
      "lims s' = lims s" "id_fs s' = id_fs s" "coherent w s \<Longrightarrow> coherent w s'"
      "u = as_user w (new_record w t email enc)" "email_problem (st_crypto w) email = None" "password_problem pw = None"
      "hash_password (st_crypto w) (new_salt t) pw SCRYPT_N SCRYPT_R SCRYPT_P = Some enc"
proof -
  let ?uid = "derive_id (st_crypto w) email"
  let ?ex = "case dict_get (users s) ?uid of Some r \<Rightarrow> r | None \<Rightarrow> []"
  obtain enc where p: "email_problem (st_crypto w) email = None" "password_problem pw = None"
      "hash_password (st_crypto w) (new_salt t) pw SCRYPT_N SCRYPT_R SCRYPT_P = Some enc"
    using assms(1) by (auto simp: create_user_def Let_def split: option.splits)
  show ?thesis
  proof (cases "?ex = []")
    case False
    then obtain r where r: "dict_get (users s) ?uid = Some r" "r \<noteq> []" by (auto split: option.splits)
    then have "u = as_user w r" "s' = s"
      using assms(1) by (simp_all add: create_user_def p Let_def users_locked_def commit_def)
    with r existing show ?thesis by blast
  next
    case True
    obtain es' s2 where m: "make_room w (users s) s = (Inr es', s2)"
      using assms(1) True by (auto simp: create_user_def p Let_def users_locked_def split: prod.splits sum.splits)
    obtain V where V: "es' = filter (\<lambda>(k, r). k \<notin> V) (users s)" "V \<subseteq> unused_keys w (id_fs s) (users s)"
      "s2 = s\<lparr>sess := filter (\<lambda>(sid, f). \<not> (\<exists>v \<in> V. names_identity w v f)) (sess s)\<rparr>"
      "length (users s) < fst (account_caps w)" "card (unused_keys w (id_fs s) es') < snd (account_caps w)"
      by (rule make_room_facts [OF assms(2,3) m])
    have s': "u = as_user w (new_record w t email enc)"
      "s' = commit t (users s) (dict_set ?uid (new_record w t email enc) es') s2"
      using assms(1) True by (simp_all add: create_user_def p Let_def users_locked_def m)
    have none: "dict_get (users s) ?uid \<in> {None, Some []}" using True by (auto split: option.splits)
    have u2: "users s2 = users s" by (simp add: V(3))
    show ?thesis
      by (rule new [OF none V(2) _ _ V(4) _ _ _ _ s'(1) p])
        (use V u2 in \<open>simp_all add: s'(2) commit_facts\<close>)
  qed
qed

lemma create_user_Inl: "create_user w t email pw s = (Inl e, s') \<Longrightarrow> s' = s"
  by (auto simp: create_user_def Let_def users_locked_def make_room_def
      split: option.splits prod.splits sum.splits if_splits)

lemma table_ok_new:
  assumes "table_ok w fs es" "V \<subseteq> unused_keys w fs es" "length es < fst (account_caps w)"
    and "card (unused_keys w fs (filter (\<lambda>(k, r). k \<notin> V) es)) < snd (account_caps w)" "rec_str w r ''id'' = k"
  shows "table_ok w fs (dict_set k r (filter (\<lambda>(k, r). k \<notin> V) es))"
proof -
  let ?es = "filter (\<lambda>(k, r). k \<notin> V) es"
  have ok: "dict_ok ?es" "ids_match w ?es"
    using assms(1) by (auto simp: table_ok_def ids_match_def dict_get_in)
  have "unused_keys w fs (dict_set k r ?es) \<subseteq> insert k (unused_keys w fs ?es)"
    by (auto simp: unused_keys_def keys_set)
  moreover have fin: "finite (unused_keys w fs ?es)" by (simp add: unused_keys_def)
  ultimately have "card (unused_keys w fs (dict_set k r ?es)) \<le> card (insert k (unused_keys w fs ?es))"
    by (simp add: card_mono)
  also have "\<dots> \<le> Suc (card (unused_keys w fs ?es))" by (simp add: fin card_insert_if)
  finally have "card (unused_keys w fs (dict_set k r ?es)) \<le> Suc (card (unused_keys w fs ?es))" .
  moreover have "length (dict_set k r ?es) \<le> Suc (length es)"
    using length_filter_le [of "\<lambda>(k, r). k \<notin> V" es] by (simp add: length_dict_set le_SucI)
  ultimately show ?thesis
    using ok assms(3,4,5) by (auto simp: table_ok_def ids_match_def)
qed

lemma keeps_loaded: "accounts_ok w s \<Longrightarrow> accounts_ok w (snd (loaded w s))"
  by (simp add: accounts_ok_def loaded_facts)

lemma keeps_set_disabled: "accounts_ok w s \<Longrightarrow> accounts_ok w (snd (set_disabled w t uid dis s))"
proof (cases "set_disabled w t uid dis s")
  case (Pair res s')
  assume ok: "accounts_ok w s"
  show ?thesis
  proof (cases res)
    case (Inl e)
    then show ?thesis using Pair ok set_disabled_Inl [of w t uid dis s e s'] by simp
  next
    case (Inr u)
    then obtain r where r: "dict_get (users s) uid = Some r"
      "users s' = dict_set uid (dict_set ''disabled'' (JBool dis) r) (users s)"
      "sess s' = (if dis then snd (revoke_identity_sessions w uid (sess s)) else sess s)"
      "id_fs s' = id_fs s" "coherent w s \<Longrightarrow> coherent w s'"
      using Pair set_disabled_Inr [of w t uid dis s u s'] by metis
    have "table_ok w (id_fs s') (users s')"
      unfolding r(2,4) using ok r(1) by (auto simp: accounts_ok_def rec_str_def intro: table_ok_update)
    then show ?thesis
      using ok r(3,5) by (auto simp: Pair accounts_ok_def sessions_ok_revoke)
  qed
qed

lemma keeps_set_password: "accounts_ok w s \<Longrightarrow> accounts_ok w (snd (set_password w t uid pw rv s))"
proof (cases "set_password w t uid pw rv s")
  case (Pair res s')
  assume ok: "accounts_ok w s"
  show ?thesis
  proof (cases res)
    case (Inl e)
    then show ?thesis using Pair ok set_password_Inl [of w t uid pw rv s e s'] by simp
  next
    case (Inr u)
    then obtain r enc where r: "dict_get (users s) uid = Some r"
      "users s' = dict_set uid (dict_set ''pwd'' (JStr enc) r) (users s)"
      "sess s' = (if rv then snd (revoke_identity_sessions w uid (sess s)) else sess s)"
      "id_fs s' = id_fs s" "coherent w s \<Longrightarrow> coherent w s'"
      using Pair set_password_Inr [of w t uid pw rv s u s'] by metis
    have "table_ok w (id_fs s') (users s')"
      unfolding r(2,4) using ok r(1) by (auto simp: accounts_ok_def rec_str_def intro: table_ok_update)
    then show ?thesis
      using ok r(3,5) by (auto simp: Pair accounts_ok_def sessions_ok_revoke)
  qed
qed

lemma new_record_id [simp]: "rec_str w (new_record w t email enc) ''id'' = derive_id (st_crypto w) email"
  by (simp add: new_record_def rec_str_def py_str_def)

lemma keeps_create_user: "accounts_ok w s \<Longrightarrow> accounts_ok w (snd (create_user w t email pw s))"
proof (cases "create_user w t email pw s")
  case (Pair res s')
  assume ok: "accounts_ok w s"
  then have tok: "table_ok w (id_fs s) (users s)" by (simp add: accounts_ok_def)
  then have t: "dict_ok (users s)" "ids_match w (users s)" by (simp_all add: table_ok_def)
  show ?thesis
  proof (cases res)
    case (Inl e)
    then show ?thesis using Pair ok create_user_Inl [of w t email pw s e s'] by simp
  next
    case (Inr u)
    then have c: "create_user w t email pw s = (Inr u, s')" using Pair by simp
    show ?thesis
    proof (rule create_user_Inr [OF c t])
      fix r assume "s' = s"
      then show ?thesis using ok by (simp add: Pair)
    next
      fix V enc
      assume n: "V \<subseteq> unused_keys w (id_fs s) (users s)" "length (users s) < fst (account_caps w)"
        "users s' = dict_set (derive_id (st_crypto w) email) (new_record w t email enc)
           (filter (\<lambda>(k, r). k \<notin> V) (users s))"
        "sess s' = filter (\<lambda>(sid, f). \<not> (\<exists>v \<in> V. names_identity w v f)) (sess s)"
        "card (unused_keys w (id_fs s) (filter (\<lambda>(k, r). k \<notin> V) (users s))) < snd (account_caps w)"
        "id_fs s' = id_fs s" "coherent w s \<Longrightarrow> coherent w s'"
      then show ?thesis
        using ok table_ok_new [OF tok n(1,2,5) new_record_id]
        by (simp add: Pair accounts_ok_def sessions_ok_filter)
    qed
  qed
qed

text \<open>What \<open>authenticate\<close> has checked when it lets somebody in.\<close>

lemma authenticate_ok:
  assumes "coherent w s" and "authenticate w t ip email pw gate s = (Inr (u, False), s')"
  obtains r where "dict_get (users s) (derive_id (st_crypto w) email) = Some r" "\<not> rec_flag r ''disabled''"
    "login_backoff_remaining (derive_id (st_crypto w) email) (mono t) (lims s) \<le> 0"
    "verify_password (st_crypto w) pw (rec_str w r ''pwd'')" "u = as_user w r"
proof -
  obtain s1 where l: "loaded w s = (users s, s1)" "lims s1 = lims s" using loadedE [OF assms(1)] by metis
  note a = assms(2) [unfolded authenticate_def l(1) Let_def]
  obtain r where r: "dict_get (users s) (derive_id (st_crypto w) email) = Some r"
    using a by (auto split: option.splits if_splits prod.splits sum.splits)
  have "u = as_user w r" "\<not> rec_flag r ''disabled''"
    "login_backoff_remaining (derive_id (st_crypto w) email) (mono t) (lims s) \<le> 0"
    "verify_password (st_crypto w) pw (rec_str w r ''pwd'')"
    using a r l(2) by (auto split: option.splits if_splits prod.splits sum.splits id_error.splits)
  with r that show ?thesis by blast
qed

lemma authenticate_created:
  assumes "coherent w s" and "authenticate w t ip email pw gate s = (Inr (u, True), s')"
  obtains l where "dict_get (users s) (derive_id (st_crypto w) email) = None" "check_signup_gate w gate"
    "allow_signup ip (mono t) (lims s) = (True, l)"
    "create_user w t email pw ((snd (loaded w s))\<lparr>lims := l\<rparr>) = (Inr u, s')"
proof -
  obtain s1 where l: "loaded w s = (users s, s1)" "lims s1 = lims s" using loadedE [OF assms(1)] by metis
  note a = assms(2) [unfolded authenticate_def l(1) Let_def]
  have n: "dict_get (users s) (derive_id (st_crypto w) email) = None"
    using a by (auto split: option.splits if_splits prod.splits sum.splits id_error.splits)
  show ?thesis
    using a n l that by (auto split: option.splits if_splits prod.splits sum.splits)
qed

lemma accounts_ok_lims [simp]: "accounts_ok w (s\<lparr>lims := l\<rparr>) = accounts_ok w s"
  by (simp add: accounts_ok_def)

lemma keeps_authenticate:
  assumes "accounts_ok w s"
  shows "accounts_ok w (snd (authenticate w t ip email pw gate s))"
proof -
  have "coherent w s" using assms by (simp add: accounts_ok_def)
  then obtain s1 where l: "loaded w s = (users s, s1)" using loadedE by metis
  then have s1: "accounts_ok w s1" using keeps_loaded [OF assms] by simp
  show ?thesis
  proof (cases "dict_get (users s) (derive_id (st_crypto w) email)")
    case None
    show ?thesis
      using assms s1 keeps_create_user [of w "s1\<lparr>lims := snd (allow_signup ip (mono t) (lims s1))\<rparr>" t email pw]
      by (auto simp: authenticate_def l None Let_def case_prod_unfold split: option.splits sum.splits)
  next
    case (Some r)
    define s2 where "s2 = s1\<lparr>lims := note_login_success (derive_id (st_crypto w) email) (lims s1)\<rparr>"
    have s2: "accounts_ok w s2" using s1 by (simp add: s2_def)
    show ?thesis
      using assms s1 s2 keeps_set_password [OF s2, of t "derive_id (st_crypto w) email" pw False]
      by (auto simp: authenticate_def l Some Let_def case_prod_unfold s2_def [symmetric]
          split: option.splits sum.splits prod.splits id_error.splits)
  qed
qed

definition user_in :: "site \<Rightarrow> entries \<Rightarrow> string \<Rightarrow> user option" where
  "user_in w es uid =
     (case dict_get es uid of Some r \<Rightarrow> if r \<noteq> [] then Some (as_user w r) else None | None \<Rightarrow> None)"

lemma user_in_Some: "user_in w es uid = Some u \<longleftrightarrow> (\<exists>r. dict_get es uid = Some r \<and> r \<noteq> [] \<and> u = as_user w r)"
  by (auto simp: user_in_def split: option.splits)

lemma find_user_eq: "coherent w s \<Longrightarrow> find_user_by_id w uid s = (user_in w (users s) uid, snd (loaded w s))"
  using loaded_facts(1) [of w s] by (simp add: find_user_by_id_def case_prod_unfold Let_def user_in_def)

lemma resolve_session_eq:
  assumes "coherent w s" "token = Some tok" "tok \<noteq> []"
  shows "resolve_session w t token s =
    (case read_session (sess s) (sid_of w tok) of
       None \<Rightarrow> (None, s)
     | Some d \<Rightarrow>
         (case parse_time w (dict_get d ''expires'') of
            None \<Rightarrow> (None, s\<lparr>sess := dict_del (sid_of w tok) (sess s)\<rparr>)
          | Some e \<Rightarrow>
              if e \<le> now t then (None, s\<lparr>sess := dict_del (sid_of w tok) (sess s)\<rparr>)
              else (case user_in w (users s) (rec_str w d ''identity'') of
                      None \<Rightarrow> (None, snd (loaded w s))
                    | Some u \<Rightarrow>
                        if u_disabled u then (None, snd (loaded w s))
                        else (Some (session_view w (sid_of w tok) d),
                              (snd (loaded w s))\<lparr>sess := touch w t (sid_of w tok) d (session_view w (sid_of w tok) d) (sess s)\<rparr>))))"
  using assms loaded_facts(3) [OF assms(1)]
  by (simp add: resolve_session_def Let_def find_user_eq split: option.split)

lemma resolve_session_none: "token \<in> {None, Some []} \<Longrightarrow> resolve_session w t token s = (None, s)"
  by (auto simp: resolve_session_def)

lemma resolve_session_Some:
  assumes "coherent w s" and "resolve_session w t token s = (Some ls, s')"
  obtains tok d e r where "token = Some tok" "tok \<noteq> []" "read_session (sess s) (sid_of w tok) = Some d"
    "parse_time w (dict_get d ''expires'') = Some e" "now t < e" "d \<noteq> []"
    "dict_get (users s) (rec_str w d ''identity'') = Some r" "r \<noteq> []" "\<not> rec_flag r ''disabled''"
    "ls = session_view w (sid_of w tok) d"
    "s' = (snd (loaded w s))\<lparr>sess := touch w t (sid_of w tok) d ls (sess s)\<rparr>"
proof -
  obtain tok where tok: "token = Some tok" "tok \<noteq> []"
    using assms(2) by (metis insert_iff not_Some_eq option.distinct(1) prod.inject resolve_session_none)
  note eq = assms(2) [unfolded resolve_session_eq [OF assms(1) tok]]
  obtain d e where d: "read_session (sess s) (sid_of w tok) = Some d" "parse_time w (dict_get d ''expires'') = Some e"
    using eq by (auto split: option.splits)
  have "d \<noteq> []" using d(2) by (auto simp: parse_time_def)
  then show ?thesis
    using eq tok d that by (auto simp: user_in_Some as_user_def split: option.splits if_splits)
qed

lemma resolve_session_state:
  assumes "coherent w s"
  shows "users_file (snd (resolve_session w t token s)) = users_file s \<and> coherent w (snd (resolve_session w t token s))
    \<and> lims (snd (resolve_session w t token s)) = lims s \<and> id_fs (snd (resolve_session w t token s)) = id_fs s"
proof (cases "token \<in> {None, Some []}")
  case False
  then obtain tok where "token = Some tok" "tok \<noteq> []" by (cases token) auto
  with assms loaded_facts [OF assms] show ?thesis
    by (auto simp: resolve_session_eq split: option.splits)
qed (simp add: assms resolve_session_none)

lemma keeps_resolve:
  assumes "accounts_ok w s"
  shows "accounts_ok w (snd (resolve_session w t token s))"
proof (cases "token \<in> {None, Some []}")
  case False
  then obtain tok where tok: "token = Some tok" "tok \<noteq> []" by (cases token) auto
  have c: "coherent w s" and ok: "sessions_ok w (sess s)" using assms by (simp_all add: accounts_ok_def)
  have "sessions_ok w (sess (snd (resolve_session w t token s)))"
    using ok loaded_facts(3) [OF c]
    by (auto simp: resolve_session_eq [OF c tok] sessions_ok_del parse_time_def intro!: sessions_ok_touch
        split: option.splits)
  then show ?thesis
    using assms resolve_session_state [OF c, of t token] by (simp add: accounts_ok_def)
qed (simp add: assms resolve_session_none)

subsection \<open>Sequences of calls\<close>

text \<open>Everything that changes accounts or sessions, from the routes, the gate and the command line.\<close>

datatype id_op =
    SetDisabled string bool
  | CreateUser string string
  | SetPassword string string bool
  | Authenticate "string option" string string "string option"
  | CreateSession string
  | ResolveSession "string option"
  | RevokeSession string
  | RevokeSessionId string
  | RevokeIdentity string

fun id_step :: "site \<Rightarrow> tick \<times> id_op \<Rightarrow> id_state \<Rightarrow> id_state" where
  "id_step w (t, SetDisabled u b) s = snd (set_disabled w t u b s)"
| "id_step w (t, CreateUser e p) s = snd (create_user w t e p s)"
| "id_step w (t, SetPassword u p b) s = snd (set_password w t u p b s)"
| "id_step w (t, Authenticate ip e p g) s = snd (authenticate w t ip e p g s)"
| "id_step w (t, CreateSession u) s = s\<lparr>sess := snd (create_session w t u (sess s))\<rparr>"
| "id_step w (t, ResolveSession c) s = snd (resolve_session w t c s)"
| "id_step w (t, RevokeSession c) s = s\<lparr>sess := snd (revoke_session w c (sess s))\<rparr>"
| "id_step w (t, RevokeSessionId i) s = s\<lparr>sess := snd (revoke_session_id i (sess s))\<rparr>"
| "id_step w (t, RevokeIdentity u) s = revoke_all w u s"

interpretation account_ops: invariant_ops "id_step w" "accounts_ok w" for w
proof unfold_locales
  fix s and op :: "tick \<times> id_op"
  assume ok: "accounts_ok w s"
  obtain t o' where op: "op = (t, o')" by (cases op)
  show "accounts_ok w (id_step w op s)"
    using ok keeps_set_disabled keeps_create_user keeps_set_password keeps_authenticate keeps_resolve
    by (cases o')
      (auto simp: op accounts_ok_def sessions_ok_create sessions_ok_del sessions_ok_revoke revoke_session_def
        unlink_session_def revoke_session_id_def revoke_all_def)
qed

lemma set_password_keys: "fst ` set (users (snd (set_password w t uid pw rv s))) = fst ` set (users s)"
proof (cases "set_password w t uid pw rv s")
  case (Pair res s')
  show ?thesis
  proof (cases res)
    case (Inl e)
    then show ?thesis using Pair set_password_Inl [of w t uid pw rv s e s'] by simp
  next
    case (Inr x)
    then have p: "set_password w t uid pw rv s = (Inr x, s')" using Pair by simp
    show ?thesis
      by (rule set_password_Inr [OF p])
        (auto simp: Pair keys_set insert_absorb dest: map_of_SomeD intro: rev_image_eqI)
  qed
qed

lemma authenticate_keys:
  assumes "coherent w s" "\<not> check_signup_gate w gate"
  shows "fst ` set (users (snd (authenticate w t ip email pw gate s))) = fst ` set (users s)"
proof -
  obtain s1 where l: "loaded w s = (users s, s1)" "users_file s1 = users_file s" using loadedE [OF assms(1)] by metis
  define K where "K = (\<lambda>x. fst ` set (users x))"
  let ?s2 = "s1\<lparr>lims := note_login_success (derive_id (st_crypto w) email) (lims s1)\<rparr>"
  have K: "K s1 = K s" "K (x\<lparr>lims := l\<rparr>) = K x" "K (snd (set_password w t uid pw False x)) = K x" for x l uid
    by (simp_all add: K_def l(2) set_password_keys)
  have "K (snd (set_password w t (derive_id (st_crypto w) email) pw False ?s2)) = K s" by (simp add: K)
  then have "K (snd (authenticate w t ip email pw gate s)) = K s"
    using K(1,2) by (auto simp: authenticate_def l(1) Let_def assms(2) split: option.splits sum.splits prod.splits id_error.splits)
  then show ?thesis by (simp add: K_def)
qed

lemma authenticate_created_backoff:
  assumes "coherent w s" "authenticate w t ip email pw gate s = (Inr (u, True), s1)"
    and "dict_ok (users s)" "ids_match w (users s)"
  shows "lim_backoff (lims s1) = lim_backoff (lims s)"
proof -
  obtain l where l: "allow_signup ip (mono t) (lims s) = (True, l)"
    "create_user w t email pw ((snd (loaded w s))\<lparr>lims := l\<rparr>) = (Inr u, s1)"
    by (rule authenticate_created [OF assms(1,2)])
  have "lims s1 = l"
    by (rule create_user_Inr [OF l(2)]) (use assms(3,4) loaded_facts(2) [OF assms(1)] in simp_all)
  moreover have "lim_backoff l = lim_backoff (lims s)"
    using l(1) by (auto simp: allow_signup_def Let_def split: prod.splits)
  ultimately show ?thesis by simp
qed

subsection \<open>Properties\<close>

text \<open>C13: whatever is called in whatever order, the account table stays sound. If it is sound once, then
  after any sequence of sign-ins, sign-ups, password changes, suspensions, cookie checks and
  revocations the cache agrees with the file, every record carries the id it is filed under, no id
  occurs twice, both account quotas and both session quotas hold.\<close>

theorem accounts_stay_sound:
  assumes "accounts_ok w s"
  shows "accounts_ok w (fold (id_step w) ops s)"
  using assms by (rule account_ops.run_keeps)

definition demo_state :: id_state where
  "demo_state = \<lparr>users_file = None, users_cache = None, sess = [],
     lims = \<lparr>lim_login = LOGIN_LIMIT, lim_signup = SIGNUP_LIMIT, lim_backoff = LOGIN_BACKOFF,
             lim_visitor = VISITOR_REQUEST_LIMIT (st_os demo_site)\<rparr>,
     id_fs = \<lparr>fs_files = [], fs_dirs = []\<rparr>\<rparr>"

lemma demo_state_ok: "accounts_ok w demo_state"
  by (simp add: accounts_ok_def demo_state_def coherent_def users_coherent_def table_ok_def ids_match_def
      read_users_file_def unused_keys_def sessions_ok_def session_count_def)

theorem accounts_stay_sound_witness:
  "accounts_ok demo_site (fold (id_step demo_site)
     [(demo_tick, Authenticate None ''ada@example.org'' ''correct horse'' None), (demo_tick, CreateSession ''ada''),
      (demo_tick, SetDisabled ''ada'' True)] demo_state)"
  by (rule accounts_stay_sound [OF demo_state_ok])

text \<open>C10: a cookie is honoured only while everything behind it holds. If a cookie resolves, its hash
  names a readable session file that has not expired, the account it names is in the table and not
  suspended, and what is handed on is exactly what that file says. The account table and every other
  session are left alone.\<close>

theorem resolve_session_sound:
  assumes "coherent w s" and "resolve_session w t (Some tok) s = (Some ls, s')"
  shows "\<exists>d e r. read_session (sess s) (sid_of w tok) = Some d
      \<and> parse_time w (dict_get d ''expires'') = Some e \<and> now t < e
      \<and> dict_get (users s) (ls_identity ls) = Some r \<and> \<not> rec_flag r ''disabled''
      \<and> ls = session_view w (sid_of w tok) d \<and> users s' = users s
      \<and> (\<forall>sid. sid \<noteq> sid_of w tok \<longrightarrow> read_session (sess s') sid = read_session (sess s) sid)"
proof (rule resolve_session_Some [OF assms])
  fix tok' d e r
  assume f: "Some tok = Some tok'" "read_session (sess s) (sid_of w tok') = Some d"
    "parse_time w (dict_get d ''expires'') = Some e" "now t < e"
    "dict_get (users s) (rec_str w d ''identity'') = Some r" "\<not> rec_flag r ''disabled''"
    "ls = session_view w (sid_of w tok') d"
    "s' = (snd (loaded w s))\<lparr>sess := touch w t (sid_of w tok') d ls (sess s)\<rparr>"
  have "read_session (touch w t (sid_of w tok) d ls (sess s)) sid = read_session (sess s) sid"
    if "sid \<noteq> sid_of w tok" for sid
    using that by (simp add: touch_def read_session_def split: option.split)
  moreover have "ls_identity ls = rec_str w d ''identity''" using f(7) by (simp add: session_view_def)
  moreover have "users s' = users s" using f(8) loaded_facts(2) [OF assms(1)] by simp
  ultimately show ?thesis
    using f by - (rule exI [of _ d], rule exI [of _ e], rule exI [of _ r], simp)
qed

definition demo_users :: entries where
  "demo_users = [(''ada'', [(''id'', JStr ''ada''), (''email'', JStr ''ada@example.org''), (''pwd'', JStr ''x''),
     (''disabled'', JBool False), (''created'', JStr ''900'')])]"

definition demo_signed_in :: id_state where
  "demo_signed_in = demo_state
     \<lparr>users_file := Some ((1, 2), Parsed (objs_json demo_users)),
      sess := [(sid_of demo_site ''tok-1'', \<lparr>sf_text = Parsed (JObj (session_record demo_site demo_tick ''ada'')),
        sf_mtime = 1000\<rparr>)]\<rparr>"

lemma demo_signed_in_facts:
  "coherent demo_site demo_signed_in" "users demo_signed_in = demo_users"
  "read_session (sess demo_signed_in) (sid_of demo_site ''tok-1'') = Some (session_record demo_site demo_tick ''ada'')"
  "dict_ok (sess demo_signed_in)"
  by (simp_all add: demo_signed_in_def demo_state_def coherent_def users_coherent_def read_users_file_def
      objs_json_def dict_entries_objs read_session_def dict_ok_def)

lemma demo_expiry:
  "fromisoformat demo_site (isoformat demo_site (now demo_tick + int (session_ttl demo_site))) = Some 605800"
proof -
  have "session_ttl demo_site = 604800"
    by (simp add: session_ttl_def int_env_def site_env_def getenv_def demo_site_def DEFAULT_SESSION_TTL_def)
  then show ?thesis by (simp add: demo_site_def demo_tick_def)
qed

lemma demo_resolves: "\<exists>ls s'. resolve_session demo_site demo_tick (Some ''tok-1'') demo_signed_in = (Some ls, s')"
  by (simp add: resolve_session_eq [OF demo_signed_in_facts(1)] demo_signed_in_facts demo_expiry)
    (simp add: user_in_def demo_users_def as_user_def rec_flag_def demo_tick_def)

theorem resolve_session_sound_witness:
  "\<exists>ls s'. resolve_session demo_site demo_tick (Some ''tok-1'') demo_signed_in = (Some ls, s')
    \<and> ls = session_view demo_site (sid_of demo_site ''tok-1'') (session_record demo_site demo_tick ''ada'')
    \<and> users s' = demo_users"
proof -
  obtain ls s' where r: "resolve_session demo_site demo_tick (Some ''tok-1'') demo_signed_in = (Some ls, s')"
    using demo_resolves by blast
  show ?thesis
    using resolve_session_sound [OF demo_signed_in_facts(1) r] r
    by (simp only: demo_signed_in_facts(2,3) option.inject) blast
qed

lemma demo_second_session:
  "\<exists>tok ss'. create_session demo_site demo_tick ''ada'' (sess demo_signed_in) = (Inr tok, ss') \<and> tok \<noteq> []"
proof -
  have s: "sid_of demo_site ''tok-2'' \<noteq> sid_of demo_site ''tok-1''" by code_simp
  obtain Q where Q: "enforce_session_caps demo_site ''ada''
      (snd (purge_expired_sessions demo_site demo_tick (sess demo_signed_in))) = filter Q (sess demo_signed_in)"
    using enforce_session_caps_filter [of demo_site "''ada''"
        "snd (purge_expired_sessions demo_site demo_tick (sess demo_signed_in))"]
    by (auto simp: purge_expired_sessions_def)
  have "dict_get (filter Q (sess demo_signed_in)) (sid_of demo_site ''tok-2'') = None"
    using s by (simp add: demo_signed_in_def)
  moreover have "new_tokens demo_tick = [''tok-1'', ''tok-2'', ''tok-3'', ''tok-4'']" by (simp add: demo_tick_def)
  ultimately show ?thesis
    by (cases "dict_get (filter Q (sess demo_signed_in)) (sid_of demo_site ''tok-1'') = None")
      (simp_all add: create_session_def Let_def Q)
qed

text \<open>C14: the lifetime of a login is exactly the configured one. The cookie that \<open>create_session\<close> returns
  resolves to the account it was issued for until \<open>session_ttl\<close> seconds have passed, and to nobody from
  that second on.\<close>

theorem session_lifetime:
  assumes "coherent w s" and "create_session w t who (sess s) = (Inr tok, ss')" "tok \<noteq> []"
    and "dict_get (users s) who = Some r" "r \<noteq> []" "\<not> rec_flag r ''disabled''"
    and "fromisoformat w (isoformat w (now t + int (session_ttl w))) = Some (now t + int (session_ttl w))"
  shows "map_option ls_identity (fst (resolve_session w t' (Some tok) (s\<lparr>sess := ss'\<rparr>))) =
    (if now t' < now t + int (session_ttl w) then Some who else None)"
proof -
  obtain ss2 where "ss' = dict_set (sid_of w tok)
      \<lparr>sf_text = Parsed (JObj (session_record w t who)), sf_mtime = wall t\<rparr> ss2"
    by (rule create_session_parts [OF assms(2)]) blast
  then have "read_session ss' (sid_of w tok) = Some (session_record w t who)"
    by (simp add: read_session_def)
  moreover have "user_in w (users s) who = Some (as_user w r)" "\<not> u_disabled (as_user w r)"
    using assms(4,5,6) by (simp_all add: user_in_def as_user_def)
  moreover have "coherent w (s\<lparr>sess := ss'\<rparr>)" using assms(1) by simp
  ultimately show ?thesis
    using assms(3,7) by (simp add: resolve_session_eq session_view_def)
qed

theorem session_lifetime_witness:
  "\<exists>tok ss'. create_session demo_site demo_tick ''ada'' (sess demo_signed_in) = (Inr tok, ss')
    \<and> map_option ls_identity (fst (resolve_session demo_site (demo_tick\<lparr>now := 605799\<rparr>) (Some tok)
          (demo_signed_in\<lparr>sess := ss'\<rparr>))) = Some ''ada''
    \<and> fst (resolve_session demo_site (demo_tick\<lparr>now := 605800\<rparr>) (Some tok) (demo_signed_in\<lparr>sess := ss'\<rparr>)) = None"
proof -
  have ttl: "now demo_tick + int (session_ttl demo_site) = 605800"
    by (simp add: session_ttl_def int_env_def site_env_def getenv_def demo_site_def DEFAULT_SESSION_TTL_def demo_tick_def)
  have iso: "fromisoformat demo_site (isoformat demo_site (now demo_tick + int (session_ttl demo_site))) =
      Some (now demo_tick + int (session_ttl demo_site))"
    using demo_expiry ttl by simp
  obtain tok ss' where c: "create_session demo_site demo_tick ''ada'' (sess demo_signed_in) = (Inr tok, ss')" "tok \<noteq> []"
    using demo_second_session by blast
  have r: "\<exists>r. dict_get (users demo_signed_in) ''ada'' = Some r \<and> r \<noteq> [] \<and> \<not> rec_flag r ''disabled''"
    by (simp add: demo_signed_in_facts demo_users_def rec_flag_def)
  then obtain r where r: "dict_get (users demo_signed_in) ''ada'' = Some r" "r \<noteq> []" "\<not> rec_flag r ''disabled''" by blast
  note life = session_lifetime [OF demo_signed_in_facts(1) c r iso]
  show ?thesis
    using c(1) life [of "demo_tick\<lparr>now := 605799\<rparr>"] life [of "demo_tick\<lparr>now := 605800\<rparr>"] ttl by simp
qed

text \<open>C12: changing a password, or suspending an account, ends all of its logins and no other. Afterwards no
  cookie whatever resolves to that account, including the one that made the change; the session files of
  everybody else are as they were.\<close>

theorem credential_change_ends_logins:
  assumes "coherent w s" "dict_ok (sess s)"
    and "(\<exists>x. set_password w t uid pw True s = (Inr x, s1)) \<or> (\<exists>x. set_disabled w t uid True s = (Inr x, s1))"
  shows "map_option ls_identity (fst (resolve_session w t' token s1)) \<noteq> Some uid
    \<and> (\<forall>sid d. read_session (sess s) sid = Some d \<and> rec_str w d ''identity'' \<noteq> uid
         \<longrightarrow> read_session (sess s1) sid = Some d)"
proof -
  have s1: "sess s1 = snd (revoke_identity_sessions w uid (sess s))" "coherent w s1"
    using assms(1,3) by (auto elim: set_password_Inr set_disabled_Inr)
  note r = read_after_revoke [OF assms(2), of w uid]
  have "ls_identity ls \<noteq> uid" if "resolve_session w t' token s1 = (Some ls, s2)" for ls s2
    by (rule resolve_session_Some [OF s1(2) that])
      (auto simp: s1(1) r session_view_def split: option.splits if_splits)
  then have "map_option ls_identity (fst (resolve_session w t' token s1)) \<noteq> Some uid"
    by (cases "resolve_session w t' token s1") (auto simp: map_option_case split: option.splits)
  then show ?thesis by (simp add: s1(1) r)
qed

lemma demo_disable: "\<exists>u s1. set_disabled demo_site demo_tick ''ada'' True demo_signed_in = (Inr u, s1)"
proof -
  have "\<exists>r. dict_get (users demo_signed_in) ''ada'' = Some r" by (simp add: demo_signed_in_facts demo_users_def)
  then show ?thesis by (auto simp: set_disabled_def users_locked_def Let_def)
qed

theorem credential_change_ends_logins_witness:
  "\<exists>u s1. set_disabled demo_site demo_tick ''ada'' True demo_signed_in = (Inr u, s1)
    \<and> map_option ls_identity (fst (resolve_session demo_site demo_tick (Some ''tok-1'') s1)) \<noteq> Some ''ada''"
proof -
  obtain u s1 where d: "set_disabled demo_site demo_tick ''ada'' True demo_signed_in = (Inr u, s1)"
    using demo_disable by blast
  then have o: "(\<exists>x. set_password demo_site demo_tick ''ada'' [] True demo_signed_in = (Inr x, s1))
      \<or> (\<exists>x. set_disabled demo_site demo_tick ''ada'' True demo_signed_in = (Inr x, s1))" by blast
  show ?thesis
    using credential_change_ends_logins [OF demo_signed_in_facts(1,4) o] d by blast
qed

text \<open>C16: an account that was ever used is never evicted. Making room for a new account leaves every
  account that has data in the table with the record it had, and does not touch a session that names it.\<close>

theorem eviction_spares_used_accounts:
  assumes "table_ok w (id_fs s) (users s)" "dict_ok (sess s)" and "create_user w t email pw s = (Inr u, s')"
    and "dict_get (users s) k = Some r" "has_data w (id_fs s) k"
  shows "dict_get (users s') k = Some r
    \<and> (\<forall>sid d. read_session (sess s) sid = Some d \<and> rec_str w d ''identity'' = k
         \<longrightarrow> read_session (sess s') sid = Some d)"
proof -
  have t: "dict_ok (users s)" "ids_match w (users s)" using assms(1) by (simp_all add: table_ok_def)
  have "rec_str w r ''id'' = k" "k \<noteq> []" using t(2) assms(4,5) by (auto simp: ids_match_def has_data_def)
  then have ne: "r \<noteq> []" by (auto simp: rec_str_def)
  show ?thesis
  proof (rule create_user_Inr [OF assms(3) t])
    fix V enc
    assume n: "V \<subseteq> unused_keys w (id_fs s) (users s)" "dict_get (users s) (derive_id (st_crypto w) email) \<in> {None, Some []}"
      "users s' = dict_set (derive_id (st_crypto w) email) (new_record w t email enc)
         (filter (\<lambda>(k, r). k \<notin> V) (users s))"
      "sess s' = filter (\<lambda>(sid, f). \<not> (\<exists>v \<in> V. names_identity w v f)) (sess s)"
    have k: "k \<notin> V" "k \<noteq> derive_id (st_crypto w) email" using n(1,2) assms(4,5) ne by (auto simp: unused_keys_def)
    have "dict_get (filter (\<lambda>(k, r). k \<notin> V) (users s)) k = Some r"
      using t(1) assms(4) k(1) by (simp add: dict_get_in)
    moreover have "read_session (sess s') sid = Some d"
      if "read_session (sess s) sid = Some d" "rec_str w d ''identity'' = k" for sid d
      using that assms(2) k(1) unfolding n(4)
      by (auto simp: read_session_iff dict_ok_filter names_identity_def)
    ultimately show ?thesis using k(2) by (simp add: n(3))
  qed (simp add: assms(4))
qed

definition demo_used :: id_state where
  "demo_used = demo_signed_in\<lparr>id_fs := \<lparr>fs_files = [],
     fs_dirs = [([''/'', ''home'', ''ada'', ''.frago'', ''users'', ''ada''], 448)]\<rparr>\<rparr>"

lemma demo_caps: "account_caps demo_site = (500, 200)"
  by (simp add: account_caps_def Let_def int_env_def site_env_def getenv_def demo_site_def
      DEFAULT_TOTAL_CAP_def DEFAULT_UNUSED_CAP_def)

lemma demo_used_facts:
  "has_data demo_site (id_fs demo_used) ''ada''" "users demo_used = demo_users" "dict_ok (sess demo_used)"
  "coherent demo_site demo_used" "table_ok demo_site (id_fs demo_used) (users demo_used)"
proof -
  show hd: "has_data demo_site (id_fs demo_used) ''ada''"
    by (simp add: demo_used_def has_data_def is_dir_def id_user_state_dir_def demo_site_def env_path_def getenv_def)
      code_simp
  show u: "users demo_used = demo_users" "dict_ok (sess demo_used)" "coherent demo_site demo_used"
    using demo_signed_in_facts by (simp_all add: demo_used_def coherent_def)
  show "table_ok demo_site (id_fs demo_used) (users demo_used)"
  proof -
    have "unused_keys demo_site (id_fs demo_used) demo_users = {}" using hd by (auto simp: unused_keys_def demo_users_def)
    then show ?thesis
      by (simp add: u table_ok_def demo_caps) (auto simp: demo_users_def dict_ok_def ids_match_def rec_str_def py_str_def)
  qed
qed

lemma demo_unknown: "dict_get demo_users (derive_id (st_crypto demo_site) ''bob@example.org'') = None"
proof -
  have "derive_id (st_crypto demo_site) ''bob@example.org'' \<noteq> ''ada''" by code_simp
  then show ?thesis by (simp add: demo_users_def)
qed

lemma demo_sign_up:
  assumes "users s = demo_users"
  shows "\<exists>u s'. create_user demo_site demo_tick ''bob@example.org'' ''correct horse'' s = (Inr u, s')"
proof -
  have e: "email_problem (st_crypto demo_site) ''bob@example.org'' = None"
    "password_problem ''correct horse'' = None" by (code_simp, code_simp)
  have h: "\<exists>enc. hash_password (st_crypto demo_site) (new_salt demo_tick) ''correct horse'' SCRYPT_N SCRYPT_R SCRYPT_P = Some enc"
    by (simp add: hash_password_def demo_site_def demo_crypto_def)
  have "length (unused_records demo_site (id_fs s) demo_users) \<le> 1"
    by (simp add: unused_records_def demo_users_def)
  then have m: "make_room demo_site demo_users s = (Inr demo_users, s)"
    by (simp add: make_room_def demo_caps Let_def demo_users_def)
  show ?thesis
    using e h demo_unknown by (auto simp: create_user_def users_locked_def Let_def assms m)
qed

theorem eviction_spares_used_accounts_witness:
  "\<exists>u s'. create_user demo_site demo_tick ''bob@example.org'' ''correct horse'' demo_used = (Inr u, s')
    \<and> dict_get (users s') ''ada'' = dict_get demo_users ''ada''"
proof -
  obtain u s' where c: "create_user demo_site demo_tick ''bob@example.org'' ''correct horse'' demo_used = (Inr u, s')"
    using demo_sign_up [OF demo_used_facts(2)] by blast
  obtain r where r: "dict_get (users demo_used) ''ada'' = Some r"
    by (simp add: demo_used_facts(2) demo_users_def)
  show ?thesis
    using eviction_spares_used_accounts [OF demo_used_facts(5,3) c r demo_used_facts(1)] c r
    by (simp add: demo_used_facts(2))
qed

text \<open>C11: nobody is signed in without having been checked. \<open>authenticate\<close> answers \<open>ok\<close> only for an account
  that exists, is not suspended, is not inside a backoff delay, and whose stored hash the password
  matches; it answers \<open>created\<close> only if there was no such account, the sign-up passphrase rule was
  satisfied and the sign-up limiter let the address through, and then the password obeys the rules.\<close>

theorem sign_in_sound:
  assumes "accounts_ok w s" and "authenticate w t ip email pw gate s = (Inr (u, created), s')"
  defines "uid \<equiv> derive_id (st_crypto w) email"
  shows "if created
    then dict_get (users s) uid = None \<and> check_signup_gate w gate
      \<and> fst (allow_signup ip (mono t) (lims s)) \<and> password_problem pw = None
      \<and> (\<exists>enc. dict_get (users s') uid = Some (new_record w t email enc))
    else \<exists>r. dict_get (users s) uid = Some r \<and> \<not> rec_flag r ''disabled''
      \<and> login_backoff_remaining uid (mono t) (lims s) \<le> 0
      \<and> verify_password (st_crypto w) pw (rec_str w r ''pwd'') \<and> u = as_user w r"
proof -
  have c: "coherent w s" and t: "dict_ok (users s)" "ids_match w (users s)"
    using assms(1) by (simp_all add: accounts_ok_def table_ok_def)
  show ?thesis
  proof (cases created)
    case True
    with assms(2) have a: "authenticate w t ip email pw gate s = (Inr (u, True), s')" by simp
    obtain l where l: "dict_get (users s) uid = None" "check_signup_gate w gate"
      "allow_signup ip (mono t) (lims s) = (True, l)"
      "create_user w t email pw ((snd (loaded w s))\<lparr>lims := l\<rparr>) = (Inr u, s')"
      unfolding uid_def by (rule authenticate_created [OF c a])
    have us: "users_file (snd (loaded w s)) = users_file s" using loaded_facts(2) [OF c] by simp
    have "\<exists>enc. password_problem pw = None \<and> dict_get (users s') uid = Some (new_record w t email enc)"
      by (rule create_user_Inr [OF l(4)]) (use l(1) t in \<open>auto simp: us uid_def\<close>)
    with l True show ?thesis by auto
  next
    case False
    with assms(2) have a: "authenticate w t ip email pw gate s = (Inr (u, False), s')" by simp
    show ?thesis unfolding uid_def using False authenticate_ok [OF c a] by auto
  qed
qed

lemma demo_used_ok: "accounts_ok demo_site demo_used"
proof -
  have "session_count P (sess demo_used) \<le> 1" for P
    by (simp add: session_count_def demo_used_def demo_signed_in_def)
  then have "session_count P (sess demo_used) \<le> 10" "session_count P (sess demo_used) \<le> 5000" for P
    by (rule le_trans, simp)+
  moreover have "int_env demo_site ''FRAGO_MAX_SESSIONS_PER_USER'' DEFAULT_SESSIONS_PER_USER = 10"
    "int_env demo_site ''FRAGO_MAX_SESSIONS'' DEFAULT_TOTAL_SESSIONS = 5000"
    by (simp_all add: int_env_def site_env_def getenv_def demo_site_def DEFAULT_SESSIONS_PER_USER_def DEFAULT_TOTAL_SESSIONS_def)
  ultimately show ?thesis
    using demo_used_facts by (simp add: accounts_ok_def sessions_ok_def)
qed

lemma demo_open: "signup_gate demo_site = None" "ip_rate_limiting_available demo_site" "check_signup_gate demo_site None"
proof -
  show "signup_gate demo_site = None" "ip_rate_limiting_available demo_site"
    by (simp_all add: signup_gate_def site_env_def getenv_def demo_site_def ip_rate_limiting_available_def
        peer_trust_disabled_def enabled_def)
  then show "check_signup_gate demo_site None" by (simp add: check_signup_gate_iff)
qed

lemma demo_authenticate:
  "\<exists>u s'. authenticate demo_site demo_tick None ''bob@example.org'' ''correct horse'' None demo_used = (Inr (u, True), s')"
proof -
  obtain s1 where l: "loaded demo_site demo_used = (demo_users, s1)" "users_file s1 = users_file demo_used"
    using loadedE [OF demo_used_facts(4)] demo_used_facts(2) by metis
  have e: "email_problem (st_crypto demo_site) ''bob@example.org'' = None" by code_simp
  obtain u s' where "create_user demo_site demo_tick ''bob@example.org'' ''correct horse''
      (s1\<lparr>lims := snd (allow_signup None (mono demo_tick) (lims s1))\<rparr>) = (Inr u, s')"
    using demo_sign_up [of "s1\<lparr>lims := snd (allow_signup None (mono demo_tick) (lims s1))\<rparr>"] l(2) demo_used_facts(2)
    by auto
  moreover have "fst (allow_signup None (mono demo_tick) (lims s1))" by (simp add: allow_signup_def rl_allow_def)
  ultimately show ?thesis
    using e demo_unknown demo_open by (simp add: authenticate_def l(1) Let_def case_prod_unfold)
qed

theorem sign_in_sound_witness:
  "\<exists>u s'. authenticate demo_site demo_tick None ''bob@example.org'' ''correct horse'' None demo_used = (Inr (u, True), s')
    \<and> check_signup_gate demo_site None
    \<and> (\<exists>enc. dict_get (users s') (derive_id (st_crypto demo_site) ''bob@example.org'')
              = Some (new_record demo_site demo_tick ''bob@example.org'' enc))"
proof -
  obtain u s' where a: "authenticate demo_site demo_tick None ''bob@example.org'' ''correct horse'' None demo_used
      = (Inr (u, True), s')" using demo_authenticate by blast
  show ?thesis using sign_in_sound [OF demo_used_ok a] a by simp
qed

text \<open>a proxy that was not named closes sign-up. When the server is behind a proxy, no proxy address is
  trusted and no passphrase is set, no call of \<open>authenticate\<close> creates an account, whoever asks and
  whatever they send; existing accounts keep working.\<close>

theorem unnamed_proxy_closes_sign_up:
  assumes "accounts_ok w s" "peer_trust_disabled w" "trusted_proxies w = []" "signup_gate w = None"
  shows "fst (authenticate w t ip email pw gate s) \<noteq> Inr (u, True)
    \<and> fst ` set (users (snd (authenticate w t ip email pw gate s))) = fst ` set (users s)"
proof -
  have c: "coherent w s" using assms(1) by (simp add: accounts_ok_def)
  have g: "\<not> check_signup_gate w gate"
    using assms(2-4) by (simp add: check_signup_gate_iff ip_rate_limiting_available_def)
  have "fst (authenticate w t ip email pw gate s) \<noteq> Inr (u, True)"
  proof
    assume "fst (authenticate w t ip email pw gate s) = Inr (u, True)"
    then have "authenticate w t ip email pw gate s = (Inr (u, True), snd (authenticate w t ip email pw gate s))"
      by (simp add: prod_eq_iff)
    from authenticate_created [OF c this] g show False by blast
  qed
  then show ?thesis using authenticate_keys [OF c g] by simp
qed

definition proxied_site :: site where
  "proxied_site = demo_site\<lparr>st_os := (st_os demo_site)\<lparr>environ := [(''FRAGO_BEHIND_PROXY'', ''on'')]\<rparr>\<rparr>"

lemma proxied_facts: "peer_trust_disabled proxied_site" "trusted_proxies proxied_site = []" "signup_gate proxied_site = None"
  by (code_simp, code_simp, code_simp)

theorem unnamed_proxy_closes_sign_up_witness:
  "fst (authenticate proxied_site demo_tick None ''bob@example.org'' ''correct horse'' (Some ''please'') demo_state)
    \<noteq> Inr (as_user proxied_site [], True)"
  using unnamed_proxy_closes_sign_up [OF demo_state_ok proxied_facts] by blast

text \<open>C15: who signed up can sign in. After an account has been created with an address and a password, the
  same address and password are accepted from then on, as an existing account, on any machine and with
  any passphrase field, as long as no backoff delay is running. (scrypt returns as many bytes as were
  asked for.)\<close>

theorem sign_up_then_sign_in:
  assumes "accounts_ok w s" and "authenticate w t ip email pw gate s = (Inr (u, True), s1)"
    and "\<And>salt d. scrypt (st_crypto w) (utf8 pw) salt SCRYPT_N SCRYPT_R SCRYPT_P SCRYPT_DKLEN = Some d
           \<Longrightarrow> length d = SCRYPT_DKLEN"
    and "login_backoff_remaining (derive_id (st_crypto w) email) (mono t2) (lims s1) \<le> 0"
  shows "fst (authenticate w t2 ip2 email pw gate2 s1) = Inr (u, False)"
proof -
  have c: "coherent w s" and t: "dict_ok (users s)" "ids_match w (users s)"
    using assms(1) by (simp_all add: accounts_ok_def table_ok_def)
  let ?uid = "derive_id (st_crypto w) email"
  obtain l where l: "dict_get (users s) ?uid = None"
    "create_user w t email pw ((snd (loaded w s))\<lparr>lims := l\<rparr>) = (Inr u, s1)"
    by (rule authenticate_created [OF c assms(2)])
  have us: "users_file (snd (loaded w s)) = users_file s" using loaded_facts(2) [OF c] by simp
  obtain enc where enc: "dict_get (users s1) ?uid = Some (new_record w t email enc)"
    "u = as_user w (new_record w t email enc)" "email_problem (st_crypto w) email = None" "password_problem pw = None"
    "hash_password (st_crypto w) (new_salt t) pw SCRYPT_N SCRYPT_R SCRYPT_P = Some enc"
    by (rule create_user_Inr [OF l(2)]) (use l(1) t in \<open>auto simp: us\<close>)
  have "coherent w s1"
    using keeps_authenticate [OF assms(1), of t ip email pw gate] assms(2) by (simp add: accounts_ok_def)
  then obtain s2 where s2: "loaded w s1 = (users s1, s2)" "lims s2 = lims s1" using loadedE by metis
  have "length pw \<le> MAX_PASSWORD_LENGTH" using enc(4) by (auto simp: password_problem_def split: if_splits)
  then have v: "verify_password (st_crypto w) pw enc \<and> \<not> needs_rehash enc"
    using hash_verify_facts [OF enc(5) assms(3)]
    by (simp add: SCRYPT_N_def SCRYPT_R_def SCRYPT_P_def)
  have r: "rec_str w (new_record w t email enc) ''pwd'' = enc" "\<not> rec_flag (new_record w t email enc) ''disabled''"
    by (simp_all add: new_record_def rec_str_def py_str_def rec_flag_def)
  show ?thesis
    using enc(1,2,3) v r assms(4) by (simp add: authenticate_def s2 Let_def)
qed

theorem sign_up_then_sign_in_witness:
  "\<exists>u s1. authenticate demo_site demo_tick None ''bob@example.org'' ''correct horse'' None demo_used = (Inr (u, True), s1)
    \<and> fst (authenticate demo_site (demo_tick\<lparr>mono := 60\<rparr>) None ''bob@example.org'' ''correct horse'' None s1) = Inr (u, False)"
proof -
  obtain u s1 where a: "authenticate demo_site demo_tick None ''bob@example.org'' ''correct horse'' None demo_used
      = (Inr (u, True), s1)" using demo_authenticate by blast
  have k: "length d = SCRYPT_DKLEN"
    if "scrypt (st_crypto demo_site) (utf8 ''correct horse'') salt SCRYPT_N SCRYPT_R SCRYPT_P SCRYPT_DKLEN = Some d" for salt d
    using that by (auto simp: demo_site_def demo_crypto_def)
  have "lim_backoff (lims demo_used) = LOGIN_BACKOFF"
    by (simp add: demo_used_def demo_signed_in_def demo_state_def)
  then have "lim_backoff (lims s1) = LOGIN_BACKOFF"
    using authenticate_created_backoff [OF demo_used_facts(4) a] demo_used_ok by (simp add: accounts_ok_def table_ok_def)
  then have b: "login_backoff_remaining (derive_id (st_crypto demo_site) ''bob@example.org'') (mono (demo_tick\<lparr>mono := 60\<rparr>)) (lims s1) \<le> 0"
    by (simp add: login_backoff_remaining_def bo_remaining_def bo_get_def LOGIN_BACKOFF_def new_backoff_def)
  have "fst (authenticate demo_site (demo_tick\<lparr>mono := 60\<rparr>) None ''bob@example.org'' ''correct horse'' None s1) = Inr (u, False)"
    by (rule sign_up_then_sign_in [OF demo_used_ok a _ b]) (rule k)
  then show ?thesis using a by blast
qed

end
