(* ===== verification/Publish.thy ===== *)
theory Publish
  imports App_State
begin

text \<open>
  \<open>recipes/publish.py\<close>: the list of recipe pages exposed beyond this machine. An entry is a JSON
  object as found in the file; \<open>mode_of\<close>, \<open>allow_of\<close> and \<open>runnable_of\<close> read it so that every
  unreadable field ends up closed, and \<open>published_entry\<close> hands out a normalised copy.
  The list is read through a cache keyed on the file's modification time and size.
\<close>

definition MODE_PUBLIC :: string where "MODE_PUBLIC = ''public''"
definition MODE_IDENTITY :: string where "MODE_IDENTITY = ''identity''"
definition MODES :: "string list" where "MODES = [MODE_PUBLIC, MODE_IDENTITY]"

lemma modes_distinct [simp]: "MODE_PUBLIC \<noteq> MODE_IDENTITY" "MODE_IDENTITY \<noteq> MODE_PUBLIC"
  by (simp_all add: MODE_PUBLIC_def MODE_IDENTITY_def)

definition published_path :: "os_env \<Rightarrow> path" where
  "published_path os = env_path os ''FRAGO_PUBLISHED_FILE'' (home_dir os @ [''.frago'', ''published.json''])"

text \<open>What the file says, without the cache.\<close>

definition read_published :: "stamped_file \<Rightarrow> entries" where
  "read_published f =
     (case f of Some (st, Parsed (JObj d)) \<Rightarrow> dict_entries d | _ \<Rightarrow> [])"

text \<open>\<open>load\<close>: the cache is the pair of stamp and entries, or None.\<close>

definition load_published ::
    "stamped_file \<Rightarrow> (stamp \<times> entries) option \<Rightarrow> entries \<times> (stamp \<times> entries) option" where
  "load_published f cache =
     (case f of
        None \<Rightarrow> ([], None)
      | Some (st, text) \<Rightarrow>
          (case cache of
             Some (st', es) \<Rightarrow>
               if st' = st then (es, cache)
               else (case text of
                       Parsed (JObj d) \<Rightarrow> (dict_entries d, Some (st, dict_entries d))
                     | _ \<Rightarrow> ([], cache))
           | None \<Rightarrow>
               (case text of
                  Parsed (JObj d) \<Rightarrow> (dict_entries d, Some (st, dict_entries d))
                | _ \<Rightarrow> ([], cache))))"

definition cache_coherent :: "stamped_file \<Rightarrow> (stamp \<times> entries) option \<Rightarrow> bool" where
  "cache_coherent f cache \<longleftrightarrow>
     (case (f, cache) of
        (Some (st, text), Some (st', es)) \<Rightarrow> st = st' \<longrightarrow> es = read_published f
      | _ \<Rightarrow> True)"

interpretation published_list: cached_table read_published load_published cache_coherent
  by unfold_locales
    (auto simp: load_published_def read_published_def cache_coherent_def
      split: option.splits prod.splits file_text.splits json.splits if_splits)

subsection \<open>Reading one entry\<close>

definition mode_of :: "entry \<Rightarrow> string" where
  "mode_of e =
     (case dict_get e ''mode'' of
        None \<Rightarrow> MODE_PUBLIC
      | Some (JStr m) \<Rightarrow> if m \<in> set MODES then m else MODE_IDENTITY
      | Some _ \<Rightarrow> MODE_IDENTITY)"

fun nonempty_strs :: "json list \<Rightarrow> string list option" where
  "nonempty_strs [] = Some []"
| "nonempty_strs (JStr s # xs) =
     (if s = [] then None else map_option ((#) s) (nonempty_strs xs))"
| "nonempty_strs (_ # xs) = None"

definition allow_of :: "entry \<Rightarrow> string list option" where
  "allow_of e =
     (case dict_get e ''allow'' of
        None \<Rightarrow> None
      | Some JNull \<Rightarrow> None
      | Some (JList xs) \<Rightarrow> (case nonempty_strs xs of Some l \<Rightarrow> Some l | None \<Rightarrow> Some [])
      | Some _ \<Rightarrow> Some [])"

definition runnable_of :: "entry \<Rightarrow> string \<Rightarrow> bool" where
  "runnable_of e mode \<longleftrightarrow> dict_get e ''runnable'' = Some (JBool True) \<and> mode = MODE_IDENTITY"

definition allows :: "entry option \<Rightarrow> string option \<Rightarrow> bool" where
  "allows entry identity =
     (case entry of
        None \<Rightarrow> False
      | Some e \<Rightarrow>
          if mode_of e \<noteq> MODE_IDENTITY then False
          else (case identity of
                  None \<Rightarrow> False
                | Some who \<Rightarrow>
                    if who = [] then False
                    else (case allow_of e of None \<Rightarrow> True | Some l \<Rightarrow> who \<in> set l)))"

definition allow_json :: "string list option \<Rightarrow> json" where
  "allow_json a = (case a of None \<Rightarrow> JNull | Some l \<Rightarrow> JList (map JStr l))"

definition published_entry :: "entries \<Rightarrow> string \<Rightarrow> entry option" where
  "published_entry es name =
     (case validate_names name DEFAULT_SLOT of
        Inl _ \<Rightarrow> None
      | Inr _ \<Rightarrow>
          (case dict_get es name of
             None \<Rightarrow> None
           | Some e \<Rightarrow>
               if e = [] then None
               else let mode = mode_of e
                    in Some [(''slot'', JStr (case dict_get e ''slot'' of
                                 Some (JStr s) \<Rightarrow> if s \<noteq> [] then s else DEFAULT_SLOT
                               | _ \<Rightarrow> DEFAULT_SLOT)),
                             (''mode'', JStr mode),
                             (''since'', case dict_get e ''since'' of Some j \<Rightarrow> j | None \<Rightarrow> JNull),
                             (''allow'', allow_json (allow_of e)),
                             (''runnable'', JBool (runnable_of e mode))]))"

text \<open>\<open>entry["slot"]\<close>, \<open>entry["mode"]\<close> and \<open>entry.get("runnable")\<close> on a normalised entry.\<close>

definition entry_str :: "entry \<Rightarrow> string \<Rightarrow> string" where
  "entry_str e k = (case dict_get e k of Some (JStr s) \<Rightarrow> s | _ \<Rightarrow> [])"

definition entry_runnable :: "entry \<Rightarrow> bool" where
  "entry_runnable e = (dict_get e ''runnable'' = Some (JBool True))"

definition published_slot :: "entries \<Rightarrow> string \<Rightarrow> string option" where
  "published_slot es name =
     (case published_entry es name of
        None \<Rightarrow> None
      | Some e \<Rightarrow> if entry_str e ''mode'' \<noteq> MODE_PUBLIC then None else Some (entry_str e ''slot''))"

definition is_published :: "entries \<Rightarrow> string \<Rightarrow> string \<Rightarrow> bool" where
  "is_published es name slot = (published_slot es name = Some slot)"

subsection \<open>Changing the list\<close>

datatype publish_error =
    BadName slot_error
  | UnknownMode string
  | BadAllow
  | EmptyAllow
  | AllowNeedsIdentity
  | RunnableNeedsIdentity

record pub_state =
  pub_file :: stamped_file
  pub_cache :: "(stamp \<times> entries) option"

text \<open>\<open>_save\<close>: the new file gets a new stamp, and the cache is dropped.\<close>

definition save_published :: "stamp \<Rightarrow> entries \<Rightarrow> pub_state \<Rightarrow> pub_state" where
  "save_published st es s =
     \<lparr>pub_file = Some (st, Parsed (objs_json es)), pub_cache = None\<rparr>"

definition publish_page ::
    "string \<Rightarrow> stamp \<Rightarrow> string \<Rightarrow> string \<Rightarrow> string \<Rightarrow> string list option \<Rightarrow> bool \<Rightarrow> pub_state \<Rightarrow>
     publish_error + entry \<times> pub_state" where
  "publish_page now st name slot mode allow runnable s =
     (case validate_names name slot of
        Inl e \<Rightarrow> Inl (BadName e)
      | Inr _ \<Rightarrow>
          if mode \<notin> set MODES then Inl (UnknownMode mode)
          else if allow \<noteq> None \<and> [] \<in> set (the allow) then Inl BadAllow
          else if allow = Some [] then Inl EmptyAllow
          else if allow \<noteq> None \<and> mode \<noteq> MODE_IDENTITY then Inl AllowNeedsIdentity
          else if runnable \<and> mode \<noteq> MODE_IDENTITY then Inl RunnableNeedsIdentity
          else let es = fst (load_published (pub_file s) (pub_cache s));
                   e = [(''slot'', JStr slot), (''mode'', JStr mode), (''since'', JStr now),
                        (''allow'', allow_json allow), (''runnable'', JBool runnable)]
               in Inr (e, save_published st (dict_set name e es) s))"

definition unpublish :: "stamp \<Rightarrow> string \<Rightarrow> pub_state \<Rightarrow> bool \<times> pub_state" where
  "unpublish st name s =
     (let (es, c) = load_published (pub_file s) (pub_cache s)
      in if dict_get es name = None then (False, s\<lparr>pub_cache := c\<rparr>)
         else (True, save_published st (dict_del name es) s))"

definition public_view :: "(string, json) dict \<Rightarrow> (string, json) dict" where
  "public_view state = (case dict_get state ''public'' of Some (JObj d) \<Rightarrow> d | _ \<Rightarrow> [])"

subsection \<open>Normalised entries\<close>

lemma nonempty_strs_map: "[] \<notin> set l \<Longrightarrow> nonempty_strs (map JStr l) = Some l"
  by (induction l) auto

lemma nonempty_strs_Some: "nonempty_strs xs = Some l \<Longrightarrow> xs = map JStr l \<and> [] \<notin> set l"
  by (induction xs arbitrary: l rule: nonempty_strs.induct) (auto split: if_splits)

lemma mode_of_in_MODES [simp]: "mode_of e \<in> set MODES"
  by (auto simp: mode_of_def MODES_def split: option.splits json.splits)

lemma allow_of_nonempty: "allow_of e = Some l \<Longrightarrow> [] \<notin> set l"
  by (auto simp: allow_of_def split: option.splits json.splits dest: nonempty_strs_Some)

lemma published_entry_Some:
  assumes "published_entry es n = Some e"
  obtains raw where "dict_get es n = Some raw" "raw \<noteq> []" "valid_value n"
    "mode_of e = mode_of raw" "allow_of e = allow_of raw" "entry_str e ''mode'' = mode_of raw"
    "entry_runnable e = runnable_of raw (mode_of raw)" "entry_str e ''slot'' \<noteq> []"
proof -
  obtain raw where raw: "dict_get es n = Some raw" "raw \<noteq> []" "valid_value n"
    using assms by (auto simp: published_entry_def validate_names_Inr split: sum.splits option.splits if_splits)
  have e: "dict_get e ''mode'' = Some (JStr (mode_of raw))"
    "dict_get e ''allow'' = Some (allow_json (allow_of raw))"
    "dict_get e ''runnable'' = Some (JBool (runnable_of raw (mode_of raw)))"
    "dict_get e ''slot'' = Some (JStr (case dict_get raw ''slot'' of
       Some (JStr s) \<Rightarrow> if s \<noteq> [] then s else DEFAULT_SLOT | _ \<Rightarrow> DEFAULT_SLOT))"
    using assms raw by (auto simp: published_entry_def Let_def split: sum.splits)
  have a: "allow_of e = allow_of raw"
    by (auto simp: allow_of_def [of e] e(2) allow_json_def nonempty_strs_map allow_of_nonempty split: option.splits)
  have "mode_of e = mode_of raw"
    by (simp add: mode_of_def [of e] e(1))
  with that raw e a show ?thesis
    by (auto simp: entry_str_def entry_runnable_def DEFAULT_SLOT_def split: option.splits json.splits)
qed

lemma read_save_published: "read_published (pub_file (save_published st es s)) = es"
  by (simp add: save_published_def read_published_def objs_json_def dict_entries_objs)

lemma coherent_save_published:
  "cache_coherent (pub_file (save_published st es s)) (pub_cache (save_published st es s))"
  by (simp add: save_published_def cache_coherent_def)

lemma published_entry_cong: "dict_get es n = dict_get es' n \<Longrightarrow> published_entry es n = published_entry es' n"
  by (cases "validate_names n DEFAULT_SLOT") (simp_all add: published_entry_def)

lemma published_allows:
  assumes "published_entry es n = Some e"
  shows "allows (Some e) v = allows (dict_get es n) v"
proof -
  obtain raw where "dict_get es n = Some raw" "mode_of e = mode_of raw" "allow_of e = allow_of raw"
    by (rule published_entry_Some [OF assms])
  then show ?thesis by (simp add: allows_def split: option.split)
qed

subsection \<open>What the gate relies on\<close>

text \<open>The contract of the list for its clients: modes are one of the two, a runnable page is an
  identity page, and only an identity page admits anybody by name.\<close>

locale page_directory =
  fixes entry_of :: "string \<Rightarrow> entry option"
  assumes mode_known: "entry_of n = Some e \<Longrightarrow> entry_str e ''mode'' \<in> {MODE_PUBLIC, MODE_IDENTITY}"
    and mode_read: "entry_of n = Some e \<Longrightarrow> mode_of e = entry_str e ''mode''"
    and slot_given: "entry_of n = Some e \<Longrightarrow> entry_str e ''slot'' \<noteq> []"
    and runnable_identity: "entry_of n = Some e \<Longrightarrow> entry_runnable e \<Longrightarrow> entry_str e ''mode'' = MODE_IDENTITY"
    and name_checked: "entry_of n = Some e \<Longrightarrow> valid_value n"

interpretation exposed: page_directory "published_entry es"
proof unfold_locales
  fix n e assume e: "published_entry es n = Some e"
  obtain raw where "mode_of e = mode_of raw" "entry_str e ''mode'' = mode_of raw"
    "entry_runnable e = runnable_of raw (mode_of raw)" "entry_str e ''slot'' \<noteq> []" "valid_value n"
    using published_entry_Some [OF e] by metis
  then show "entry_str e ''mode'' \<in> {MODE_PUBLIC, MODE_IDENTITY}" "mode_of e = entry_str e ''mode''"
    "entry_str e ''slot'' \<noteq> []" "valid_value n"
    "entry_runnable e \<Longrightarrow> entry_str e ''mode'' = MODE_IDENTITY"
    using mode_of_in_MODES [of raw] by (auto simp: MODES_def runnable_of_def)
qed

subsection \<open>Properties\<close>

text \<open>the normalised entry answers exactly as the raw one. Whoever may open the page by the raw
  entry may open it by the copy that \<open>published_entry\<close> hands out, and the copy is sane: its mode is one
  of the two, its slot is not empty, and a runnable page is an identity page.\<close>

theorem published_entry_faithful:
  assumes "published_entry es n = Some e"
  shows "allows (Some e) who = allows (dict_get es n) who
    \<and> entry_str e ''mode'' \<in> set MODES \<and> entry_str e ''slot'' \<noteq> []
    \<and> (entry_runnable e \<longrightarrow> entry_str e ''mode'' = MODE_IDENTITY)"
  using exposed.mode_known [OF assms] exposed.slot_given [OF assms] exposed.runnable_identity [OF assms]
  by (auto simp: published_allows [OF assms] MODES_def)

definition demo_entries :: entries where
  "demo_entries = [(''board'', [(''mode'', JStr ''public'')]),
     (''desk'', [(''mode'', JStr ''identity''), (''allow'', JList [JStr ''a1b2'']), (''runnable'', JBool True)]),
     (''odd'', [(''mode'', JStr ''pubilc''), (''allow'', JList [JStr ''a1b2'', JNum 3])]),
     (''frago_login_portal'', [(''slot'', JStr ''default'')])]"

theorem published_entry_faithful_witness:
  "\<exists>e. published_entry demo_entries ''desk'' = Some e
    \<and> allows (Some e) (Some ''a1b2'') = allows (dict_get demo_entries ''desk'') (Some ''a1b2'')"
proof -
  have "\<exists>e. published_entry demo_entries ''desk'' = Some e"
    by (rule exI) code_simp
  then show ?thesis using published_entry_faithful by blast
qed

text \<open>an entry whose intent cannot be read is closed. A \<open>mode\<close> that is present but not exactly
  \<open>public\<close> serves no anonymous visitor, and an \<open>allow\<close> that is present, not null and not a list of
  non-empty account ids admits nobody; nothing of a broken list is salvaged.\<close>

theorem unreadable_entry_closed:
  assumes "dict_get es n = Some e"
  shows "(dict_get e ''mode'' \<notin> {None, Some (JStr MODE_PUBLIC)} \<longrightarrow> published_slot es n = None)
    \<and> (dict_get e ''allow'' \<noteq> None \<and> dict_get e ''allow'' \<noteq> Some JNull
        \<and> (\<nexists>l. dict_get e ''allow'' = Some (JList (map JStr l)) \<and> [] \<notin> set l)
       \<longrightarrow> \<not> allows (Some e) who)"
proof -
  have m: "dict_get e ''mode'' \<notin> {None, Some (JStr MODE_PUBLIC)} \<Longrightarrow> mode_of e = MODE_IDENTITY"
    by (auto simp: mode_of_def MODES_def split: option.splits json.splits)
  have "published_slot es n = None" if "dict_get e ''mode'' \<notin> {None, Some (JStr MODE_PUBLIC)}"
  proof (cases "published_entry es n")
    case (Some f)
    then have "entry_str f ''mode'' = mode_of e"
      using published_entry_Some [OF Some] assms by (metis option.inject)
    with Some m [OF that] show ?thesis by (simp add: published_slot_def)
  qed (simp add: published_slot_def)
  moreover have "allow_of e = Some []"
    if "dict_get e ''allow'' \<noteq> None" "dict_get e ''allow'' \<noteq> Some JNull"
      "\<nexists>l. dict_get e ''allow'' = Some (JList (map JStr l)) \<and> [] \<notin> set l"
    using that by (auto simp: allow_of_def split: option.splits json.splits dest: nonempty_strs_Some)
  ultimately show ?thesis
    by (auto simp: allows_def split: option.splits)
qed

theorem unreadable_entry_closed_witness:
  "published_slot demo_entries ''odd'' = None
    \<and> \<not> allows (dict_get demo_entries ''odd'') (Some ''a1b2'')"
proof -
  have e: "dict_get demo_entries ''odd'' =
      Some [(''mode'', JStr ''pubilc''), (''allow'', JList [JStr ''a1b2'', JNum 3])]"
    by code_simp
  show ?thesis
    using unreadable_entry_closed [OF e, of "Some ''a1b2''"]
    by (simp add: e MODE_PUBLIC_def Cons_eq_map_conv)
qed

text \<open>C36: after a page has been exposed, the list answers with exactly the entry that was asked for,
  every other page is as before, and the cache is coherent with the file again. Taking the page off
  the list closes it and reports whether it was on the list.\<close>

theorem publish_unpublish_effect:
  assumes "cache_coherent (pub_file s) (pub_cache s)"
    and "publish_page now st name slot mode allow runnable s = Inr (e, s')"
    and "unpublish st2 name s' = (gone, s'')"
  shows "published_entry (read_published (pub_file s')) name = Some e
    \<and> published_entry (read_published (pub_file s'')) name = None \<and> gone
    \<and> (\<forall>n. n \<noteq> name \<longrightarrow>
        published_entry (read_published (pub_file s')) n = published_entry (read_published (pub_file s)) n
        \<and> published_entry (read_published (pub_file s'')) n = published_entry (read_published (pub_file s)) n)
    \<and> cache_coherent (pub_file s') (pub_cache s') \<and> cache_coherent (pub_file s'') (pub_cache s'')"
proof -
  define es where "es = read_published (pub_file s)"
  have l: "fst (load_published (pub_file s) (pub_cache s)) = es"
    using published_list.load_value [OF assms(1)] by (simp add: es_def)
  have v: "valid_value name" "valid_value slot" "mode \<in> set MODES" "allow = None \<or> [] \<notin> set (the allow)"
    "runnable \<longrightarrow> mode = MODE_IDENTITY"
    and e: "e = [(''slot'', JStr slot), (''mode'', JStr mode), (''since'', JStr now),
      (''allow'', allow_json allow), (''runnable'', JBool runnable)]"
    and s': "s' = save_published st (dict_set name e es) s"
    using assms(2)
    by (auto simp: publish_page_def l Let_def validate_names_Inr split: sum.splits if_splits)
  have c': "cache_coherent (pub_file s') (pub_cache s')"
    by (simp add: s' coherent_save_published)
  have r': "read_published (pub_file s') = dict_set name e es"
    by (simp add: s' read_save_published)
  have "fst (load_published (pub_file s') (pub_cache s')) = dict_set name e es"
    using published_list.load_value [OF c'] r' by simp
  then have g: "gone" and s'': "s'' = save_published st2 (dict_del name (dict_set name e es)) s'"
    using assms(3) by (auto simp: unpublish_def split: prod.splits if_splits)
  have "mode_of e = mode" "allow_of e = allow"
    using v(3,4) by (auto simp: e mode_of_def allow_of_def allow_json_def nonempty_strs_map split: option.splits)
  moreover have "runnable_of e mode = runnable"
    using v(5) by (auto simp: e runnable_of_def)
  moreover have "slot \<noteq> []" using v(2) by (simp add: valid_value_def)
  ultimately have "published_entry (dict_set name e es) name = Some e"
    using v(1) valid_default
    by (simp add: published_entry_def validate_names_def Let_def) (simp add: e)
  moreover have "published_entry (dict_del name (dict_set name e es)) name = None"
    by (simp add: published_entry_def split: sum.splits)
  ultimately show ?thesis
    using g c' r' by (auto simp: s'' read_save_published coherent_save_published es_def intro!: published_entry_cong)
qed

theorem publish_unpublish_effect_witness:
  "\<exists>e s' gone s''.
     publish_page ''2026-11-14T00:00:00'' (7, 90) ''desk'' ''default'' ''identity'' (Some [''a1b2'']) True
       \<lparr>pub_file = None, pub_cache = None\<rparr> = Inr (e, s')
     \<and> unpublish (9, 2) ''desk'' s' = (gone, s'') \<and> gone
     \<and> published_entry (read_published (pub_file s')) ''desk'' = Some e
     \<and> published_entry (read_published (pub_file s'')) ''desk'' = None"
proof -
  have c: "cache_coherent (pub_file \<lparr>pub_file = None, pub_cache = None\<rparr>)
      (pub_cache \<lparr>pub_file = None, pub_cache = None\<rparr>)"
    by (simp add: cache_coherent_def)
  have v: "valid_value ''desk''" "valid_value ''default''"
    by (code_simp, code_simp)
  obtain e s' where p: "publish_page ''2026-11-14T00:00:00'' (7, 90) ''desk'' ''default'' ''identity''
      (Some [''a1b2'']) True \<lparr>pub_file = None, pub_cache = None\<rparr> = Inr (e, s')"
    using v by (simp add: publish_page_def validate_names_def Let_def MODES_def MODE_IDENTITY_def MODE_PUBLIC_def)
  obtain gone s'' where u: "unpublish (9, 2) ''desk'' s' = (gone, s'')"
    by (cases "unpublish (9, 2) ''desk'' s'")
  show ?thesis
    using publish_unpublish_effect [OF c p u] p u by blast
qed

end
