(* ===== verification/Access_Gate.thy ===== *)
theory Access_Gate
  imports Accounts Publish
begin

text \<open>
  \<open>server/security.py\<close>: the middleware every request meets first. It sorts a request into one of four
  zones (\<open>local\<close>, \<open>public\<close>, \<open>identity\<close>, \<open>token\<close>) or refuses it, and records zone, slot and identity for the
  routes. The functions take the publication list as the operation \<open>entry_of\<close>, which is
  \<open>published_entry\<close> of the current list.
\<close>

subsection \<open>Requests\<close>

record scope =
  sc_type :: string
  sc_method :: "string option"
  sc_path :: "string option"
  sc_query :: string
  sc_headers :: "(string \<times> string) list"
  sc_client :: "string option"

definition sc_get :: "string option \<Rightarrow> string" where
  "sc_get v = (case v of Some s \<Rightarrow> s | None \<Rightarrow> [])"

definition FORWARDING_HEADERS :: "string list" where
  "FORWARDING_HEADERS =
     [''x-forwarded-for'', ''x-forwarded-host'', ''x-forwarded-proto'', ''x-real-ip'', ''forwarded'',
      ''cf-connecting-ip'', ''true-client-ip'', ''x-client-ip'', ''x-envoy-external-address'',
      ''x-original-forwarded-for'', ''via'', ''x-forwarded-server'', ''x-forwarded-port'',
      ''x-forwarded-prefix'', ''fly-client-ip'', ''fastly-client-ip'', ''x-azure-clientip'',
      ''x-appengine-user-ip'']"

definition PUBLIC_METHODS :: "string list" where "PUBLIC_METHODS = [''GET'', ''HEAD'']"
definition ZONES :: "string list" where "ZONES = [''local'', ''public'', ''identity'', ''token'']"
definition ANON_POST :: "(string \<times> string) list" where "ANON_POST = [(''POST'', ''/api/auth/login'')]"

definition IDENTITY_ENDPOINTS :: "(string \<times> string) list" where
  "IDENTITY_ENDPOINTS =
     [(''POST'', ''/api/auth/login''), (''POST'', ''/api/auth/logout''), (''POST'', ''/api/auth/password''),
      (''GET'', ''/api/auth/me''), (''HEAD'', ''/api/auth/me''),
      (''GET'', ''/api/auth/pages''), (''HEAD'', ''/api/auth/pages'')]"

text \<open>\<open>bytes.lower\<close> touches ASCII letters only. A later header of the same name wins.\<close>

definition bytes_lower :: "string \<Rightarrow> string" where
  "bytes_lower s = map (\<lambda>c. let n = (of_char c :: nat) in if 65 \<le> n \<and> n \<le> 90 then char_of (n + 32) else c) s"

definition headers_of :: "scope \<Rightarrow> (string, string) dict" where
  "headers_of sc = fold (\<lambda>(k, v). dict_set (bytes_lower k) v) (sc_headers sc) []"

definition is_proxied :: "(string, string) dict \<Rightarrow> bool" where
  "is_proxied h = list_ex (\<lambda>n. dict_get h n \<noteq> None) FORWARDING_HEADERS"

text \<open>The pattern \<open>^/app/(?P<name>[^/?#]+)(?P<rest>/.*)?$\<close>: a dot matches no newline, and the end may be
  followed by one.\<close>

definition APP_PATH :: "string \<Rightarrow> (string \<times> string option) option" where
  "APP_PATH p =
     (if \<not> startswith p ''/app/'' then None
      else let a = drop 5 p;
               name = takeWhile (\<lambda>c. c \<notin> {CHR ''/'', CHR ''?'', CHR ''#''}) a;
               r = dropWhile (\<lambda>c. c \<notin> {CHR ''/'', CHR ''?'', CHR ''#''}) a
           in if name = [] then None
              else if r = [] then Some (name, None)
              else if hd r = CHR ''/'' \<and> dropWhile (\<lambda>c. c \<noteq> newline) r \<in> {[], [newline]}
              then Some (name, Some (takeWhile (\<lambda>c. c \<noteq> newline) r))
              else None)"

subsection \<open>The token\<close>

definition token_path :: "site \<Rightarrow> path" where
  "token_path w = env_path (st_os w) ''FRAGO_TOKEN_FILE'' (home_dir (st_os w) @ [''.frago'', ''server-token''])"

text \<open>The token file is its text, if there is one.\<close>

definition read_token :: "string option \<Rightarrow> string option" where
  "read_token f =
     (case f of None \<Rightarrow> None | Some text \<Rightarrow> (let v = strip text in if v = [] then None else Some v))"

text \<open>\<open>ensure_token\<close>: \<open>fresh\<close> is the token it would mint, \<open>raced\<close> what another caller has linked into place
  in the meantime, if any.\<close>

definition ensure_token :: "string \<Rightarrow> string option \<Rightarrow> string option \<Rightarrow> string \<times> string option" where
  "ensure_token fresh raced f =
     (case read_token f of
        Some existing \<Rightarrow> (existing, f)
      | None \<Rightarrow>
          (case (case raced of Some text \<Rightarrow> Some text | None \<Rightarrow> f) of
             Some text \<Rightarrow> ((case read_token (Some text) of Some v \<Rightarrow> v | None \<Rightarrow> fresh), Some text)
           | None \<Rightarrow> (fresh, Some (fresh @ [newline]))))"

definition rotate_token :: "string \<Rightarrow> string option \<Rightarrow> string option \<Rightarrow> string \<times> string option" where
  "rotate_token fresh raced f = ensure_token fresh raced None"

text \<open>The first value of one key in \<open>parse_qs\<close>: fields without a value are skipped.\<close>

definition parse_qs_first :: "site \<Rightarrow> string \<Rightarrow> string \<Rightarrow> string option" where
  "parse_qs_first w q key =
     (case filter (\<lambda>f. unquote_plus w (fst (partition_on CHR ''='' f)) = key \<and> snd (partition_on CHR ''='' f) \<noteq> [])
             (split_on CHR ''&'' q) of
        [] \<Rightarrow> None
      | f # _ \<Rightarrow> Some (unquote_plus w (snd (partition_on CHR ''='' f))))"

definition presented_token :: "site \<Rightarrow> scope \<Rightarrow> (string, string) dict \<Rightarrow> string option" where
  "presented_token w sc h =
     (let auth = strip (sc_get (dict_get h ''authorization''));
          direct = sc_get (dict_get h ''x-frago-token'')
      in if startswith (lower auth) ''bearer '' then Some (strip (drop 7 auth))
         else if direct \<noteq> [] then Some (strip direct)
         else if sc_type sc = ''websocket'' then parse_qs_first w (sc_query sc) ''token''
         else None)"

definition is_ascii :: "string \<Rightarrow> bool" where
  "is_ascii s = list_all (\<lambda>c. (of_char c :: nat) < 128) s"

text \<open>\<open>hmac.compare_digest\<close> on two \<open>str\<close> values raises \<open>TypeError\<close> (None) unless both are ASCII.\<close>

definition compare_digest_str :: "string \<Rightarrow> string \<Rightarrow> bool option" where
  "compare_digest_str a b = (if is_ascii a \<and> is_ascii b then Some (a = b) else None)"

definition token_ok :: "string option \<Rightarrow> string option \<Rightarrow> bool option" where
  "token_ok tokfile presented =
     (if presented = None \<or> presented = Some [] then Some False
      else (case read_token tokfile of
              None \<Rightarrow> Some False
            | Some expected \<Rightarrow> compare_digest_str (the presented) expected))"

subsection \<open>Where the caller sits\<close>

definition peer_zone :: "site \<Rightarrow> scope \<Rightarrow> string" where
  "peer_zone w sc =
     (case sc_client sc of
        None \<Rightarrow> ''unknown''
      | Some host \<Rightarrow>
          (case ip_parse w host of
             None \<Rightarrow> ''unknown''
           | Some a \<Rightarrow>
               (let i = (case ipv4_mapped a of Some m \<Rightarrow> m | None \<Rightarrow> a)
                in if ip_unspecified i then ''unknown''
                   else if ip_loopback i then ''loopback''
                   else if ip_private w i \<or> ip_link_local i then ''private''
                   else ''public'')))"

definition peer_is_trusted :: "site \<Rightarrow> scope \<Rightarrow> bool" where
  "peer_is_trusted w sc =
     (if peer_trust_disabled w then False
      else let zone = peer_zone w sc
           in if zone = ''loopback'' then True else zone = ''private'' \<and> lan_is_trusted w)"

subsection \<open>Anonymous and signed-in callers\<close>

definition query_values :: "site \<Rightarrow> scope \<Rightarrow> string \<Rightarrow> string list" where
  "query_values w sc key = map snd (filter (\<lambda>(k, v). k = key) (query_params w (sc_query sc)))"

definition path_is_safe :: "string \<Rightarrow> bool" where
  "path_is_safe p =
     (let segments = split_on CHR ''/'' p
      in if list_ex (\<lambda>seg. seg \<in> {''..'', ''.''}) segments then False
         else \<not> list_ex (\<lambda>seg. startswith seg ''.'') (filter (\<lambda>seg. seg \<noteq> []) segments))"

definition method_of :: "scope \<Rightarrow> string" where
  "method_of sc = upper (sc_get (sc_method sc))"

definition classify_public :: "site \<Rightarrow> (string \<Rightarrow> entry option) \<Rightarrow> scope \<Rightarrow> string option" where
  "classify_public w entry_of sc =
     (if sc_type sc \<noteq> ''http'' then None
      else if method_of sc \<notin> set PUBLIC_METHODS then None
      else let path = sc_get (sc_path sc)
           in case APP_PATH path of
                None \<Rightarrow> None
              | Some (name, rest) \<Rightarrow>
                  if \<not> path_is_safe path then None
                  else (case entry_of name of
                          None \<Rightarrow> None
                        | Some e \<Rightarrow>
                            if entry_str e ''mode'' \<noteq> MODE_PUBLIC then None
                            else let slot = entry_str e ''slot''; requested = query_values w sc ''key''
                                 in if length requested > 1 then None
                                    else if requested \<noteq> [] \<and> hd requested \<noteq> [] \<and> hd requested \<noteq> slot then None
                                    else Some slot))"

definition cookie :: "(string, string) dict \<Rightarrow> string \<Rightarrow> string option" where
  "cookie h name =
     (let raw = sc_get (dict_get h ''cookie'')
      in if raw = [] then None
         else map_option (\<lambda>part. strip (snd (partition_on CHR ''='' part)))
                (find (\<lambda>part. strip (fst (partition_on CHR ''='' part)) = name) (split_on CHR '';'' raw)))"

definition COOKIE_NAME :: string where "COOKIE_NAME = ''frago_sid''"

definition resolve_identity ::
    "site \<Rightarrow> tick \<Rightarrow> (string, string) dict \<Rightarrow> id_state \<Rightarrow> string option \<times> id_state" where
  "resolve_identity w t h s =
     (case cookie h COOKIE_NAME of
        None \<Rightarrow> (None, s)
      | Some token \<Rightarrow>
          if token = [] then (None, s)
          else (case resolve_session w t (Some token) s of
                  (None, s') \<Rightarrow> (None, s')
                | (Some session, s') \<Rightarrow> (Some (ls_identity session), s')))"

definition judge_app_path ::
    "site \<Rightarrow> (string \<Rightarrow> entry option) \<Rightarrow> scope \<Rightarrow> string \<Rightarrow> string \<Rightarrow> bool \<times> string option" where
  "judge_app_path w entry_of sc name identity =
     (if query_values w sc ''key'' \<noteq> [] then (False, None)
      else (case entry_of name of
              None \<Rightarrow> (False, None)
            | Some e \<Rightarrow>
                if entry_str e ''mode'' \<noteq> MODE_IDENTITY then (False, None)
                else if \<not> allows (Some e) (Some identity) then (False, None)
                else (True, Some identity)))"

definition classify_identity ::
    "site \<Rightarrow> (string \<Rightarrow> entry option) \<Rightarrow> scope \<Rightarrow> string \<Rightarrow> bool \<times> string option" where
  "classify_identity w entry_of sc identity =
     (if sc_type sc \<noteq> ''http'' then (False, None)
      else let method = method_of sc; path = sc_get (sc_path sc)
           in if \<not> path_is_safe path then (False, None)
              else if (method, path) \<in> set IDENTITY_ENDPOINTS then (True, None)
              else if method = ''POST''
              then (case APP_PATH path of
                      Some (name, rest) \<Rightarrow>
                        if sc_get rest = ''/run'' then judge_app_path w entry_of sc name identity else (False, None)
                    | None \<Rightarrow> (False, None))
              else if method \<notin> set PUBLIC_METHODS then (False, None)
              else (case APP_PATH path of
                      None \<Rightarrow> (False, None)
                    | Some (name, rest) \<Rightarrow> judge_app_path w entry_of sc name identity))"

definition anon_post_allowed :: "scope \<Rightarrow> bool" where
  "anon_post_allowed sc =
     (if sc_type sc \<noteq> ''http'' then False
      else let path = sc_get (sc_path sc)
           in if \<not> path_is_safe path then False else (method_of sc, path) \<in> set ANON_POST)"

definition sign_in_redirect ::
    "site \<Rightarrow> (string \<Rightarrow> entry option) \<Rightarrow> scope \<Rightarrow> (string, string) dict \<Rightarrow> string option" where
  "sign_in_redirect w entry_of sc h =
     (if sc_type sc \<noteq> ''http'' then None
      else if method_of sc \<notin> set PUBLIC_METHODS then None
      else if \<not> contains (lower (sc_get (dict_get h ''accept''))) ''text/html'' then None
      else let path = sc_get (sc_path sc)
           in if \<not> path_is_safe path then None
              else (case APP_PATH path of
                      None \<Rightarrow> None
                    | Some (name, rest) \<Rightarrow>
                        (case login_portal w of
                           None \<Rightarrow> None
                         | Some portal \<Rightarrow>
                             if name = portal then None
                             else (case entry_of name of
                                     None \<Rightarrow> None
                                   | Some e \<Rightarrow>
                                       if entry_str e ''mode'' \<noteq> MODE_IDENTITY then None
                                       else (case entry_of portal of
                                               None \<Rightarrow> None
                                             | Some door \<Rightarrow>
                                                 if entry_str door ''mode'' \<noteq> MODE_PUBLIC then None
                                                 else Some (''/app/'' @ portal @ ''/?next='' @ name))))))"

subsection \<open>Answers\<close>

text \<open>What the gate sends itself, as ASGI messages.\<close>

datatype asgi_message =
    ResponseStart (status: nat) (rsp_headers: "(string \<times> string) list")
  | ResponseBody string
  | WebsocketClose nat

definition send_to_sign_in :: "string \<Rightarrow> asgi_message list" where
  "send_to_sign_in target =
     [ResponseStart 302 [(''location'', target), (''content-length'', ''0''), (''cache-control'', ''no-store'')],
      ResponseBody []]"

text \<open>\<open>why\<close> is a constant without characters that JSON escapes.\<close>

definition dquote :: string where "dquote = [CHR 0x22]"

definition json_field :: "string \<Rightarrow> string \<Rightarrow> string" where
  "json_field k v = dquote @ k @ dquote @ '': '' @ dquote @ v @ dquote"

definition reject :: "scope \<Rightarrow> string \<Rightarrow> asgi_message list" where
  "reject sc why =
     (if sc_type sc = ''websocket'' then [WebsocketClose 4401]
      else let body = ''{'' @ json_field ''error'' ''unauthorized'' @ '', '' @ json_field ''detail'' why @ '', '' @
                 json_field ''hint'' (''send Authorization: Bearer <token>; get it with `frago server token`'') @ ''}''
           in [ResponseStart 401 [(''content-type'', ''application/json''), (''content-length'', dec (length body))],
               ResponseBody body])"

definition send_too_many :: "scope \<Rightarrow> asgi_message list" where
  "send_too_many sc =
     (if sc_type sc = ''websocket'' then [WebsocketClose 4429]
      else let body = ''{'' @ json_field ''error'' ''rate_limited'' @ '', '' @
                 json_field ''detail'' ''too many requests; slow down'' @ ''}''
           in [ResponseStart 429 [(''content-type'', ''application/json''), (''content-length'', dec (length body)),
                 (''retry-after'', ''1''), (''cache-control'', ''no-store'')],
               ResponseBody body])"

text \<open>What \<open>_admit\<close> writes into \<open>scope["state"]\<close>.\<close>

record gate_state =
  frago_zone :: string
  frago_slot :: "string option"
  frago_identity :: "string option"
  frago_public :: bool
  frago_public_slot :: "string option"

definition admit :: "string \<Rightarrow> string option \<Rightarrow> string option \<Rightarrow> gate_state" where
  "admit zone slot identity =
     \<lparr>frago_zone = zone, frago_slot = slot, frago_identity = identity, frago_public = (zone = ''public''),
      frago_public_slot = (if zone = ''public'' then slot else None)\<rparr>"

text \<open>The middleware as a whole: the request is handed on untouched (a lifespan event), handed on with
  the decision recorded, answered by the gate, or the gate itself raises.\<close>

datatype gate_outcome =
    PassThrough
  | Admitted gate_state
  | Answered "asgi_message list"
  | RaisedTypeError

definition gate_call ::
    "site \<Rightarrow> tick \<Rightarrow> (string \<Rightarrow> entry option) \<Rightarrow> string option \<Rightarrow> scope \<Rightarrow> id_state \<Rightarrow> gate_outcome \<times> id_state" where
  "gate_call w t entry_of tokfile sc s =
     (if sc_type sc \<notin> {''http'', ''websocket''} then (PassThrough, s)
      else
        let h = headers_of sc;
            (identity, s1) = resolve_identity w t h s;
            rest = (if anon_post_allowed sc then Admitted (admit ''public'' None identity)
                    else (case token_ok tokfile (presented_token w sc h) of
                            None \<Rightarrow> RaisedTypeError
                          | Some True \<Rightarrow> Admitted (admit ''token'' None identity)
                          | Some False \<Rightarrow>
                              (case sign_in_redirect w entry_of sc h of
                                 Some target \<Rightarrow> Answered (send_to_sign_in target)
                               | None \<Rightarrow> Answered (reject sc ''this endpoint is not public''))))
        in if peer_is_trusted w sc \<and> \<not> is_proxied h then (Admitted (admit ''local'' None identity), s1)
           else (case classify_public w entry_of sc of
                   Some slot \<Rightarrow> (Admitted (admit ''public'' (Some slot) identity), s1)
                 | None \<Rightarrow>
                     (case identity of
                        None \<Rightarrow> (rest, s1)
                      | Some who \<Rightarrow>
                          (let (reachable, identity_slot) = classify_identity w entry_of sc who
                           in if reachable
                              then if sc_type sc = ''http''
                                   then (let (ok, l) = allow_visitor_request (Some who) (mono t) (lims s1);
                                             s2 = s1\<lparr>lims := l\<rparr>
                                         in if \<not> ok then (Answered (send_too_many sc), s2)
                                            else (Admitted (admit ''identity'' identity_slot identity), s2))
                                   else (Admitted (admit ''identity'' identity_slot identity), s1)
                              else (rest, s1)))))"

subsection \<open>What the routes read\<close>

text \<open>The state a route sees: None for a request that never met the gate. A value that is no zone
  raises \<open>ValueError\<close>, here None.\<close>

definition zone_of :: "gate_state option \<Rightarrow> string option" where
  "zone_of st =
     (case st of None \<Rightarrow> Some ''local'' | Some g \<Rightarrow> if frago_zone g \<notin> set ZONES then None else Some (frago_zone g))"

definition slot_for :: "gate_state option \<Rightarrow> string option option" where
  "slot_for st =
     map_option (\<lambda>zone. if zone \<in> {''public'', ''identity''}
                        then (case st of None \<Rightarrow> None | Some g \<Rightarrow> frago_slot g) else None) (zone_of st)"

definition identity_of :: "gate_state option \<Rightarrow> string option" where
  "identity_of st = (case st of None \<Rightarrow> None | Some g \<Rightarrow> frago_identity g)"

definition is_owner_request :: "gate_state option \<Rightarrow> bool option" where
  "is_owner_request st = map_option (\<lambda>zone. zone \<in> {''local'', ''token''}) (zone_of st)"

definition is_public_request :: "gate_state option \<Rightarrow> bool option" where
  "is_public_request st = map_option (\<lambda>zone. zone = ''public'') (zone_of st)"

definition public_slot :: "gate_state option \<Rightarrow> string option option" where
  "public_slot st =
     (case zone_of st of
        None \<Rightarrow> None
      | Some zone \<Rightarrow> if zone = ''public'' then slot_for st else Some None)"

subsection \<open>The cases of the decision\<close>

lemma gate_admitted:
  assumes "gate_call w t entry_of tokfile sc s = (Admitted g, s')"
  obtains
    (Local) "peer_is_trusted w sc" "\<not> is_proxied (headers_of sc)"
      "g = admit ''local'' None (fst (resolve_identity w t (headers_of sc) s))"
  | (Public) slot where "classify_public w entry_of sc = Some slot"
      "g = admit ''public'' (Some slot) (fst (resolve_identity w t (headers_of sc) s))"
  | (Identity) who slot where "fst (resolve_identity w t (headers_of sc) s) = Some who"
      "classify_identity w entry_of sc who = (True, slot)" "classify_public w entry_of sc = None"
      "g = admit ''identity'' slot (Some who)"
  | (Login) "anon_post_allowed sc" "g = admit ''public'' None (fst (resolve_identity w t (headers_of sc) s))"
  | (Token) "token_ok tokfile (presented_token w sc (headers_of sc)) = Some True"
      "g = admit ''token'' None (fst (resolve_identity w t (headers_of sc) s))"
proof -
  obtain identity s1 where r: "resolve_identity w t (headers_of sc) s = (identity, s1)" by (cases "resolve_identity w t (headers_of sc) s")
  have "sc_type sc \<in> {''http'', ''websocket''}"
    using assms by (auto simp: gate_call_def split: if_splits)
  note a = assms [unfolded gate_call_def Let_def r split, simplified this]
  show ?thesis
    using a Local Public Identity Login Token r
    by (auto split: if_splits option.splits bool.splits prod.splits)
qed

text \<open>The request line of an anonymous page request, spelled out.\<close>

lemma classify_public_iff:
  "classify_public w entry_of sc = Some slot \<longleftrightarrow>
     sc_type sc = ''http'' \<and> method_of sc \<in> {''GET'', ''HEAD''} \<and> path_is_safe (sc_get (sc_path sc))
     \<and> (\<exists>name rest e. APP_PATH (sc_get (sc_path sc)) = Some (name, rest) \<and> entry_of name = Some e
          \<and> entry_str e ''mode'' = MODE_PUBLIC \<and> slot = entry_str e ''slot'')
     \<and> query_values w sc ''key'' \<in> {[], [[]], [slot]}"
proof -
  have q: "(if length r > 1 then None else if r \<noteq> [] \<and> hd r \<noteq> [] \<and> hd r \<noteq> slot then None else Some slot)
      = (if r \<in> {[], [[]], [slot]} then Some slot else None)" for r :: "string list" and slot
    by (cases r; cases "tl r") auto
  define path where "path = sc_get (sc_path sc)"
  define page where "page = (case APP_PATH path of Some (name, rest) \<Rightarrow> entry_of name | None \<Rightarrow> None)"
  have page: "(\<exists>e. page = Some e \<and> P e) \<longleftrightarrow> (\<exists>name rest e. APP_PATH path = Some (name, rest) \<and> entry_of name = Some e \<and> P e)" for P
    by (auto simp: page_def split: option.splits)
  have pick: "((if A then (case page of None \<Rightarrow> None | Some e \<Rightarrow> if M e \<and> Q (f e) then Some (f e) else None) else None) = Some slot)
      \<longleftrightarrow> A \<and> (\<exists>e. page = Some e \<and> M e \<and> slot = f e) \<and> Q slot" for A M Q and f :: "entry \<Rightarrow> string"
    by (cases page) auto
  have "classify_public w entry_of sc =
      (if sc_type sc = ''http'' \<and> method_of sc \<in> {''GET'', ''HEAD''} \<and> path_is_safe path
       then (case page of
               None \<Rightarrow> None
             | Some e \<Rightarrow> if entry_str e ''mode'' = MODE_PUBLIC \<and> query_values w sc ''key'' \<in> {[], [[]], [entry_str e ''slot'']}
                         then Some (entry_str e ''slot'') else None)
       else None)"
    unfolding classify_public_def Let_def q path_def [symmetric]
    by (simp add: PUBLIC_METHODS_def page_def split: option.split)
  then show ?thesis
    using pick [of "sc_type sc = ''http'' \<and> method_of sc \<in> {''GET'', ''HEAD''} \<and> path_is_safe path"
        "\<lambda>e. entry_str e ''mode'' = MODE_PUBLIC" "\<lambda>slot. query_values w sc ''key'' \<in> {[], [[]], [slot]}" "\<lambda>e. entry_str e ''slot''"]
    unfolding page path_def by (simp only: conj_assoc)
qed

lemma anon_post_iff:
  "anon_post_allowed sc \<longleftrightarrow> sc_type sc = ''http'' \<and> method_of sc = ''POST'' \<and> sc_get (sc_path sc) = ''/api/auth/login''"
proof -
  have "path_is_safe ''/api/auth/login''" by code_simp
  then show ?thesis by (auto simp: anon_post_allowed_def ANON_POST_def Let_def)
qed

lemma judge_app_path_True:
  "judge_app_path w entry_of sc name who = (True, slot) \<longleftrightarrow>
     query_values w sc ''key'' = [] \<and> slot = Some who
     \<and> (\<exists>e. entry_of name = Some e \<and> entry_str e ''mode'' = MODE_IDENTITY \<and> allows (Some e) (Some who))"
  by (auto simp: judge_app_path_def split: option.splits if_splits)

lemma classify_identity_True:
  assumes "classify_identity w entry_of sc who = (True, slot)"
  shows "sc_type sc = ''http'' \<and> path_is_safe (sc_get (sc_path sc))
    \<and> ((method_of sc, sc_get (sc_path sc)) \<in> set IDENTITY_ENDPOINTS \<and> slot = None
       \<or> (\<exists>name rest e. APP_PATH (sc_get (sc_path sc)) = Some (name, rest)
            \<and> (method_of sc \<in> {''GET'', ''HEAD''} \<or> method_of sc = ''POST'' \<and> rest = Some ''/run'')
            \<and> query_values w sc ''key'' = [] \<and> slot = Some who
            \<and> entry_of name = Some e \<and> entry_str e ''mode'' = MODE_IDENTITY \<and> allows (Some e) (Some who)))"
  using assms
  by (auto simp: classify_identity_def Let_def PUBLIC_METHODS_def judge_app_path_True sc_get_def
      split: if_splits option.splits)

lemma resolve_identity_Some:
  assumes "coherent w s" "fst (resolve_identity w t h s) = Some who"
  obtains tok d e r where "cookie h COOKIE_NAME = Some tok" "read_session (sess s) (sid_of w tok) = Some d"
    "parse_time w (dict_get d ''expires'') = Some e" "now t < e" "who = rec_str w d ''identity''"
    "dict_get (users s) who = Some r" "\<not> rec_flag r ''disabled''"
proof -
  obtain tok ls s1 where tok: "cookie h COOKIE_NAME = Some tok" "resolve_session w t (Some tok) s = (Some ls, s1)" "who = ls_identity ls"
    using assms(2) by (auto simp: resolve_identity_def split: option.splits if_splits prod.splits)
  show ?thesis
    by (rule resolve_session_Some [OF assms(1) tok(2)])
      (use tok that in \<open>auto simp: session_view_def\<close>)
qed

lemma resolve_identity_state:
  assumes "coherent w s"
  shows "users_file (snd (resolve_identity w t h s)) = users_file s" "coherent w (snd (resolve_identity w t h s))"
    "lims (snd (resolve_identity w t h s)) = lims s"
  using assms resolve_session_state [OF assms]
  by (auto simp: resolve_identity_def split: option.splits prod.splits) (metis snd_conv)+

text \<open>Over the publication list the slot is never empty, and the entry the gate judged is the entry on
  the list.\<close>

context page_directory begin

lemma public_slot_given: "classify_public w entry_of sc = Some slot \<Longrightarrow> slot \<noteq> []"
  using slot_given by (auto simp: classify_public_iff)

lemma public_not_identity:
  "classify_public w entry_of sc = Some slot \<Longrightarrow> APP_PATH (sc_get (sc_path sc)) = Some (name, rest)
    \<Longrightarrow> judge_app_path w entry_of sc name who = (False, None)"
  by (auto simp: classify_public_iff judge_app_path_def split: option.splits)

end

subsection \<open>Addresses of pages\<close>

lemma page_name_chars:
  assumes "valid_value n"
  shows "n \<noteq> []" "c \<in> set n \<Longrightarrow> c \<notin> {CHR ''/'', CHR ''?'', CHR ''#''}"
proof -
  show "n \<noteq> []" using assms by (simp add: valid_value_def)
  have no: "\<not> safe_name_char CHR ''/''" "\<not> safe_name_char CHR ''?''" "\<not> safe_name_char CHR ''#''"
    "CHR ''/'' \<noteq> newline" "CHR ''?'' \<noteq> newline" "CHR ''#'' \<noteq> newline"
    by (code_simp, code_simp, code_simp, code_simp, code_simp, code_simp)
  show "c \<in> set n \<Longrightarrow> c \<notin> {CHR ''/'', CHR ''?'', CHR ''#''}"
    using SAFE_NAME_chars [of n c] assms no by (auto simp: valid_value_def)
qed

lemma app_path_of_page: "valid_value n \<Longrightarrow> APP_PATH (''/app/'' @ n @ ''/'') = Some (n, Some ''/'')"
proof -
  assume v: "valid_value n"
  have "takeWhile (\<lambda>c. c \<notin> {CHR ''/'', CHR ''?'', CHR ''#''}) (n @ ''/'') = n"
    "dropWhile (\<lambda>c. c \<notin> {CHR ''/'', CHR ''?'', CHR ''#''}) (n @ ''/'') = ''/''"
    using page_name_chars(2) [OF v] by (simp_all add: takeWhile_append2 dropWhile_append2)
  then show ?thesis using page_name_chars(1) [OF v]
    by (simp add: APP_PATH_def startswith_def Let_def newline_def)
qed

lemma path_safe_of_page:
  assumes "valid_value n" "hd n \<noteq> CHR ''.''"
  shows "path_is_safe (''/app/'' @ n @ ''/'')"
proof -
  have "CHR ''/'' \<notin> set n" using page_name_chars(2) [OF assms(1)] by blast
  then have "split_on CHR ''/'' (''/app/'' @ n @ ''/'') = [[], ''app'', n, []]"
    by (simp add: split_on_append)
  moreover have "\<not> startswith n ''.''" "n \<noteq> ''.''" "n \<noteq> ''..''"
    using assms(2) page_name_chars(1) [OF assms(1)] by (cases n; auto simp: startswith_def)+
  ultimately show ?thesis by (simp add: path_is_safe_def startswith_def)
qed

subsection \<open>Forwarding headers\<close>

lemma headers_snoc:
  "dict_get (headers_of (sc\<lparr>sc_headers := sc_headers sc @ [(n, v)]\<rparr>)) k =
     (if k = bytes_lower n then Some v else dict_get (headers_of sc) k)"
  by (simp add: headers_of_def)

lemma scope_fields:
  "sc_type (sc\<lparr>sc_headers := hs\<rparr>) = sc_type sc" "sc_method (sc\<lparr>sc_headers := hs\<rparr>) = sc_method sc"
  "sc_path (sc\<lparr>sc_headers := hs\<rparr>) = sc_path sc" "sc_query (sc\<lparr>sc_headers := hs\<rparr>) = sc_query sc"
  "sc_client (sc\<lparr>sc_headers := hs\<rparr>) = sc_client sc"
  by simp_all

lemma scope_parts [simp]:
  "classify_public w entry_of (sc\<lparr>sc_headers := hs\<rparr>) = classify_public w entry_of sc"
  "classify_identity w entry_of (sc\<lparr>sc_headers := hs\<rparr>) who = classify_identity w entry_of sc who"
  "anon_post_allowed (sc\<lparr>sc_headers := hs\<rparr>) = anon_post_allowed sc"
  "peer_is_trusted w (sc\<lparr>sc_headers := hs\<rparr>) = peer_is_trusted w sc"
  "reject (sc\<lparr>sc_headers := hs\<rparr>) why = reject sc why" "send_too_many (sc\<lparr>sc_headers := hs\<rparr>) = send_too_many sc"
  by (simp_all only: classify_public_def classify_identity_def judge_app_path_def anon_post_allowed_def
      peer_is_trusted_def peer_zone_def query_values_def method_of_def reject_def send_too_many_def scope_fields)

lemma header_readers_cong:
  assumes "\<forall>k \<in> {''authorization'', ''x-frago-token'', ''cookie'', ''accept''}. dict_get h k = dict_get h' k"
  shows "presented_token w (sc\<lparr>sc_headers := hs\<rparr>) h = presented_token w sc h'"
    "resolve_identity w t h s = resolve_identity w t h' s"
    "sign_in_redirect w entry_of (sc\<lparr>sc_headers := hs\<rparr>) h = sign_in_redirect w entry_of sc h'"
proof -
  have k: "dict_get h ''authorization'' = dict_get h' ''authorization''"
    "dict_get h ''x-frago-token'' = dict_get h' ''x-frago-token''" "dict_get h ''cookie'' = dict_get h' ''cookie''"
    "dict_get h ''accept'' = dict_get h' ''accept''"
    using assms by simp_all
  show "presented_token w (sc\<lparr>sc_headers := hs\<rparr>) h = presented_token w sc h'"
    "resolve_identity w t h s = resolve_identity w t h' s"
    "sign_in_redirect w entry_of (sc\<lparr>sc_headers := hs\<rparr>) h = sign_in_redirect w entry_of sc h'"
    by (simp_all only: presented_token_def resolve_identity_def cookie_def sign_in_redirect_def method_of_def
        scope_fields k)
qed

lemma forwarding_names:
  "n \<in> set FORWARDING_HEADERS \<Longrightarrow> k \<in> {''authorization'', ''x-frago-token'', ''cookie'', ''accept''} \<Longrightarrow> n \<noteq> k"
  by (auto simp: FORWARDING_HEADERS_def)

lemma is_proxied_snoc:
  "bytes_lower n \<in> set FORWARDING_HEADERS \<Longrightarrow> is_proxied (headers_of (sc\<lparr>sc_headers := sc_headers sc @ [(n, v)]\<rparr>))"
  by (auto simp: is_proxied_def list_ex_iff headers_snoc)

lemma gate_with_forwarding:
  assumes "bytes_lower n \<in> set FORWARDING_HEADERS" "\<not> (peer_is_trusted w sc \<and> \<not> is_proxied (headers_of sc))"
  shows "gate_call w t entry_of tokfile (sc\<lparr>sc_headers := sc_headers sc @ [(n, v)]\<rparr>) s =
    gate_call w t entry_of tokfile sc s"
proof -
  let ?sc = "sc\<lparr>sc_headers := sc_headers sc @ [(n, v)]\<rparr>"
  have "\<forall>k \<in> {''authorization'', ''x-frago-token'', ''cookie'', ''accept''}.
      dict_get (headers_of ?sc) k = dict_get (headers_of sc) k"
  proof
    fix k assume "k \<in> {''authorization'', ''x-frago-token'', ''cookie'', ''accept''}"
    from forwarding_names [OF assms(1) this] show "dict_get (headers_of ?sc) k = dict_get (headers_of sc) k"
      by (simp only: headers_snoc if_False eq_commute [of k])
  qed
  note c = header_readers_cong [OF this]
  have nl: "\<not> (peer_is_trusted w ?sc \<and> \<not> is_proxied (headers_of ?sc))"
    using is_proxied_snoc [OF assms(1)] by simp
  show ?thesis
    by (simp only: gate_call_def Let_def c scope_parts scope_fields nl [unfolded scope_parts] assms(2) if_False)
qed

subsection \<open>Properties\<close>

text \<open>C1: what a stranger can reach, exactly. For a caller who is not trusted by address (or came through
  a proxy), holds no valid cookie and no valid token, the gate hands a request on if and only if it
  reads a page that is on the list in public mode, by a path without dot segments or dotfiles and asking
  for no other slot than the published one, or it is the login POST. The zone is then \<open>public\<close>, and the
  slot is the published slot, respectively none.\<close>

theorem anonymous_surface:
  assumes "sc_type sc \<in> {''http'', ''websocket''}"
    and "\<not> (peer_is_trusted w sc \<and> \<not> is_proxied (headers_of sc))"
    and "fst (resolve_identity w t (headers_of sc) s) = None"
    and "token_ok tokfile (presented_token w sc (headers_of sc)) \<noteq> Some True"
  shows "fst (gate_call w t (published_entry es) tokfile sc s) = Admitted g \<longleftrightarrow>
    sc_type sc = ''http''
    \<and> ((\<exists>name rest e. method_of sc \<in> {''GET'', ''HEAD''} \<and> path_is_safe (sc_get (sc_path sc))
          \<and> APP_PATH (sc_get (sc_path sc)) = Some (name, rest) \<and> published_entry es name = Some e
          \<and> entry_str e ''mode'' = MODE_PUBLIC
          \<and> query_values w sc ''key'' \<in> {[], [[]], [entry_str e ''slot'']}
          \<and> g = admit ''public'' (Some (entry_str e ''slot'')) None)
       \<or> method_of sc = ''POST'' \<and> sc_get (sc_path sc) = ''/api/auth/login'' \<and> g = admit ''public'' None None)"
    (is "?l \<longleftrightarrow> ?r")
proof -
  obtain s1 where r: "resolve_identity w t (headers_of sc) s = (None, s1)"
    using assms(3) by (cases "resolve_identity w t (headers_of sc) s") auto
  have "?l \<longleftrightarrow> (case classify_public w (published_entry es) sc of
      Some slot \<Rightarrow> g = admit ''public'' (Some slot) None
    | None \<Rightarrow> anon_post_allowed sc \<and> g = admit ''public'' None None)"
    unfolding gate_call_def Let_def r split
    using assms(1,2,4) by (auto split: option.splits bool.splits)
  also have "\<dots> \<longleftrightarrow> ?r"
  proof (cases "classify_public w (published_entry es) sc")
    case None
    then have n: "classify_public w (published_entry es) sc \<noteq> Some slot" for slot by simp
    show ?thesis using n [unfolded classify_public_iff] None by (auto simp: anon_post_iff)
  next
    case (Some slot)
    then obtain name rest e where m: "sc_type sc = ''http''" "method_of sc \<in> {''GET'', ''HEAD''}"
        "path_is_safe (sc_get (sc_path sc))" "query_values w sc ''key'' \<in> {[], [[]], [slot]}"
      and app: "APP_PATH (sc_get (sc_path sc)) = Some (name, rest)"
      and ent: "published_entry es name = Some e" "entry_str e ''mode'' = MODE_PUBLIC" "slot = entry_str e ''slot''"
      unfolding classify_public_iff by blast
    have np: "method_of sc \<noteq> ''POST''" using m(2) by auto
    show ?thesis using m by (simp add: Some app ent np)
  qed
  finally show ?thesis .
qed

definition demo_scope :: scope where
  "demo_scope = \<lparr>sc_type = ''http'', sc_method = Some ''GET'', sc_path = Some ''/app/board/'', sc_query = [],
     sc_headers = [], sc_client = Some ''203.0.113.9''\<rparr>"

lemma demo_scope_facts:
  "sc_type demo_scope \<in> {''http'', ''websocket''}" "\<not> peer_is_trusted demo_site demo_scope"
  "headers_of demo_scope = []"
proof -
  show "sc_type demo_scope \<in> {''http'', ''websocket''}" "headers_of demo_scope = []"
    by (simp_all add: demo_scope_def headers_of_def)
  show "\<not> peer_is_trusted demo_site demo_scope"
    by (simp add: peer_is_trusted_def peer_zone_def demo_scope_def demo_site_def ipv4_mapped_def ip_unspecified_def
        ip_loopback_def ip_link_local_def peer_trust_disabled_def enabled_def site_env_def getenv_def)
qed

theorem anonymous_surface_witness:
  "fst (gate_call demo_site demo_tick (published_entry demo_entries) None demo_scope demo_signed_in)
     = Admitted (admit ''public'' (Some ''default'') None)"
proof -
  have r: "fst (resolve_identity demo_site demo_tick (headers_of demo_scope) demo_signed_in) = None"
    by (simp add: demo_scope_facts resolve_identity_def cookie_def sc_get_def)
  have k: "token_ok None (presented_token demo_site demo_scope (headers_of demo_scope)) \<noteq> Some True"
    by (simp add: token_ok_def read_token_def)
  have nt: "\<not> (peer_is_trusted demo_site demo_scope \<and> \<not> is_proxied (headers_of demo_scope))"
    by (simp add: demo_scope_facts)
  have p: "APP_PATH ''/app/board/'' = Some (''board'', Some ''/'')" "path_is_safe ''/app/board/''"
    by (code_simp, code_simp)
  have m: "method_of demo_scope = ''GET''" unfolding demo_scope_def by code_simp
  have e: "\<exists>e. published_entry demo_entries ''board'' = Some e \<and> entry_str e ''mode'' = MODE_PUBLIC
      \<and> entry_str e ''slot'' = ''default''"
    by (rule exI [of _ "the (published_entry demo_entries ''board'')"]) code_simp
  then obtain e where e: "published_entry demo_entries ''board'' = Some e" "entry_str e ''mode'' = MODE_PUBLIC"
    "entry_str e ''slot'' = ''default''" by blast
  have q: "query_values demo_site demo_scope ''key'' = []"
    by (simp add: query_values_def demo_site_def demo_scope_def)
  show ?thesis
    using anonymous_surface [OF demo_scope_facts(1) nt r k, of demo_entries "admit ''public'' (Some ''default'') None"]
      e q m p by (simp add: demo_scope_def sc_get_def)
qed


text \<open>The signed-in reader of a page that is exposed to them.\<close>

definition demo_visit_to :: "string \<Rightarrow> string \<Rightarrow> scope" where
  "demo_visit_to m p = \<lparr>sc_type = ''http'', sc_method = Some m, sc_path = Some p, sc_query = [],
     sc_headers = [(''Cookie'', ''theme=dark; frago_sid=tok-1'')], sc_client = Some ''203.0.113.9''\<rparr>"

definition demo_visit :: scope where
  "demo_visit = demo_visit_to ''GET'' ''/app/desk/''"

definition demo_list :: entries where
  "demo_list = [(''desk'', [(''mode'', JStr ''identity''), (''allow'', JList [JStr ''ada'']), (''runnable'', JBool True)])]"

lemma demo_visit_to_admitted:
  assumes "classify_public demo_site (published_entry demo_list) (demo_visit_to m p) = None"
    and "classify_identity demo_site (published_entry demo_list) (demo_visit_to m p) ''ada'' = (True, Some ''ada'')"
  shows "\<exists>s'. gate_call demo_site demo_tick (published_entry demo_list) None (demo_visit_to m p) demo_signed_in
     = (Admitted (admit ''identity'' (Some ''ada'') (Some ''ada'')), s')"
proof -
  have h: "headers_of (demo_visit_to m p) = headers_of (demo_visit_to [] [])" by (simp add: headers_of_def demo_visit_to_def)
  have c: "cookie (headers_of (demo_visit_to m p)) COOKIE_NAME = Some ''tok-1''" unfolding h by code_simp
  obtain ls s1 where rs: "resolve_session demo_site demo_tick (Some ''tok-1'') demo_signed_in = (Some ls, s1)"
    using demo_resolves by blast
  have "ls_identity ls = ''ada''"
    by (rule resolve_session_Some [OF demo_signed_in_facts(1) rs])
      (auto simp: demo_signed_in_facts session_view_def)
  then have r: "resolve_identity demo_site demo_tick (headers_of (demo_visit_to m p)) demo_signed_in = (Some ''ada'', s1)"
    by (simp add: resolve_identity_def c rs)
  have l1: "lims s1 = lims demo_signed_in"
    using resolve_session_state [OF demo_signed_in_facts(1), of demo_tick "Some ''tok-1''"] rs by simp
  have al: "fst (allow_visitor_request (Some ''ada'') (mono demo_tick) (lims s1))"
    unfolding l1 by (simp add: allow_visitor_request_def rl_allow_def demo_signed_in_def demo_state_def
        VISITOR_REQUEST_LIMIT_def new_limiter_def visitor_rate_env_def getenv_def demo_site_def Let_def)
  have t: "\<not> peer_is_trusted demo_site (demo_visit_to m p)"
    by (simp add: peer_is_trusted_def peer_zone_def demo_visit_to_def demo_site_def ipv4_mapped_def ip_unspecified_def
        ip_loopback_def ip_link_local_def peer_trust_disabled_def enabled_def site_env_def getenv_def)
  have ty: "sc_type (demo_visit_to m p) = ''http''" by (simp add: demo_visit_to_def)
  show ?thesis
    using al by (simp add: gate_call_def Let_def r t assms ty case_prod_unfold)
qed

lemma demo_visit_admitted:
  "\<exists>s'. gate_call demo_site demo_tick (published_entry demo_list) None demo_visit demo_signed_in
     = (Admitted (admit ''identity'' (Some ''ada'') (Some ''ada'')), s')"
  unfolding demo_visit_def by (rule demo_visit_to_admitted) (code_simp, code_simp)


text \<open>C3: who gets the owner's seat. A request is admitted to a zone with the owner's rights (\<open>local\<close> or
  \<open>token\<close>) only if it came straight from loopback, or from a private address on a network declared
  trusted, with no forwarding header and with peer trust not switched off; or if it presents exactly the
  token on disk. In particular a deployment behind a proxy with no token minted admits nobody as owner.\<close>

theorem owner_seat:
  assumes "gate_call w t entry_of tokfile sc s = (Admitted g, s')" and "is_owner_request (Some g) = Some True"
  shows "\<not> peer_trust_disabled w \<and> (\<forall>n \<in> set FORWARDING_HEADERS. dict_get (headers_of sc) n = None)
      \<and> (peer_zone w sc = ''loopback'' \<or> peer_zone w sc = ''private'' \<and> lan_is_trusted w)
    \<or> (\<exists>tok. tok \<noteq> [] \<and> read_token tokfile = Some tok \<and> presented_token w sc (headers_of sc) = Some tok)"
  using assms(1)
proof (cases rule: gate_admitted)
  case Local
  then show ?thesis
    by (auto simp: peer_is_trusted_def is_proxied_def list_ex_iff Let_def split: if_splits)
next
  case Token
  then show ?thesis
    by (auto simp: token_ok_def compare_digest_str_def split: option.splits if_splits)
qed (use assms(2) in \<open>auto simp: is_owner_request_def zone_of_def admit_def split: if_splits\<close>)

definition demo_api :: scope where
  "demo_api = demo_scope\<lparr>sc_path := Some ''/api/agent'', sc_headers := [(''Authorization'', ''Bearer s3cret'')]\<rparr>"

theorem owner_seat_witness:
  "\<exists>g s'. gate_call proxied_site demo_tick (published_entry demo_entries) (Some ''s3cret'') demo_api demo_state = (Admitted g, s')
     \<and> (\<exists>tok. tok \<noteq> [] \<and> read_token (Some ''s3cret'') = Some tok
          \<and> presented_token proxied_site demo_api (headers_of demo_api) = Some tok)"
proof -
  have c: "cookie (headers_of demo_api) COOKIE_NAME = None" "\<not> peer_is_trusted proxied_site demo_api"
    "classify_public proxied_site (published_entry demo_entries) demo_api = None" "\<not> anon_post_allowed demo_api"
    "token_ok (Some ''s3cret'') (presented_token proxied_site demo_api (headers_of demo_api)) = Some True"
    by (code_simp, code_simp, code_simp, code_simp, code_simp)
  have "sc_type demo_api = ''http''" by (simp add: demo_api_def demo_scope_def)
  then have g: "gate_call proxied_site demo_tick (published_entry demo_entries) (Some ''s3cret'') demo_api demo_state
      = (Admitted (admit ''token'' None None), demo_state)"
    by (simp add: gate_call_def Let_def resolve_identity_def c)
  have "is_owner_request (Some (admit ''token'' None None)) = Some True" by code_simp
  from owner_seat [OF g this] proxied_facts(1) g show ?thesis by blast
qed

text \<open>a forwarding header can only cost privileges. Appending any header of the forwarding list to a
  request leaves the gate's answer unchanged, except that a request that would have been taken for the
  owner's own machine is no longer: the zone is then never \<open>local\<close>.\<close>

theorem forwarding_header_costs:
  assumes "bytes_lower n \<in> set FORWARDING_HEADERS"
  shows "(fst (gate_call w t entry_of tokfile (sc\<lparr>sc_headers := sc_headers sc @ [(n, v)]\<rparr>) s) = Admitted g \<longrightarrow> frago_zone g \<noteq> ''local'')
    \<and> (gate_call w t entry_of tokfile (sc\<lparr>sc_headers := sc_headers sc @ [(n, v)]\<rparr>) s = gate_call w t entry_of tokfile sc s
       \<or> (\<exists>who. fst (gate_call w t entry_of tokfile sc s) = Admitted (admit ''local'' None who)))"
proof -
  define sc' where "sc' = sc\<lparr>sc_headers := sc_headers sc @ [(n, v)]\<rparr>"
  have "frago_zone g \<noteq> ''local''" if a: "fst (gate_call w t entry_of tokfile sc' s) = Admitted g"
  proof -
    obtain s' where "gate_call w t entry_of tokfile sc' s = (Admitted g, s')"
      using a by (cases "gate_call w t entry_of tokfile sc' s") auto
    then show ?thesis
      by (cases rule: gate_admitted) (use is_proxied_snoc [OF assms(1)] in \<open>auto simp: admit_def sc'_def\<close>)
  qed
  moreover have "gate_call w t entry_of tokfile sc' s = gate_call w t entry_of tokfile sc s
       \<or> (\<exists>who. fst (gate_call w t entry_of tokfile sc s) = Admitted (admit ''local'' None who))"
  proof (cases "peer_is_trusted w sc \<and> \<not> is_proxied (headers_of sc)")
    case True
    then show ?thesis
    proof (cases "sc_type sc \<in> {''http'', ''websocket''}")
      case False
      then show ?thesis by (simp add: gate_call_def sc'_def)
    qed (auto simp: gate_call_def Let_def case_prod_unfold)
  next
    case False
    then show ?thesis unfolding sc'_def using gate_with_forwarding [OF assms(1) False] by blast
  qed
  ultimately show ?thesis unfolding sc'_def by blast
qed

theorem forwarding_header_costs_witness:
  "bytes_lower ''Via'' \<in> set FORWARDING_HEADERS
    \<and> (gate_call demo_site demo_tick (published_entry demo_entries) None
         (demo_scope\<lparr>sc_headers := sc_headers demo_scope @ [(''Via'', ''1.1 squid'')]\<rparr>) demo_signed_in
       = gate_call demo_site demo_tick (published_entry demo_entries) None demo_scope demo_signed_in
     \<or> (\<exists>who. fst (gate_call demo_site demo_tick (published_entry demo_entries) None demo_scope demo_signed_in)
          = Admitted (admit ''local'' None who)))"
proof -
  have n: "bytes_lower ''Via'' \<in> set FORWARDING_HEADERS" by code_simp
  show ?thesis using forwarding_header_costs [OF n] n by blast
qed

text \<open>what the gate decided is what the routes read. For every admitted request the zone a route sees
  is one of the four and no reader raises; the slot it is handed is the one the gate recorded; the owner
  zones carry no slot; and the older readers agree with the newer ones.\<close>

theorem readers_agree_with_gate:
  assumes "gate_call w t entry_of tokfile sc s = (Admitted g, s')"
  shows "zone_of (Some g) = Some (frago_zone g) \<and> frago_zone g \<in> set ZONES
    \<and> slot_for (Some g) = Some (frago_slot g) \<and> identity_of (Some g) = frago_identity g
    \<and> is_owner_request (Some g) = Some (frago_zone g \<in> {''local'', ''token''})
    \<and> (frago_zone g \<in> {''local'', ''token''} \<longrightarrow> frago_slot g = None)
    \<and> (frago_zone g = ''identity'' \<longrightarrow> frago_slot g \<in> {None, frago_identity g})
    \<and> is_public_request (Some g) = Some (frago_public g) \<and> public_slot (Some g) = Some (frago_public_slot g)"
proof -
  have "\<exists>z sl i. g = admit z sl i \<and> z \<in> set ZONES \<and> (z \<in> {''local'', ''token''} \<longrightarrow> sl = None)
      \<and> (z = ''identity'' \<longrightarrow> sl \<in> {None, i})"
    using assms
  proof (cases rule: gate_admitted)
    case (Identity who slot)
    then show ?thesis
      using classify_identity_True [OF Identity(2)]
      by - (rule exI [of _ "''identity''"], rule exI [of _ slot], rule exI [of _ "Some who"], auto simp: ZONES_def)
  qed (auto simp: ZONES_def)
  then obtain z sl i where g: "g = admit z sl i" and z: "z \<in> set ZONES"
    and o: "z \<in> {''local'', ''token''} \<longrightarrow> sl = None" "z = ''identity'' \<longrightarrow> sl \<in> {None, i}" by blast
  have "z \<in> {''local'', ''public'', ''identity'', ''token''}" using z by (simp add: ZONES_def)
  then show ?thesis
    using o by (auto simp: g zone_of_def slot_for_def identity_of_def is_owner_request_def
        is_public_request_def public_slot_def admit_def ZONES_def)
qed

theorem readers_agree_with_gate_witness:
  "slot_for (Some (admit ''identity'' (Some ''ada'') (Some ''ada''))) = Some (Some ''ada'')
    \<and> is_owner_request (Some (admit ''identity'' (Some ''ada'') (Some ''ada''))) = Some False"
proof -
  obtain s' where g: "gate_call demo_site demo_tick (published_entry demo_list) None demo_visit demo_signed_in
     = (Admitted (admit ''identity'' (Some ''ada'') (Some ''ada'')), s')"
    using demo_visit_admitted by blast
  show ?thesis using readers_agree_with_gate [OF g] by (simp add: admit_def)
qed

text \<open>a token that is not ASCII crashes the gate. If a token is on disk and a caller who is admitted by
  nothing else presents a non-empty token with a byte outside ASCII, the comparison raises \<open>TypeError\<close>
  and the request ends in an exception instead of the 401 the gate promises. Nothing is admitted.\<close>

theorem non_ascii_token_raises:
  assumes "sc_type sc \<in> {''http'', ''websocket''}"
    and "\<not> (peer_is_trusted w sc \<and> \<not> is_proxied (headers_of sc))"
    and "fst (resolve_identity w t (headers_of sc) s) = None"
    and "classify_public w entry_of sc = None" "\<not> anon_post_allowed sc"
    and "read_token tokfile = Some tok" "presented_token w sc (headers_of sc) = Some p" "\<not> is_ascii p"
  shows "fst (gate_call w t entry_of tokfile sc s) = RaisedTypeError"
proof -
  have "p \<noteq> []" using assms(8) by (auto simp: is_ascii_def)
  then have "token_ok tokfile (presented_token w sc (headers_of sc)) = None"
    using assms(6-8) by (simp add: token_ok_def compare_digest_str_def)
  moreover obtain s1 where "resolve_identity w t (headers_of sc) s = (None, s1)"
    using assms(3) by (cases "resolve_identity w t (headers_of sc) s") auto
  ultimately show ?thesis
    using assms(1,2,4,5) by (auto simp: gate_call_def Let_def)
qed

definition demo_bad_token :: scope where
  "demo_bad_token = demo_api\<lparr>sc_headers := [(''X-Frago-Token'', [CHR 0xE9])]\<rparr>"

theorem non_ascii_token_raises_witness:
  "fst (gate_call proxied_site demo_tick (published_entry demo_entries) (Some ''s3cret'') demo_bad_token demo_state)
     = RaisedTypeError"
proof (rule non_ascii_token_raises [where tok = "''s3cret''" and p = "[CHR 0xE9]"])
  show "sc_type demo_bad_token \<in> {''http'', ''websocket''}"
    by (simp add: demo_bad_token_def demo_api_def demo_scope_def)
  have "cookie (headers_of demo_bad_token) COOKIE_NAME = None" by code_simp
  then show "fst (resolve_identity proxied_site demo_tick (headers_of demo_bad_token) demo_state) = None"
    by (simp add: resolve_identity_def)
  show "\<not> (peer_is_trusted proxied_site demo_bad_token \<and> \<not> is_proxied (headers_of demo_bad_token))" by code_simp
  show "classify_public proxied_site (published_entry demo_entries) demo_bad_token = None" by code_simp
  show "\<not> anon_post_allowed demo_bad_token" by code_simp
  show "read_token (Some ''s3cret'') = Some ''s3cret''" by code_simp
  show "presented_token proxied_site demo_bad_token (headers_of demo_bad_token) = Some [CHR 0xE9]" by code_simp
  show "\<not> is_ascii [CHR 0xE9]" by code_simp
qed

text \<open>the sign-in redirect leads to an open door on this site. A target always has the form
  \<open>/app/<portal>/?next=<name>\<close> where the portal is the configured one, is exposed in public mode and is
  not the page asked for; the page asked for is exposed in identity mode; and following the redirect
  serves the portal to an anonymous browser, unless the portal's name starts with a dot. So the browser
  is not sent around in circles.\<close>

theorem sign_in_door_opens:
  assumes "sign_in_redirect w (published_entry es) sc h = Some target"
  shows "\<exists>portal name slot. target = ''/app/'' @ portal @ ''/?next='' @ name \<and> login_portal w = Some portal
    \<and> name \<noteq> portal \<and> valid_value name \<and> published_slot es portal = Some slot \<and> published_slot es name = None
    \<and> (hd portal \<noteq> CHR ''.'' \<and> sc_type sc2 = ''http'' \<and> method_of sc2 = ''GET''
        \<and> sc_path sc2 = Some (''/app/'' @ portal @ ''/'') \<and> query_values w sc2 ''key'' = []
       \<longrightarrow> classify_public w (published_entry es) sc2 = Some slot)"
proof -
  obtain name rest portal e door where f: "login_portal w = Some portal" "name \<noteq> portal"
    "published_entry es name = Some e" "entry_str e ''mode'' = MODE_IDENTITY"
    "published_entry es portal = Some door" "entry_str door ''mode'' = MODE_PUBLIC"
    "target = ''/app/'' @ portal @ ''/?next='' @ name"
    using assms by (auto simp: sign_in_redirect_def Let_def split: if_splits option.splits)
  have v: "valid_value portal" "valid_value name" using exposed.name_checked f(3,5) by blast+
  have s: "published_slot es portal = Some (entry_str door ''slot'')" "published_slot es name = None"
    using f by (simp_all add: published_slot_def)
  have "classify_public w (published_entry es) sc2 = Some (entry_str door ''slot'')"
    if "hd portal \<noteq> CHR ''.''" "sc_type sc2 = ''http''" "method_of sc2 = ''GET''"
      "sc_path sc2 = Some (''/app/'' @ portal @ ''/'')" "query_values w sc2 ''key'' = []"
    using that f app_path_of_page [OF v(1)] path_safe_of_page [OF v(1) that(1)]
    by (simp add: classify_public_iff sc_get_def)
  then show ?thesis using f s v(2) by blast
qed

theorem sign_in_door_opens_witness:
  "sign_in_redirect demo_site (published_entry demo_entries) (demo_scope\<lparr>sc_path := Some ''/app/desk/''\<rparr>)
     [(''accept'', ''text/html,*/*'')] = Some ''/app/frago_login_portal/?next=desk''
   \<and> (\<exists>portal name slot. ''/app/frago_login_portal/?next=desk'' = ''/app/'' @ portal @ ''/?next='' @ name
        \<and> login_portal demo_site = Some portal \<and> published_slot demo_entries portal = Some slot)"
proof -
  have r: "sign_in_redirect demo_site (published_entry demo_entries) (demo_scope\<lparr>sc_path := Some ''/app/desk/''\<rparr>)
     [(''accept'', ''text/html,*/*'')] = Some ''/app/frago_login_portal/?next=desk''"
    by code_simp
  show ?thesis using sign_in_door_opens [OF r] r by blast
qed

end
