(* ===== verification/Home_Files.thy ===== *)
theory Home_Files
  imports Access_Gate
begin

text \<open>
  What the server does to its own home directory when it starts: moving account data from the old layout
  to the new one (\<open>migrate_user_state\<close> of \<open>server/identity.py\<close>), tightening permissions (\<open>harden_home\<close> of
  \<open>server/security.py\<close>) and warning about the one dangerous deployment (\<open>deployment_warning\<close>).
  Symbolic links are a predicate on paths.
\<close>

subsection \<open>Directories\<close>

text \<open>The names directly below a directory, sorted.\<close>

definition listing :: "file_sys \<Rightarrow> path \<Rightarrow> string list" where
  "listing fs d =
     sort (remdups (map last (filter (\<lambda>p. p \<noteq> [] \<and> butlast p = d) (map fst (fs_files fs) @ map fst (fs_dirs fs)))))"

definition ends_with :: "string \<Rightarrow> string \<Rightarrow> bool" where
  "ends_with s suf = (length suf \<le> length s \<and> drop (length s - length suf) s = suf)"

definition rmdir_if_empty :: "path \<Rightarrow> file_sys \<Rightarrow> file_sys" where
  "rmdir_if_empty d fs = (if listing fs d = [] then fs\<lparr>fs_dirs := dict_del d (fs_dirs fs)\<rparr> else fs)"

definition path_parent :: "path \<Rightarrow> path" where
  "path_parent p = (if length p = 1 \<and> is_absolute p then p else butlast p)"

text \<open>\<open>Path.stem\<close> of a name that matched \<open>*.json\<close>: a leading dot starts no suffix.\<close>

definition json_stem :: "string \<Rightarrow> string" where
  "json_stem n = (if n = ''.json'' then n else take (length n - 5) n)"

subsection \<open>Moving account data\<close>

definition SLOT_NAME :: "string \<Rightarrow> bool" where
  "SLOT_NAME s = match_class_plus safe_name_char s"

definition legacy_user_state_dir :: "site \<Rightarrow> path" where
  "legacy_user_state_dir w =
     (let dflt = home_dir (st_os w) @ [''.frago'', ''app-state-users'']
      in env_path (st_os w) ''FRAGO_LEGACY_USER_STATE_DIR''
           (case site_env w ''FRAGO_USER_STATE_DIR'' of
              Some v \<Rightarrow> if v \<noteq> [] then path_parent (expanduser (st_os w) (path_of v)) @ [''app-state-users''] else dflt
            | None \<Rightarrow> dflt))"

definition account_state_dir :: "site \<Rightarrow> string \<Rightarrow> file_sys \<Rightarrow> file_sys" where
  "account_state_dir w account fs =
     (let root = id_user_state_dir w; acc = root @ [account]; state = acc @ [''state'']
      in fold (chmod_dir 448) [root, acc, state] (mkdir_parents state fs))"

definition migration_target :: "site \<Rightarrow> string \<Rightarrow> string \<Rightarrow> path" where
  "migration_target w recipe account = id_user_state_dir w @ [account, ''state'', recipe @ ''.json'']"

text \<open>One slot file; \<open>stuck\<close> are the files whose move raises \<open>OSError\<close>.\<close>

definition migrate_file ::
    "site \<Rightarrow> (path \<Rightarrow> bool) \<Rightarrow> (path \<Rightarrow> bool) \<Rightarrow> string \<Rightarrow> string \<Rightarrow> nat \<times> file_sys \<Rightarrow> nat \<times> file_sys" where
  "migrate_file w is_symlink stuck recipe n x =
     (let fs = snd x; p = legacy_user_state_dir w @ [recipe, n]; account = json_stem n
      in if is_symlink p \<or> \<not> is_file fs p then x
         else if \<not> SLOT_NAME account \<or> account \<in> {''.'', ''..''} then x
         else let target = migration_target w recipe account
              in if is_file fs target \<or> is_dir fs target then x
                 else let fs1 = account_state_dir w account fs
                      in if stuck p then (fst x, fs1)
                         else (case dict_get (fs_files fs1) p of
                                 None \<Rightarrow> (fst x, fs1)
                               | Some f \<Rightarrow> (Suc (fst x), write_file 384 target (f_text f) (remove_file p fs1))))"

definition migrate_recipe ::
    "site \<Rightarrow> (path \<Rightarrow> bool) \<Rightarrow> (path \<Rightarrow> bool) \<Rightarrow> string \<Rightarrow> nat \<times> file_sys \<Rightarrow> nat \<times> file_sys" where
  "migrate_recipe w is_symlink stuck recipe x =
     (let d = legacy_user_state_dir w @ [recipe]
      in if is_symlink d \<or> \<not> is_dir (snd x) d then x
         else let y = fold (migrate_file w is_symlink stuck recipe)
                        (filter (\<lambda>n. ends_with n ''.json'') (listing (snd x) d)) x
              in (fst y, rmdir_if_empty d (snd y)))"

definition migrate_user_state ::
    "site \<Rightarrow> (path \<Rightarrow> bool) \<Rightarrow> (path \<Rightarrow> bool) \<Rightarrow> file_sys \<Rightarrow> nat \<times> file_sys" where
  "migrate_user_state w is_symlink stuck fs =
     (let legacy = legacy_user_state_dir w
      in if \<not> is_dir fs legacy then (0, fs)
         else let y = fold (migrate_recipe w is_symlink stuck) (listing fs legacy) (0, fs)
              in (fst y, rmdir_if_empty legacy (snd y)))"

subsection \<open>Permissions\<close>

definition chmod_path :: "nat \<Rightarrow> path \<Rightarrow> file_sys \<Rightarrow> file_sys" where
  "chmod_path m p fs =
     (case dict_get (fs_files fs) p of
        Some f \<Rightarrow> fs\<lparr>fs_files := dict_set p (f\<lparr>f_mode := m\<rparr>) (fs_files fs)\<rparr>
      | None \<Rightarrow> chmod_dir m p fs)"

text \<open>\<open>rglob\<close>: everything strictly below a directory.\<close>

definition below :: "file_sys \<Rightarrow> path \<Rightarrow> path list" where
  "below fs d = filter (strict_prefix d) (map fst (fs_files fs) @ map fst (fs_dirs fs))"

definition harden_state_dir :: "(path \<Rightarrow> bool) \<Rightarrow> path \<Rightarrow> file_sys \<Rightarrow> file_sys" where
  "harden_state_dir is_symlink base fs =
     (if is_dir fs base
      then fold (\<lambda>p x. if is_symlink p then x else chmod_path (if is_dir x p then 448 else 384) p x)
             (below fs base) (chmod_dir 448 base fs)
      else fs)"

definition SECRET_FILES :: "string list" where
  "SECRET_FILES =
     [''server.log'', ''config.json'', ''config.yaml'', ''published.json'', ''server-token'', ''remotes.json'',
      ''users.json'', ''users.json.lock'']"

definition harden_secrets :: "path \<Rightarrow> file_sys \<Rightarrow> file_sys" where
  "harden_secrets home fs =
     fold (\<lambda>n x. if is_file x (home @ [n]) then chmod_path 384 (home @ [n]) x else x) SECRET_FILES fs"

definition harden_sessions :: "(path \<Rightarrow> bool) \<Rightarrow> path \<Rightarrow> file_sys \<Rightarrow> file_sys" where
  "harden_sessions is_symlink sessions fs =
     (if is_dir fs sessions
      then fold (\<lambda>n x. if is_symlink (sessions @ [n]) then x else chmod_path 384 (sessions @ [n]) x)
             (filter (\<lambda>n. ends_with n ''.json'') (listing fs sessions)) (chmod_dir 448 sessions fs)
      else fs)"

definition harden_home :: "site \<Rightarrow> (path \<Rightarrow> bool) \<Rightarrow> file_sys \<Rightarrow> file_sys" where
  "harden_home w is_symlink fs =
     (let home = home_dir (st_os w) @ [''.frago'']
      in if \<not> is_dir fs home then fs
         else fold (\<lambda>r. harden_state_dir is_symlink (home @ [r])) [''app-state'', ''users'', ''app-state-users'']
                (harden_sessions is_symlink (home @ [''login-sessions''])
                  (harden_secrets home (chmod_dir 448 home fs))))"

subsection \<open>The deployment warning\<close>

definition get_server_host :: "site \<Rightarrow> string" where
  "get_server_host w = (case site_env w ''FRAGO_SERVER_HOST'' of Some h \<Rightarrow> h | None \<Rightarrow> ''0.0.0.0'')"

datatype deployment_advice =
    ProxyUnnamed bool
  | AddressTrusted bool

text \<open>\<open>deployment_warning\<close>: which of the texts is returned. \<open>ProxyUnnamed\<close> carries whether the passphrase is
  missing too, \<open>AddressTrusted\<close> whether this is a container.\<close>

definition deployment_warning :: "site \<Rightarrow> deployment_advice option" where
  "deployment_warning w =
     (if peer_trust_disabled w
      then if trusted_proxies w = [] then Some (ProxyUnnamed (signup_gate w = None)) else None
      else let host = strip (get_server_host w);
               bound_to_loopback = host \<in> {''127.0.0.1'', ''localhost'', ''::1''};
               containerised = in_container w
           in if \<not> (bound_to_loopback \<or> containerised) then None else Some (AddressTrusted containerised))"

subsection \<open>Nothing is lost\<close>

lemma fold_keeps: "(\<And>x s. P s \<Longrightarrow> P (f x s)) \<Longrightarrow> P s \<Longrightarrow> P (fold f xs s)"
  by (induction xs arbitrary: s) simp_all

lemma account_state_files [simp]: "fs_files (account_state_dir w a fs) = fs_files fs"
  by (simp add: account_state_dir_def Let_def)

lemma rmdir_files [simp]: "fs_files (rmdir_if_empty d fs) = fs_files fs"
  by (simp add: rmdir_if_empty_def)

text \<open>Every file of \<open>fs0\<close> is still where it was, or it is a slot file of the old layout and is now at its
  target, unreadable to others.\<close>

definition carried :: "site \<Rightarrow> file_sys \<Rightarrow> file_sys \<Rightarrow> bool" where
  "carried w fs0 fs \<longleftrightarrow>
     (\<forall>p f. dict_get (fs_files fs0) p = Some f \<longrightarrow>
        dict_get (fs_files fs) p = Some f
        \<or> (\<exists>recipe n. p = legacy_user_state_dir w @ [recipe, n]
             \<and> dict_get (fs_files fs) (migration_target w recipe (json_stem n)) = Some \<lparr>f_mode = 384, f_text = f_text f\<rparr>))"

lemma target_not_legacy:
  assumes "\<not> prefix (id_user_state_dir w) (legacy_user_state_dir w)"
  shows "migration_target w r a \<noteq> legacy_user_state_dir w @ [r', n]"
proof
  assume "migration_target w r a = legacy_user_state_dir w @ [r', n]"
  then have "id_user_state_dir w @ [a] = legacy_user_state_dir w" by (simp add: migration_target_def)
  then show False using assms by (metis prefixI)
qed

lemma carried_migrate_file:
  assumes "\<not> prefix (id_user_state_dir w) (legacy_user_state_dir w)" "carried w fs0 (snd x)"
  shows "carried w fs0 (snd (migrate_file w lnk stuck recipe n x))"
proof -
  let ?p = "legacy_user_state_dir w @ [recipe, n]"
  let ?t = "migration_target w recipe (json_stem n)"
  let ?y = "migrate_file w lnk stuck recipe n x"
  show ?thesis
  proof (cases "fs_files (snd ?y) = fs_files (snd x)")
    case True
    then show ?thesis using assms(2) by (simp add: carried_def)
  next
    case False
    then obtain f where 3: "dict_get (fs_files (snd x)) ?p = Some f" "dict_get (fs_files (snd x)) ?t = None"
      "fs_files (snd ?y) =
         fs_files (write_file 384 ?t (f_text f) (remove_file ?p (account_state_dir w (json_stem n) (snd x))))"
      by (auto simp: migrate_file_def Let_def is_file_def split: if_splits option.splits)
    have ne: "?t \<noteq> ?p" using target_not_legacy [OF assms(1)] .
    show ?thesis unfolding carried_def
    proof (intro allI impI)
      fix p g assume g: "dict_get (fs_files fs0) p = Some g"
      from assms(2) g consider "dict_get (fs_files (snd x)) p = Some g"
        | r m where "p = legacy_user_state_dir w @ [r, m]"
            "dict_get (fs_files (snd x)) (migration_target w r (json_stem m)) = Some \<lparr>f_mode = 384, f_text = f_text g\<rparr>"
        unfolding carried_def by blast
      then show "dict_get (fs_files (snd (migrate_file w lnk stuck recipe n x))) p = Some g
        \<or> (\<exists>recipe' m. p = legacy_user_state_dir w @ [recipe', m]
             \<and> dict_get (fs_files (snd (migrate_file w lnk stuck recipe n x))) (migration_target w recipe' (json_stem m))
               = Some \<lparr>f_mode = 384, f_text = f_text g\<rparr>)"
      proof cases
        case 1
        show ?thesis
        proof (cases "p = ?p")
          case True
          then have "f = g" using 1 3(1) by simp
          then show ?thesis using True 3(3) by simp
        next
          case False
          then show ?thesis using 1 3 by auto
        qed
      next
        case 2
        have "migration_target w r (json_stem m) \<noteq> ?p" using target_not_legacy [OF assms(1)] .
        moreover have "migration_target w r (json_stem m) \<noteq> ?t" using 2 3(2) by auto
        ultimately have "dict_get (fs_files (snd (migrate_file w lnk stuck recipe n x))) (migration_target w r (json_stem m))
            = Some \<lparr>f_mode = 384, f_text = f_text g\<rparr>" using 2 3(3) by simp
        with 2(1) show ?thesis by blast
      qed
    qed
  qed
qed

lemma carried_rmdir [simp]: "carried w fs0 (rmdir_if_empty d fs) = carried w fs0 fs"
  by (simp add: carried_def)

lemma carried_migrate:
  assumes "\<not> prefix (id_user_state_dir w) (legacy_user_state_dir w)"
  shows "carried w fs (snd (migrate_user_state w lnk stuck fs))"
proof -
  have r: "carried w fs (snd x) \<Longrightarrow> carried w fs (snd (migrate_recipe w lnk stuck recipe x))" for recipe x
    using fold_keeps [of "\<lambda>x. carried w fs (snd x)" "migrate_file w lnk stuck recipe", OF carried_migrate_file [OF assms]]
    by (simp add: migrate_recipe_def Let_def)
  have "carried w fs fs" by (simp add: carried_def)
  then show ?thesis
    using fold_keeps [of "\<lambda>x. carried w fs (snd x)" "migrate_recipe w lnk stuck", OF r] by (simp add: migrate_user_state_def Let_def)
qed

subsection \<open>Tightening\<close>

text \<open>For a file that is no directory: it has its text, and its mode is its old one or \<open>0600\<close>; and the
  same with the mode settled.\<close>

definition kept :: "path \<Rightarrow> file_rec \<Rightarrow> file_sys \<Rightarrow> bool" where
  "kept p f x \<longleftrightarrow> \<not> is_dir x p \<and> dict_get (fs_files x) p \<in> {Some f, Some (f\<lparr>f_mode := 384\<rparr>)}"

definition locked :: "path \<Rightarrow> file_rec \<Rightarrow> file_sys \<Rightarrow> bool" where
  "locked p f x \<longleftrightarrow> \<not> is_dir x p \<and> dict_get (fs_files x) p = Some (f\<lparr>f_mode := 384\<rparr>)"

lemma locked_kept: "locked p f x \<Longrightarrow> kept p f x"
  by (simp add: locked_def kept_def)

lemma is_dir_chmod_path [simp]: "is_dir (chmod_path m q x) p = is_dir x p"
  by (simp add: chmod_path_def is_dir_def chmod_dir_def split: option.split)

lemma chmod_path_files:
  "dict_get (fs_files (chmod_path m q x)) p =
     (if p = q then map_option (\<lambda>f. f\<lparr>f_mode := m\<rparr>) (dict_get (fs_files x) q) else dict_get (fs_files x) p)"
  by (simp add: chmod_path_def split: option.split)

lemma chmod_dir_keeps [simp]: "kept p f (chmod_dir m q x) = kept p f x" "locked p f (chmod_dir m q x) = locked p f x"
  by (simp_all add: kept_def locked_def)

lemma chmod_384_keeps: "kept p f x \<Longrightarrow> kept p f (chmod_path 384 q x)" "locked p f x \<Longrightarrow> locked p f (chmod_path 384 q x)"
  "kept p f x \<Longrightarrow> locked p f (chmod_path 384 p x)"
  by (auto simp: kept_def locked_def chmod_path_files)

lemma chmod_by_kind_keeps:
  "kept p f x \<Longrightarrow> kept p f (chmod_path (if is_dir x q then 448 else 384) q x)"
  "locked p f x \<Longrightarrow> locked p f (chmod_path (if is_dir x q then 448 else 384) q x)"
  by (auto simp: kept_def locked_def chmod_path_files)

lemma fold_settles:
  assumes "\<And>q x. kept p f x \<Longrightarrow> kept p f (g q x)" "\<And>q x. locked p f x \<Longrightarrow> locked p f (g q x)"
    and "\<And>x. kept p f x \<Longrightarrow> locked p f (g a x)" "a \<in> set qs" "kept p f x"
  shows "locked p f (fold g qs x)"
  using assms(4,5)
proof (induction qs arbitrary: x)
  case (Cons q qs)
  show ?case
  proof (cases "q = a")
    case True
    then have "locked p f (g q x)" using assms(3) Cons.prems by simp
    then show ?thesis using fold_keeps [of "locked p f" g] assms(2) by simp
  qed (use Cons assms(1) in auto)
qed simp

lemma harden_state_dir_keeps:
  "kept p f x \<Longrightarrow> kept p f (harden_state_dir lnk d x)" "locked p f x \<Longrightarrow> locked p f (harden_state_dir lnk d x)"
  using fold_keeps [of "kept p f" "\<lambda>q x. if lnk q then x else chmod_path (if is_dir x q then 448 else 384) q x" "chmod_dir 448 d x"]
    fold_keeps [of "locked p f" "\<lambda>q x. if lnk q then x else chmod_path (if is_dir x q then 448 else 384) q x" "chmod_dir 448 d x"]
  by (auto simp: harden_state_dir_def chmod_by_kind_keeps)

lemma harden_state_dir_settles:
  assumes "kept p f x" "is_dir x d" "strict_prefix d p" "\<not> lnk p"
  shows "locked p f (harden_state_dir lnk d x)"
proof -
  have "p \<in> set (below x d)"
    using assms(1,3) by (auto simp: below_def kept_def dest: map_of_SomeD intro: rev_image_eqI)
  then show ?thesis
    using assms
    by (auto simp: harden_state_dir_def kept_def chmod_by_kind_keeps intro!: fold_settles [of p f _ p])
      (auto simp: kept_def locked_def chmod_path_files)
qed

lemma is_dir_fold: "(\<And>q x. is_dir (g q x) d = is_dir x d) \<Longrightarrow> is_dir (fold g qs x) d = is_dir x d"
  by (induction qs arbitrary: x) simp_all

lemma is_dir_harden [simp]:
  "is_dir (harden_secrets h x) d = is_dir x d" "is_dir (harden_sessions lnk s x) d = is_dir x d"
  "is_dir (harden_state_dir lnk s x) d = is_dir x d"
  by (simp_all add: harden_secrets_def harden_sessions_def harden_state_dir_def is_dir_fold)

lemma harden_secrets_keeps: "kept p f x \<Longrightarrow> kept p f (harden_secrets h x)"
  unfolding harden_secrets_def by (rule fold_keeps [rotated]) (simp_all add: chmod_384_keeps)

lemma harden_secrets_settles:
  assumes "kept p f x" "n \<in> set SECRET_FILES" "p = h @ [n]"
  shows "locked p f (harden_secrets h x)"
  unfolding harden_secrets_def
proof (rule fold_settles [where a = n])
  show "locked p f (if is_file x (h @ [n]) then chmod_path 384 (h @ [n]) x else x)" if "kept p f x" for x
    using that assms(3) chmod_384_keeps(3) [OF that] by (auto simp: kept_def is_file_def)
qed (use assms in \<open>simp_all add: chmod_384_keeps\<close>)

lemma harden_sessions_keeps:
  "kept p f x \<Longrightarrow> kept p f (harden_sessions lnk s x)" "locked p f x \<Longrightarrow> locked p f (harden_sessions lnk s x)"
  unfolding harden_sessions_def
  by (auto intro!: fold_keeps [of "kept p f"] fold_keeps [of "locked p f"] simp: chmod_384_keeps)

lemma harden_roots_settle:
  assumes "kept p f x" "r \<in> set rs" "is_dir x (h @ [r])" "strict_prefix (h @ [r]) p" "\<not> lnk p"
  shows "locked p f (fold (\<lambda>r. harden_state_dir lnk (h @ [r])) rs x)"
  using assms(1-3)
proof (induction rs arbitrary: x)
  case (Cons q rs)
  show ?case
  proof (cases "q = r")
    case True
    have "locked p f (harden_state_dir lnk (h @ [q]) x)"
      using harden_state_dir_settles Cons.prems assms(4,5) True by blast
    then show ?thesis
      using fold_keeps [of "locked p f" "\<lambda>r. harden_state_dir lnk (h @ [r])"] by (simp add: harden_state_dir_keeps)
  qed (use Cons harden_state_dir_keeps(1) in simp)
qed simp

text \<open>The warning that no account can be created is printed exactly when none can.\<close>

lemma warning_iff_sign_up_closed:
  "deployment_warning w = Some (ProxyUnnamed True) \<longleftrightarrow> (\<forall>gate. \<not> check_signup_gate w gate)"
proof (cases "signup_gate w")
  case (Some g)
  then have "check_signup_gate w (Some g)" by (simp add: check_signup_gate_iff)
  then show ?thesis using Some by (auto simp: deployment_warning_def Let_def)
qed (auto simp: deployment_warning_def check_signup_gate_iff ip_rate_limiting_available_def Let_def)

subsection \<open>Properties\<close>

text \<open>C39: moving account data loses nothing and overwrites nothing. Whatever files could not be moved,
  whatever links there are and whatever is at the destination already: after the migration every file
  is unchanged where it was, or it was a slot file of the old layout and its text is at the address of
  the new layout, readable by the owner only. (The new root does not contain the old one.)\<close>

theorem migration_loses_nothing:
  assumes "\<not> prefix (id_user_state_dir w) (legacy_user_state_dir w)"
    and "dict_get (fs_files fs) p = Some f"
  shows "dict_get (fs_files (snd (migrate_user_state w lnk stuck fs))) p = Some f
    \<or> (\<exists>recipe n. p = legacy_user_state_dir w @ [recipe, n]
         \<and> dict_get (fs_files (snd (migrate_user_state w lnk stuck fs)))
             (id_user_state_dir w @ [json_stem n, ''state'', recipe @ ''.json''])
           = Some \<lparr>f_mode = 384, f_text = f_text f\<rparr>)"
  using carried_migrate [OF assms(1), of fs lnk stuck] assms(2) by (simp add: carried_def migration_target_def)

theorem migration_loses_nothing_witness:
  "\<exists>p f. p = [''/'', ''home'', ''ada'', ''.frago'', ''app-state-users'', ''desk'', ''a1.json'']
     \<and> (let fs = \<lparr>fs_files = [(p, f)], fs_dirs = [(take 5 p, 493), (take 6 p, 493)]\<rparr> in
         dict_get (fs_files (snd (migrate_user_state demo_site (\<lambda>_. False) (\<lambda>_. False) fs))) p = Some f
         \<or> (\<exists>recipe n. p = legacy_user_state_dir demo_site @ [recipe, n]
             \<and> dict_get (fs_files (snd (migrate_user_state demo_site (\<lambda>_. False) (\<lambda>_. False) fs)))
                 (id_user_state_dir demo_site @ [json_stem n, ''state'', recipe @ ''.json''])
               = Some \<lparr>f_mode = 384, f_text = f_text f\<rparr>))"
proof -
  let ?p = "[''/'', ''home'', ''ada'', ''.frago'', ''app-state-users'', ''desk'', ''a1.json'']"
  let ?f = "\<lparr>f_mode = 420, f_text = Parsed (JObj [])\<rparr>"
  have n: "\<not> prefix (id_user_state_dir demo_site) (legacy_user_state_dir demo_site)" by code_simp
  show ?thesis
    by (rule exI [of _ ?p], rule exI [of _ ?f], unfold Let_def, intro conjI refl migration_loses_nothing [OF n]) simp
qed



end
