(* ===== verification/Recipe_Params.thy ===== *)
theory Recipe_Params
  imports Py_Path
begin

text \<open>
  \<open>recipes/metadata.py\<close>: what a recipe declares about itself, the check of that declaration, and the check
  of the parameters of a run against the declared inputs. Error messages are constructors that carry
  what the message names. The regular expression engine is the operation \<open>fullmatch\<close>; None is \<open>re.error\<close>.
\<close>

record recipe_metadata =
  rm_name :: string
  rm_type :: string
  rm_runtime :: string
  rm_version :: string
  rm_description :: string
  rm_use_cases :: "string list"
  rm_output_targets :: "string list"
  rm_inputs :: "(string, entry) dict"
  rm_dependencies :: "string list"
  rm_tags :: "string list"
  rm_secrets :: "(string, json) dict"
  rm_no_proxy :: bool
  rm_daemon :: bool
  rm_restart_policy :: string
  rm_ui_from :: "string option"

subsection \<open>The declaration\<close>

datatype metadata_problem =
    BadRecipeName
  | BadType string
  | BadRuntime string
  | BadVersion string
  | BadDescription
  | NoUseCases
  | NoOutputTargets
  | BadOutputTarget string
  | BadRestartPolicy string
  | IncompleteInput string
  | BadSecretName string
  | SecretNotDict string
  | SecretNoType string
  | SecretBadType string
  | SecretBadRequired string

definition is_letter :: "char \<Rightarrow> bool" where
  "is_letter c = (let n = (of_char c :: nat) in 65 \<le> n \<and> n \<le> 90 \<or> 97 \<le> n \<and> n \<le> 122)"

text \<open>The three patterns of the check; \<open>$\<close> also matches before a final newline.\<close>

definition RECIPE_NAME :: "string \<Rightarrow> bool" where
  "RECIPE_NAME s = match_class_plus (\<lambda>c. is_letter c \<or> is_digit c \<or> c = CHR ''_'' \<or> c = CHR ''-'') s"

definition VERSION :: "string \<Rightarrow> bool" where
  "VERSION s =
     (let parts = split_on CHR ''.'' (chomp_nl s)
      in length parts \<in> {2, 3} \<and> list_all (\<lambda>p. p \<noteq> [] \<and> list_all is_digit p) parts)"

definition SECRET_NAME :: "string \<Rightarrow> bool" where
  "SECRET_NAME s =
     (let t = chomp_nl s
      in t \<noteq> [] \<and> (is_letter (hd t) \<or> hd t = CHR ''_'')
         \<and> list_all (\<lambda>c. is_letter c \<or> is_digit c \<or> c = CHR ''_'') t)"

definition input_problems :: "(string, entry) dict \<Rightarrow> metadata_problem list" where
  "input_problems inputs =
     map (\<lambda>(n, d). IncompleteInput n)
       (filter (\<lambda>(n, d). dict_get d ''type'' = None \<or> dict_get d ''required'' = None) inputs)"

definition secret_problems :: "string \<Rightarrow> json \<Rightarrow> metadata_problem list" where
  "secret_problems n j =
     (if \<not> SECRET_NAME n then [BadSecretName n] else []) @
     (case j of
        JObj d \<Rightarrow>
          (case dict_get d ''type'' of
             None \<Rightarrow> [SecretNoType n]
           | Some t \<Rightarrow>
               if t \<in> {JStr ''string'', JStr ''number'', JStr ''boolean'', JStr ''object'', JStr ''array''} then []
               else [SecretBadType n]) @
          (case dict_get d ''required'' of
             None \<Rightarrow> [] | Some (JBool b) \<Rightarrow> [] | Some _ \<Rightarrow> [SecretBadRequired n])
      | _ \<Rightarrow> [SecretNotDict n])"

definition metadata_problems :: "recipe_metadata \<Rightarrow> metadata_problem list" where
  "metadata_problems m =
     (if rm_name m = [] \<or> \<not> RECIPE_NAME (rm_name m) then [BadRecipeName] else []) @
     (if rm_type m \<notin> {''atomic'', ''workflow''} then [BadType (rm_type m)] else []) @
     (if rm_runtime m \<notin> {''chrome-js'', ''python'', ''shell''} then [BadRuntime (rm_runtime m)] else []) @
     (if \<not> VERSION (rm_version m) then [BadVersion (rm_version m)] else []) @
     (if rm_description m = [] \<or> length (rm_description m) > 200 then [BadDescription] else []) @
     (if rm_use_cases m = [] then [NoUseCases] else []) @
     (if rm_output_targets m = [] then [NoOutputTargets] else []) @
     map BadOutputTarget (filter (\<lambda>t. t \<notin> {''stdout'', ''file'', ''clipboard''}) (rm_output_targets m)) @
     (if rm_restart_policy m \<notin> {''always'', ''on-failure'', ''never''} then [BadRestartPolicy (rm_restart_policy m)] else []) @
     input_problems (rm_inputs m) @
     concat (map (\<lambda>(n, j). secret_problems n j) (rm_secrets m))"

definition validate_metadata :: "recipe_metadata \<Rightarrow> metadata_problem list + unit" where
  "validate_metadata m = (let errors = metadata_problems m in if errors \<noteq> [] then Inl errors else Inr ())"

subsection \<open>Values\<close>

text \<open>Python's numbers, its \<open>==\<close> on decoded JSON, and \<open>len\<close> where there is one. Booleans are numbers.\<close>

fun py_num :: "json \<Rightarrow> rat option" where
  "py_num (JBool b) = Some (if b then 1 else 0)"
| "py_num (JNum n) = Some (of_int n)"
| "py_num (JFloat q) = Some q"
| "py_num _ = None"

fun py_eq :: "json \<Rightarrow> json \<Rightarrow> bool"
  and py_eqs :: "json list \<Rightarrow> json list \<Rightarrow> bool"
  and py_eq_fields :: "(string \<times> json) list \<Rightarrow> (string \<times> json) list \<Rightarrow> bool" where
  "py_eq (JList xs) j = (case j of JList ys \<Rightarrow> py_eqs xs ys | _ \<Rightarrow> False)"
| "py_eq (JObj d) j = (case j of JObj e \<Rightarrow> length d = length e \<and> py_eq_fields d e | _ \<Rightarrow> False)"
| "py_eq JNull j = (j = JNull)"
| "py_eq (JStr s) j = (j = JStr s)"
| "py_eq (JBool b) j = (py_num j = Some (if b then 1 else 0))"
| "py_eq (JNum n) j = (py_num j = Some (of_int n))"
| "py_eq (JFloat q) j = (py_num j = Some q)"
| "py_eqs [] ys = (ys = [])"
| "py_eqs (x # xs) ys = (case ys of [] \<Rightarrow> False | y # zs \<Rightarrow> py_eq x y \<and> py_eqs xs zs)"
| "py_eq_fields [] e = True"
| "py_eq_fields (p # d) e =
     ((case dict_get e (fst p) of Some u \<Rightarrow> py_eq (snd p) u | None \<Rightarrow> False) \<and> py_eq_fields d e)"

fun py_len :: "json \<Rightarrow> nat option" where
  "py_len (JStr s) = Some (length s)"
| "py_len (JList l) = Some (length l)"
| "py_len (JObj d) = Some (length d)"
| "py_len _ = None"

fun py_int_of :: "json \<Rightarrow> int option" where
  "py_int_of (JBool b) = Some (if b then 1 else 0)"
| "py_int_of (JNum n) = Some n"
| "py_int_of _ = None"

text \<open>\<open>isinstance(v, (int, float)) and not isinstance(v, bool)\<close>.\<close>

fun number_of :: "json \<Rightarrow> rat option" where
  "number_of (JNum n) = Some (of_int n)"
| "number_of (JFloat q) = Some q"
| "number_of _ = None"

subsection \<open>Parameters\<close>

datatype param_problem =
    MissingParam string json
  | UndeclaredParam string
  | WrongType string string string
  | NotInEnum string
  | TooLong string int
  | NoMatch string string
  | UnusablePattern string string
  | BelowMin string
  | AboveMax string

fun type_name :: "json \<Rightarrow> string" where
  "type_name JNull = ''NoneType''"
| "type_name (JBool _) = ''boolean''"
| "type_name (JNum _) = ''number''"
| "type_name (JFloat _) = ''number''"
| "type_name (JStr _) = ''string''"
| "type_name (JList _) = ''array''"
| "type_name (JObj _) = ''object''"

definition TYPE_CHECKS :: "string list" where
  "TYPE_CHECKS = [''string'', ''number'', ''boolean'', ''array'', ''object'']"

text \<open>The five checks of the table agree with the name computed for the message.\<close>

definition check_param_type :: "string \<Rightarrow> json \<Rightarrow> string \<Rightarrow> param_problem list" where
  "check_param_type n v expected =
     (if expected \<notin> set TYPE_CHECKS then []
      else if type_name v = expected then []
      else [WrongType n expected (type_name v)])"

definition check_param_constraints ::
    "(string \<Rightarrow> string \<Rightarrow> bool option) \<Rightarrow> string \<Rightarrow> json \<Rightarrow> entry \<Rightarrow> param_problem list" where
  "check_param_constraints fullmatch n v d =
     (case dict_get d ''enum'' of
        Some (JList allowed) \<Rightarrow> if allowed \<noteq> [] \<and> \<not> list_ex (py_eq v) allowed then [NotInEnum n] else []
      | _ \<Rightarrow> []) @
     (case (map_option py_int_of (dict_get d ''max_length''), py_len v) of
        (Some (Some m), Some l) \<Rightarrow> if int l > m then [TooLong n m] else []
      | _ \<Rightarrow> []) @
     (case (dict_get d ''pattern'', v) of
        (Some (JStr p), JStr s) \<Rightarrow>
          if p = [] then []
          else (case fullmatch p s of
                  None \<Rightarrow> [UnusablePattern n p] | Some True \<Rightarrow> [] | Some False \<Rightarrow> [NoMatch n p])
      | _ \<Rightarrow> []) @
     (case number_of v of
        None \<Rightarrow> []
      | Some q \<Rightarrow>
          (case Option.bind (dict_get d ''min'') py_num of
             Some low \<Rightarrow> if q < low then [BelowMin n] else [] | None \<Rightarrow> []) @
          (case Option.bind (dict_get d ''max'') py_num of
             Some high \<Rightarrow> if q > high then [AboveMax n] else [] | None \<Rightarrow> []))"

definition missing_params :: "recipe_metadata \<Rightarrow> (string, json) dict \<Rightarrow> param_problem list" where
  "missing_params m params =
     map (\<lambda>(n, d). MissingParam n (case dict_get d ''description'' of Some j \<Rightarrow> j | None \<Rightarrow> JStr []))
       (filter (\<lambda>(n, d). (case dict_get d ''required'' of Some j \<Rightarrow> truthy j | None \<Rightarrow> False) \<and> dict_get params n = None)
          (rm_inputs m))"

text \<open>One parameter: what counts always, and what counts for a strict caller only. A declared type
  that cannot be a dictionary key (a list or an object) makes the table lookup raise \<open>TypeError\<close>.\<close>

definition check_param ::
    "(string \<Rightarrow> string \<Rightarrow> bool option) \<Rightarrow> recipe_metadata \<Rightarrow> string \<times> json \<Rightarrow>
     unit + param_problem list \<times> param_problem list" where
  "check_param fullmatch m p =
     (case dict_get (rm_inputs m) (fst p) of
        None \<Rightarrow> Inr ([], [UndeclaredParam (fst p)])
      | Some d \<Rightarrow>
          let strict_only = check_param_constraints fullmatch (fst p) (snd p) d
          in case dict_get d ''type'' of
               Some (JStr t) \<Rightarrow>
                 if t = [] then Inr ([], strict_only)
                 else let type_errors = check_param_type (fst p) (snd p) t
                      in Inr (type_errors, if type_errors \<noteq> [] then [] else strict_only)
             | Some (JList l) \<Rightarrow> if l = [] then Inr ([], strict_only) else Inl ()
             | Some (JObj l) \<Rightarrow> if l = [] then Inr ([], strict_only) else Inl ()
             | _ \<Rightarrow> Inr ([], strict_only))"

fun check_params ::
    "(string \<Rightarrow> string \<Rightarrow> bool option) \<Rightarrow> recipe_metadata \<Rightarrow> (string, json) dict \<Rightarrow>
     unit + param_problem list \<times> param_problem list" where
  "check_params fullmatch m [] = Inr ([], [])"
| "check_params fullmatch m (p # ps) =
     bindE (check_param fullmatch m p) (\<lambda>(e, so).
     bindE (check_params fullmatch m ps) (\<lambda>(es, sos). Inr (e @ es, so @ sos)))"

datatype params_error =
    RecipeValidationError string "param_problem list"
  | TypeErrorRaised

definition validate_params ::
    "(string \<Rightarrow> string \<Rightarrow> bool option) \<Rightarrow> recipe_metadata \<Rightarrow> (string, json) dict \<Rightarrow> bool \<Rightarrow> params_error + unit" where
  "validate_params fullmatch m params strict =
     (case check_params fullmatch m params of
        Inl _ \<Rightarrow> Inl TypeErrorRaised
      | Inr (type_errors, strict_only) \<Rightarrow>
          let errors = missing_params m params @ type_errors @ (if strict then strict_only else [])
          in if errors \<noteq> [] then Inl (RecipeValidationError (rm_name m) errors) else Inr ())"

subsection \<open>What strict acceptance means\<close>

text \<open>A value conforms to its declaration: the type is the declared one, unless none of the five is
  declared, and no constraint is broken.\<close>

definition conforms :: "(string \<Rightarrow> string \<Rightarrow> bool option) \<Rightarrow> entry \<Rightarrow> string \<Rightarrow> json \<Rightarrow> bool" where
  "conforms fullmatch d n v \<longleftrightarrow>
     (\<forall>t. dict_get d ''type'' = Some (JStr t) \<and> t \<in> set TYPE_CHECKS \<longrightarrow> type_name v = t)
     \<and> (\<forall>j. dict_get d ''type'' = Some j \<and> truthy j \<longrightarrow> (\<forall>x. j \<noteq> JList x) \<and> (\<forall>x. j \<noteq> JObj x))
     \<and> check_param_constraints fullmatch n v d = []"

lemma check_param_clean:
  "check_param fullmatch m (n, v) = Inr ([], []) \<longleftrightarrow>
     (\<exists>d. dict_get (rm_inputs m) n = Some d \<and> conforms fullmatch d n v)"
proof (cases "dict_get (rm_inputs m) n")
  case (Some d)
  have "[] \<notin> set TYPE_CHECKS" by (simp add: TYPE_CHECKS_def)
  then show ?thesis
    using Some
    by (auto simp: check_param_def conforms_def check_param_type_def Let_def split: option.splits json.splits if_splits)
qed (simp add: check_param_def)

lemma check_params_clean:
  "check_params fullmatch m ps = Inr ([], []) \<longleftrightarrow> (\<forall>p \<in> set ps. check_param fullmatch m p = Inr ([], []))"
proof (induction ps)
  case (Cons p ps)
  then show ?case by (cases "check_param fullmatch m p"; cases "check_params fullmatch m ps") auto
qed simp

lemma missing_params_clean:
  "missing_params m params = [] \<longleftrightarrow>
     (\<forall>(n, d) \<in> set (rm_inputs m). (case dict_get d ''required'' of Some j \<Rightarrow> truthy j | None \<Rightarrow> False) \<longrightarrow>
        dict_get params n \<noteq> None)"
  by (auto simp: missing_params_def filter_empty_conv)

text \<open>Strict acceptance, spelled out: nothing required is missing, and every parameter is declared and
  conforms.\<close>

lemma strict_params_iff:
  "validate_params fullmatch m params True = Inr () \<longleftrightarrow>
     missing_params m params = []
     \<and> (\<forall>(n, v) \<in> set params. \<exists>d. dict_get (rm_inputs m) n = Some d \<and> conforms fullmatch d n v)"
proof -
  have "validate_params fullmatch m params True = Inr () \<longleftrightarrow>
      missing_params m params = [] \<and> check_params fullmatch m params = Inr ([], [])"
    by (auto simp: validate_params_def Let_def split: sum.splits)
  moreover have "check_param fullmatch m p = Inr ([], []) \<longleftrightarrow>
      (case p of (n, v) \<Rightarrow> \<exists>d. dict_get (rm_inputs m) n = Some d \<and> conforms fullmatch d n v)" for p
    by (cases p) (simp add: check_param_clean)
  ultimately show ?thesis by (simp add: check_params_clean)
qed

text \<open>A strict caller is accepted only where a loose one is.\<close>

lemma strict_then_loose:
  "validate_params fullmatch m params True = Inr () \<Longrightarrow> validate_params fullmatch m params False = Inr ()"
  by (auto simp: validate_params_def Let_def split: sum.splits if_splits)

end
