(* ===== verification/Recipe_Registry.thy ===== *)
theory Recipe_Registry
  imports Recipe_Params
begin

text \<open>
  \<open>recipes/registry.py\<close>: the index of installed recipes, built by scanning up to three directories. The disk
  is given by what the scan asks of it; parsing a \<open>recipe.md\<close> (YAML) is one of these questions.
\<close>

record recipe =
  rc_metadata :: recipe_metadata
  rc_script_path :: path
  rc_metadata_path :: path
  rc_source :: string
  rc_base_dir :: path

record registry =
  reg_search_paths :: "path list"
  reg_recipes :: "(string, (string, recipe) dict) dict"
  reg_mtimes :: "(path, rat) dict"

text \<open>\<open>exists\<close>, \<open>is_dir\<close>, \<open>iterdir\<close> and \<open>stat().st_mtime\<close> (None is \<open>OSError\<close>), and \<open>parse_metadata_file\<close> (None when it raises).\<close>

record disk =
  d_exists :: "path \<Rightarrow> bool"
  d_is_dir :: "path \<Rightarrow> bool"
  d_iterdir :: "path \<Rightarrow> string list option"
  d_mtime :: "path \<Rightarrow> rat option"
  d_metadata :: "path \<Rightarrow> recipe_metadata option"

definition SOURCE_PRIORITY :: "string list" where
  "SOURCE_PRIORITY = [''User'', ''Community'', ''Official'']"

definition RECIPE_SUBDIRS :: "path list" where
  "RECIPE_SUBDIRS = [[''atomic'', ''chrome''], [''atomic'', ''system''], [''workflows'']]"

definition setup_search_paths :: "path \<Rightarrow> path option \<Rightarrow> disk \<Rightarrow> path list" where
  "setup_search_paths home official d =
     filter (d_exists d)
       ([home @ [''.frago'', ''recipes''], home @ [''.frago'', ''community-recipes'']] @
        (case official of Some p \<Rightarrow> [p] | None \<Rightarrow> []))"

definition get_source_label :: "path \<Rightarrow> string" where
  "get_source_label p =
     (let s = path_str p
      in if contains s ''community-recipes'' then ''Community''
         else if contains s ''.frago/recipes'' \<or> contains s (''.frago'' @ [CHR 0x5C] @ ''recipes'') then ''User''
         else ''Official'')"

subsection \<open>Scanning\<close>

definition SCRIPT_EXTENSIONS :: "(string, string list) dict" where
  "SCRIPT_EXTENSIONS = [(''chrome-js'', [''.js'']), (''python'', [''.py'']), (''shell'', [''.sh''])]"

definition find_script_file :: "disk \<Rightarrow> path \<Rightarrow> string \<Rightarrow> path option" where
  "find_script_file d recipe_dir runtime =
     (let exts = (case dict_get SCRIPT_EXTENSIONS runtime of Some l \<Rightarrow> l | None \<Rightarrow> [])
      in find (d_exists d) (map (\<lambda>ext. recipe_dir @ [''recipe'' @ ext]) exts))"

definition record_mtime :: "disk \<Rightarrow> path \<Rightarrow> (path, rat) dict \<Rightarrow> (path, rat) dict" where
  "record_mtime d p ms = (case d_mtime d p of Some t \<Rightarrow> dict_set p t ms | None \<Rightarrow> ms)"

definition put_recipe :: "string \<Rightarrow> string \<Rightarrow> recipe \<Rightarrow> (string, (string, recipe) dict) dict \<Rightarrow>
    (string, (string, recipe) dict) dict" where
  "put_recipe n src r recs =
     dict_set n (dict_set src r (case dict_get recs n of Some sd \<Rightarrow> sd | None \<Rightarrow> [])) recs"

definition register_recipe :: "disk \<Rightarrow> path \<Rightarrow> string \<Rightarrow> path \<Rightarrow> registry \<Rightarrow> registry" where
  "register_recipe d metadata_path source base_dir reg =
     (case d_metadata d metadata_path of
        None \<Rightarrow> reg
      | Some m \<Rightarrow>
          (case validate_metadata m of
             Inl _ \<Rightarrow> reg
           | Inr _ \<Rightarrow>
               (case find_script_file d base_dir (rm_runtime m) of
                  None \<Rightarrow> reg
                | Some script \<Rightarrow>
                    reg\<lparr>reg_recipes := put_recipe (rm_name m) source
                          \<lparr>rc_metadata = m, rc_script_path = script, rc_metadata_path = metadata_path,
                           rc_source = source, rc_base_dir = base_dir\<rparr> (reg_recipes reg),
                        reg_mtimes := record_mtime d metadata_path (reg_mtimes reg)\<rparr>)))"

definition register_dir :: "disk \<Rightarrow> string \<Rightarrow> path \<Rightarrow> string \<Rightarrow> registry \<Rightarrow> registry" where
  "register_dir d source dir_path n reg =
     (let recipe_dir = dir_path @ [n]; metadata_path = recipe_dir @ [''recipe.md'']
      in if d_is_dir d recipe_dir \<and> d_exists d metadata_path
         then register_recipe d metadata_path source recipe_dir reg else reg)"

text \<open>The result carries whether \<open>iterdir\<close> raised, which ends the scan where it is.\<close>

fun scan_subdirs :: "disk \<Rightarrow> string \<Rightarrow> path \<Rightarrow> path list \<Rightarrow> registry \<Rightarrow> bool \<times> registry" where
  "scan_subdirs d source base [] reg = (False, reg)"
| "scan_subdirs d source base (sub # subs) reg =
     (if \<not> d_exists d (base @ sub) then scan_subdirs d source base subs reg
      else (case d_iterdir d (base @ sub) of
              None \<Rightarrow> (True, reg)
            | Some ns \<Rightarrow> scan_subdirs d source base subs (fold (register_dir d source (base @ sub)) ns reg)))"

definition scan_directory :: "disk \<Rightarrow> path \<Rightarrow> string \<Rightarrow> registry \<Rightarrow> bool \<times> registry" where
  "scan_directory d base source reg = scan_subdirs d source base RECIPE_SUBDIRS reg"

definition record_subdir :: "disk \<Rightarrow> path \<Rightarrow> (path, rat) dict \<Rightarrow> (path, rat) dict" where
  "record_subdir d sub ms =
     (if d_exists d sub
      then let ms1 = record_mtime d sub ms
           in case d_iterdir d sub of
                None \<Rightarrow> ms1
              | Some ns \<Rightarrow> fold (\<lambda>n x. if d_is_dir d (sub @ [n]) then record_mtime d (sub @ [n]) x else x) ns ms1
      else ms)"

definition record_path :: "disk \<Rightarrow> path \<Rightarrow> (path, rat) dict \<Rightarrow> (path, rat) dict" where
  "record_path d p ms =
     (if d_exists d p then fold (\<lambda>sub. record_subdir d (p @ sub)) RECIPE_SUBDIRS (record_mtime d p ms) else ms)"

fun scan_paths :: "disk \<Rightarrow> path list \<Rightarrow> registry \<Rightarrow> bool \<times> registry" where
  "scan_paths d [] reg = (False, reg)"
| "scan_paths d (p # ps) reg =
     (let reg1 = reg\<lparr>reg_mtimes := record_path d p (reg_mtimes reg)\<rparr>
      in case scan_directory d p (get_source_label p) reg1 of
           (True, reg2) \<Rightarrow> (True, reg2)
         | (False, reg2) \<Rightarrow> scan_paths d ps reg2)"

subsection \<open>Dependencies\<close>

definition missing_deps :: "(string, (string, recipe) dict) dict \<Rightarrow> recipe \<Rightarrow> string list" where
  "missing_deps recs r = filter (\<lambda>dep. dict_get recs dep = None) (rm_dependencies (rc_metadata r))"

definition invalid_recipes :: "(string, (string, recipe) dict) dict \<Rightarrow> (string \<times> string) list" where
  "invalid_recipes recs =
     concat (map (\<lambda>(n, sd). map (\<lambda>(src, r). (n, src))
       (filter (\<lambda>(src, r). rm_type (rc_metadata r) = ''workflow'' \<and> missing_deps recs r \<noteq> []) sd)) recs)"

definition drop_recipe ::
    "string \<times> string \<Rightarrow> (string, (string, recipe) dict) dict \<Rightarrow> (string, (string, recipe) dict) dict" where
  "drop_recipe p recs =
     (case dict_get recs (fst p) of
        None \<Rightarrow> recs
      | Some sd \<Rightarrow> let sd' = dict_del (snd p) sd
                  in if sd' = [] then dict_del (fst p) recs else dict_set (fst p) sd' recs)"

definition validate_dependencies :: "registry \<Rightarrow> registry" where
  "validate_dependencies reg =
     reg\<lparr>reg_recipes := fold drop_recipe (invalid_recipes (reg_recipes reg)) (reg_recipes reg)\<rparr>"

definition scan :: "disk \<Rightarrow> registry \<Rightarrow> bool \<times> registry" where
  "scan d reg =
     (case scan_paths d (reg_search_paths reg) (reg\<lparr>reg_recipes := [], reg_mtimes := []\<rparr>) of
        (True, reg') \<Rightarrow> (True, reg')
      | (False, reg') \<Rightarrow> (False, validate_dependencies reg'))"

subsection \<open>Freshness\<close>

definition paths_to_check :: "disk \<Rightarrow> path \<Rightarrow> path \<Rightarrow> path list option" where
  "paths_to_check d p sub =
     (if \<not> d_exists d (p @ sub) then Some []
      else map_option (\<lambda>ns. (p @ sub) # concat (map (\<lambda>n. let rd = p @ sub @ [n] in
             if d_is_dir d rd then rd # (if d_exists d (rd @ [''recipe.md'']) then [rd @ [''recipe.md'']] else []) else []) ns))
           (d_iterdir d (p @ sub)))"

definition is_newer :: "disk \<Rightarrow> (path, rat) dict \<Rightarrow> path \<Rightarrow> bool" where
  "is_newer d ms p =
     (case d_mtime d p of
        None \<Rightarrow> True
      | Some t \<Rightarrow> (case dict_get ms p of None \<Rightarrow> True | Some t0 \<Rightarrow> t > t0))"

definition needs_rescan :: "disk \<Rightarrow> registry \<Rightarrow> bool" where
  "needs_rescan d reg =
     list_ex (\<lambda>p. d_exists d p \<and>
        (list_ex (\<lambda>sub. paths_to_check d p sub = None) RECIPE_SUBDIRS
         \<or> list_ex (is_newer d (reg_mtimes reg))
             (p # concat (map (\<lambda>sub. the (paths_to_check d p sub)) RECIPE_SUBDIRS))))
       (reg_search_paths reg)"

subsection \<open>Lookup\<close>

definition by_priority :: "(string, recipe) dict \<Rightarrow> recipe option" where
  "by_priority sd = Option.bind (find (\<lambda>src. dict_get sd src \<noteq> None) SOURCE_PRIORITY) (dict_get sd)"

definition capitalize :: "string \<Rightarrow> string" where
  "capitalize s = (case s of [] \<Rightarrow> [] | c # cs \<Rightarrow> (if of_char c = (223::nat) then ''Ss'' else upper_char c) @ lower cs)"

text \<open>None is \<open>RecipeNotFoundError\<close>.\<close>

definition find_recipe :: "registry \<Rightarrow> string \<Rightarrow> string option \<Rightarrow> recipe option" where
  "find_recipe reg name source =
     (case dict_get (reg_recipes reg) name of
        None \<Rightarrow> None
      | Some sd \<Rightarrow>
          (case source of
             Some s \<Rightarrow> if s \<noteq> [] then dict_get sd (capitalize s) else by_priority sd
           | None \<Rightarrow> by_priority sd))"

definition list_all_recipes :: "registry \<Rightarrow> bool \<Rightarrow> recipe list" where
  "list_all_recipes reg include_all_sources =
     sort_key (\<lambda>r. rm_name (rc_metadata r))
       (concat (map (\<lambda>(n, sd). if include_all_sources then map snd sd
                               else (case by_priority sd of Some r \<Rightarrow> [r] | None \<Rightarrow> [])) (reg_recipes reg)))"

definition get_by_source :: "registry \<Rightarrow> string \<Rightarrow> recipe list" where
  "get_by_source reg source =
     sort_key (\<lambda>r. rm_name (rc_metadata r))
       (List.map_filter (\<lambda>(n, sd). dict_get sd (capitalize source)) (reg_recipes reg))"

definition find_all_sources :: "registry \<Rightarrow> string \<Rightarrow> (string \<times> path) list" where
  "find_all_sources reg name =
     (case dict_get (reg_recipes reg) name of
        None \<Rightarrow> []
      | Some sd \<Rightarrow>
          List.map_filter (\<lambda>src. map_option (\<lambda>r. (src, rc_base_dir r)) (dict_get sd src)) SOURCE_PRIORITY)"

text \<open>\<open>str.split()\<close>: the words between runs of white space.\<close>

fun words_from :: "string \<Rightarrow> string \<Rightarrow> string list" where
  "words_from acc [] = (if acc = [] then [] else [acc])"
| "words_from acc (c # cs) =
     (if is_space c then (if acc = [] then words_from [] cs else acc # words_from [] cs)
      else words_from (acc @ [c]) cs)"

definition use_case_score :: "string \<Rightarrow> string \<Rightarrow> nat" where
  "use_case_score text use_case =
     (let uc = lower use_case
      in if contains text uc \<or> contains uc text then 2
         else if length (remdups (filter (\<lambda>x. x \<in> set (words_from [] text)) (words_from [] uc))) \<ge> 2 then 1 else 0)"

definition match_score :: "string \<Rightarrow> recipe \<Rightarrow> nat" where
  "match_score text r =
     sum_list (map (use_case_score text) (rm_use_cases (rc_metadata r)))
     + length (filter (\<lambda>tag. contains text (lower tag)) (rm_tags (rc_metadata r)))"

definition better_match :: "string \<Rightarrow> string \<times> (string, recipe) dict \<Rightarrow> string option \<times> nat \<Rightarrow> string option \<times> nat" where
  "better_match text p best =
     (case by_priority (snd p) of
        None \<Rightarrow> best
      | Some r \<Rightarrow> if match_score text r > snd best then (Some (fst p), match_score text r) else best)"

definition exact_match :: "registry \<Rightarrow> string \<Rightarrow> string option" where
  "exact_match reg text =
     (let t = strip (lower text)
      in case find (\<lambda>p. contains t (lower (fst p))) (reg_recipes reg) of
           Some p \<Rightarrow> Some (fst p)
         | None \<Rightarrow> (let best = fold (better_match t) (reg_recipes reg) (None, 0)
                   in if snd best \<ge> 2 then fst best else None))"

text \<open>The singleton: None before the first use and after \<open>invalidate_registry\<close>. When the scan raises, the
  half-filled registry stays in place.\<close>

definition get_registry :: "path \<Rightarrow> path option \<Rightarrow> disk \<Rightarrow> registry option \<Rightarrow> bool \<times> registry" where
  "get_registry home official d inst =
     (case inst of
        Some reg \<Rightarrow> (False, reg)
      | None \<Rightarrow> scan d \<lparr>reg_search_paths = setup_search_paths home official d, reg_recipes = [], reg_mtimes = []\<rparr>)"

definition invalidate_registry :: "registry option \<Rightarrow> registry option" where
  "invalidate_registry inst = None"

subsection \<open>Everything in the index is a checked recipe under its own name\<close>

definition sound_recipe :: "disk \<Rightarrow> string \<Rightarrow> string \<Rightarrow> recipe \<Rightarrow> bool" where
  "sound_recipe d n src r \<longleftrightarrow>
     rm_name (rc_metadata r) = n \<and> rc_source r = src \<and> src \<in> set SOURCE_PRIORITY
     \<and> validate_metadata (rc_metadata r) = Inr () \<and> d_metadata d (rc_metadata_path r) = Some (rc_metadata r)
     \<and> rc_metadata_path r = rc_base_dir r @ [''recipe.md'']
     \<and> find_script_file d (rc_base_dir r) (rm_runtime (rc_metadata r)) = Some (rc_script_path r)"

definition index_ok :: "disk \<Rightarrow> (string, (string, recipe) dict) dict \<Rightarrow> bool" where
  "index_ok d recs \<longleftrightarrow> dict_ok recs
     \<and> (\<forall>n sd. dict_get recs n = Some sd \<longrightarrow>
          sd \<noteq> [] \<and> dict_ok sd \<and> (\<forall>src r. dict_get sd src = Some r \<longrightarrow> sound_recipe d n src r))"

definition lookup2 :: "(string, (string, recipe) dict) dict \<Rightarrow> string \<Rightarrow> string \<Rightarrow> recipe option" where
  "lookup2 recs n src = Option.bind (dict_get recs n) (\<lambda>sd. dict_get sd src)"

lemma index_ok_empty [simp]: "index_ok d []"
  by (simp add: index_ok_def)

lemma dict_set_ne [simp]: "dict_set k v d \<noteq> []"
  by (cases d) auto

lemma index_ok_put: "index_ok d recs \<Longrightarrow> sound_recipe d n src r \<Longrightarrow> index_ok d (put_recipe n src r recs)"
  by (auto simp: index_ok_def put_recipe_def split: option.splits)

lemma index_ok_drop: "index_ok d recs \<Longrightarrow> index_ok d (drop_recipe p recs)"
  by (auto simp: index_ok_def drop_recipe_def Let_def split: option.splits if_splits)

lemma lookup2_drop: "lookup2 (drop_recipe p recs) n src = (if (n, src) = p then None else lookup2 recs n src)"
proof (cases "dict_get recs (fst p)")
  case (Some sd)
  show ?thesis
  proof (cases "n = fst p")
    case True
    have "dict_del (snd p) sd = [] \<Longrightarrow> src \<noteq> snd p \<Longrightarrow> dict_get sd src = None"
      using dict_get_del [of "snd p" sd src] by simp
    then show ?thesis using Some True by (cases p) (auto simp: lookup2_def drop_recipe_def Let_def)
  next
    case False
    then show ?thesis using Some by (cases p) (auto simp: lookup2_def drop_recipe_def Let_def)
  qed
qed (cases p, auto simp: lookup2_def drop_recipe_def)

lemma lookup2_drops: "lookup2 (fold drop_recipe ps recs) n src = (if (n, src) \<in> set ps then None else lookup2 recs n src)"
  by (induction ps arbitrary: recs) (auto simp: lookup2_drop)

lemma index_ok_drops: "index_ok d recs \<Longrightarrow> index_ok d (fold drop_recipe ps recs)"
  by (induction ps arbitrary: recs) (auto simp: index_ok_drop)

lemma source_label: "get_source_label p \<in> set SOURCE_PRIORITY"
  by (simp add: get_source_label_def SOURCE_PRIORITY_def Let_def)

lemma register_recipe_ok:
  assumes "index_ok d (reg_recipes reg)" "src \<in> set SOURCE_PRIORITY" "mp = b @ [''recipe.md'']"
  shows "index_ok d (reg_recipes (register_recipe d mp src b reg))"
  using assms
  by (auto simp: register_recipe_def sound_recipe_def intro!: index_ok_put split: option.splits sum.splits)

lemma register_dir_ok:
  "index_ok d (reg_recipes reg) \<Longrightarrow> src \<in> set SOURCE_PRIORITY \<Longrightarrow> index_ok d (reg_recipes (register_dir d src b n reg))"
  by (simp add: register_dir_def Let_def register_recipe_ok)

lemma register_dirs_ok:
  "index_ok d (reg_recipes reg) \<Longrightarrow> src \<in> set SOURCE_PRIORITY \<Longrightarrow>
   index_ok d (reg_recipes (fold (register_dir d src b) ns reg))"
  by (induction ns arbitrary: reg) (simp_all add: register_dir_ok)

lemma scan_subdirs_ok:
  "index_ok d (reg_recipes reg) \<Longrightarrow> src \<in> set SOURCE_PRIORITY \<Longrightarrow>
   index_ok d (reg_recipes (snd (scan_subdirs d src b subs reg)))"
  by (induction subs arbitrary: reg) (auto simp: register_dirs_ok split: option.splits)

lemma scan_paths_ok: "index_ok d (reg_recipes reg) \<Longrightarrow> index_ok d (reg_recipes (snd (scan_paths d ps reg)))"
proof (induction ps arbitrary: reg)
  case (Cons p ps)
  let ?r1 = "reg\<lparr>reg_mtimes := record_path d p (reg_mtimes reg)\<rparr>"
  obtain b r2 where r2: "scan_directory d p (get_source_label p) ?r1 = (b, r2)" by fastforce
  have "index_ok d (reg_recipes ?r1)" using Cons.prems by simp
  then have "index_ok d (reg_recipes (snd (scan_subdirs d (get_source_label p) p RECIPE_SUBDIRS ?r1)))"
    by (rule scan_subdirs_ok) (rule source_label)
  then have "index_ok d (reg_recipes r2)" using r2 by (simp add: scan_directory_def)
  then show ?case using r2 Cons.IH by (cases b) (simp_all add: Let_def)
qed simp

text \<open>The pruning removes exactly the workflows that name a recipe the scan did not find.\<close>

lemma invalid_iff:
  assumes "index_ok d recs"
  shows "(n, src) \<in> set (invalid_recipes recs) \<longleftrightarrow>
    (\<exists>r. lookup2 recs n src = Some r \<and> rm_type (rc_metadata r) = ''workflow'' \<and> missing_deps recs r \<noteq> [])"
proof -
  have ok: "dict_ok recs" "\<And>sd. dict_get recs n = Some sd \<Longrightarrow> dict_ok sd" using assms by (auto simp: index_ok_def)
  have "(n, src) \<in> set (invalid_recipes recs) \<longleftrightarrow>
      (\<exists>sd r. (n, sd) \<in> set recs \<and> (src, r) \<in> set sd \<and> rm_type (rc_metadata r) = ''workflow'' \<and> missing_deps recs r \<noteq> [])"
    by (force simp: invalid_recipes_def)
  then show ?thesis
    using ok by (auto simp: lookup2_def bind_eq_Some_conv dict_get_in [symmetric])
qed

lemma validate_dependencies_lookup:
  assumes "index_ok d (reg_recipes reg)"
  shows "lookup2 (reg_recipes (validate_dependencies reg)) n src = Some r \<longleftrightarrow>
    lookup2 (reg_recipes reg) n src = Some r
    \<and> \<not> (rm_type (rc_metadata r) = ''workflow'' \<and> missing_deps (reg_recipes reg) r \<noteq> [])"
  by (auto simp: validate_dependencies_def lookup2_drops invalid_iff [OF assms])

lemma scan_ok: "index_ok d (reg_recipes (snd (scan d reg)))"
proof -
  let ?r0 = "reg\<lparr>reg_recipes := [], reg_mtimes := []\<rparr>"
  have "index_ok d (reg_recipes (snd (scan_paths d (reg_search_paths reg) ?r0)))"
    by (rule scan_paths_ok) simp
  then show ?thesis
    by (auto simp: scan_def validate_dependencies_def index_ok_drops split: prod.splits bool.splits)
qed

lemma by_priority_ne:
  assumes "sd \<noteq> []" "\<And>src r. dict_get sd src = Some r \<Longrightarrow> src \<in> set SOURCE_PRIORITY" "dict_ok sd"
  shows "by_priority sd \<noteq> None"
proof -
  obtain src r where "(src, r) \<in> set sd" using assms(1) by (cases sd) auto
  then have "dict_get sd src = Some r" using assms(3) by (simp add: dict_get_in)
  then have "find (\<lambda>x. dict_get sd x \<noteq> None) SOURCE_PRIORITY \<noteq> None"
    using assms(2) by (auto simp: find_None_iff)
  then obtain x where x: "find (\<lambda>x. dict_get sd x \<noteq> None) SOURCE_PRIORITY = Some x" by blast
  then have "dict_get sd x \<noteq> None" by (auto simp: find_Some_iff)
  with x show ?thesis by (simp add: by_priority_def)
qed

lemma by_priority_first:
  assumes "by_priority sd = Some r"
  obtains i where "i < length SOURCE_PRIORITY" "dict_get sd (SOURCE_PRIORITY ! i) = Some r"
    "\<And>j. j < i \<Longrightarrow> dict_get sd (SOURCE_PRIORITY ! j) = None"
  using assms that by (auto simp: by_priority_def bind_eq_Some_conv find_Some_iff)

subsection \<open>A scan is fresh\<close>

text \<open>What is recorded during a scan are the modification times of that moment.\<close>

definition times_now :: "disk \<Rightarrow> (path, rat) dict \<Rightarrow> bool" where
  "times_now d ms \<longleftrightarrow> (\<forall>p t. dict_get ms p = Some t \<longrightarrow> d_mtime d p = Some t)"

definition recorded :: "(path, rat) dict \<Rightarrow> path \<Rightarrow> bool" where
  "recorded ms p \<longleftrightarrow> dict_get ms p \<noteq> None"

lemma record_mtime_facts:
  "times_now d ms \<Longrightarrow> times_now d (record_mtime d p ms)" "recorded ms q \<Longrightarrow> recorded (record_mtime d p ms) q"
  "d_mtime d p \<noteq> None \<Longrightarrow> recorded (record_mtime d p ms) p"
  by (auto simp: times_now_def recorded_def record_mtime_def split: option.splits)

text \<open>A step that keeps the recorded times true and forgets none of them.\<close>

definition grows :: "disk \<Rightarrow> ((path, rat) dict \<Rightarrow> (path, rat) dict) \<Rightarrow> bool" where
  "grows d f \<longleftrightarrow> (\<forall>ms. (times_now d ms \<longrightarrow> times_now d (f ms)) \<and> (\<forall>q. recorded ms q \<longrightarrow> recorded (f ms) q))"

lemma grows_mtime [intro]: "grows d (record_mtime d p)"
  by (simp add: grows_def record_mtime_facts)

lemma grows_id [intro]: "grows d (\<lambda>x. x)"
  by (simp add: grows_def)

lemma grows_fold: "(\<And>x. grows d (f x)) \<Longrightarrow> grows d (fold f xs)"
proof (induction xs)
  case (Cons x xs)
  then show ?case unfolding grows_def by simp
qed (simp add: grows_def)

lemma fold_records:
  assumes "\<And>x. grows d (f x)" "x \<in> set xs" "\<And>ms. recorded (f x ms) q"
  shows "recorded (fold f xs ms) q"
  using assms(2)
proof (induction xs arbitrary: ms)
  case (Cons y ys)
  show ?case
  proof (cases "x = y")
    case True
    then have "recorded (f y ms) q" using assms(3) by simp
    then show ?thesis using grows_fold [where f = f and xs = ys, OF assms(1)] by (simp add: grows_def)
  qed (use Cons in simp)
qed simp

lemma grows_subdir: "grows d (record_subdir d sub)"
proof -
  have "grows d (fold (\<lambda>n x. if d_is_dir d (sub @ [n]) then record_mtime d (sub @ [n]) x else x) ns)" for ns
    by (rule grows_fold) (auto simp: grows_def record_mtime_facts)
  then show ?thesis
    unfolding grows_def record_subdir_def Let_def by (auto simp: record_mtime_facts split: option.splits)
qed

lemma grows_path: "grows d (record_path d p)"
  using grows_fold [of d "\<lambda>sub. record_subdir d (p @ sub)", OF grows_subdir]
  unfolding grows_def record_path_def by (auto simp: record_mtime_facts)

text \<open>A disk on which whatever exists can be stat'ed.\<close>

definition disk_readable :: "disk \<Rightarrow> bool" where
  "disk_readable d \<longleftrightarrow> (\<forall>p. d_exists d p \<or> d_is_dir d p \<longrightarrow> d_mtime d p \<noteq> None)"

lemma subdir_records:
  assumes "d_exists d sub" "disk_readable d"
  shows "recorded (record_subdir d sub ms) sub"
    and "d_iterdir d sub = Some ns \<Longrightarrow> n \<in> set ns \<Longrightarrow> d_is_dir d (sub @ [n]) \<Longrightarrow> recorded (record_subdir d sub ms) (sub @ [n])"
proof -
  let ?f = "\<lambda>n x. if d_is_dir d (sub @ [n]) then record_mtime d (sub @ [n]) x else x"
  have g: "grows d (?f n)" for n by (auto simp: grows_def record_mtime_facts)
  have m: "recorded (record_mtime d sub ms) sub" using assms by (intro record_mtime_facts) (simp add: disk_readable_def)
  have k: "recorded (fold ?f ns (record_mtime d sub ms)) sub" for ns
    using grows_fold [where f = ?f and xs = ns, OF g] m by (simp add: grows_def)
  show "recorded (record_subdir d sub ms) sub"
    using assms(1) k m by (auto simp: record_subdir_def Let_def split: option.split)
  assume a: "d_iterdir d sub = Some ns" "n \<in> set ns" "d_is_dir d (sub @ [n])"
  have "recorded (fold ?f ns (record_mtime d sub ms)) (sub @ [n])"
    by (rule fold_records [where f = ?f, OF g a(2)]) (use a(3) assms(2) in \<open>simp add: record_mtime_facts disk_readable_def\<close>)
  then show "recorded (record_subdir d sub ms) (sub @ [n])" using assms(1) a(1) by (simp add: record_subdir_def Let_def)
qed

lemma path_records:
  assumes "d_exists d p" "disk_readable d"
  shows "recorded (record_path d p ms) p"
    and "sub \<in> set RECIPE_SUBDIRS \<Longrightarrow> (\<And>ms. recorded (record_subdir d (p @ sub) ms) q) \<Longrightarrow> recorded (record_path d p ms) q"
proof -
  have g: "grows d (record_subdir d (p @ sub))" for sub by (rule grows_subdir)
  show "recorded (record_path d p ms) p"
    using assms(1) grows_fold [where f = "\<lambda>sub. record_subdir d (p @ sub)" and xs = RECIPE_SUBDIRS, OF g]
      record_mtime_facts(3) [of d p ms] assms by (simp add: record_path_def grows_def disk_readable_def)
  assume "sub \<in> set RECIPE_SUBDIRS" "\<And>ms. recorded (record_subdir d (p @ sub) ms) q"
  then show "recorded (record_path d p ms) q"
    using assms(1) fold_records [where f = "\<lambda>sub. record_subdir d (p @ sub)", OF g] by (simp add: record_path_def)
qed

definition reg_grows :: "disk \<Rightarrow> registry \<Rightarrow> registry \<Rightarrow> bool" where
  "reg_grows d reg reg' \<longleftrightarrow>
     reg_search_paths reg' = reg_search_paths reg
     \<and> (times_now d (reg_mtimes reg) \<longrightarrow> times_now d (reg_mtimes reg'))
     \<and> (\<forall>q. recorded (reg_mtimes reg) q \<longrightarrow> recorded (reg_mtimes reg') q)"

lemma reg_grows_refl [simp]: "reg_grows d reg reg"
  by (simp add: reg_grows_def)

lemma reg_grows_trans: "reg_grows d a b \<Longrightarrow> reg_grows d b c \<Longrightarrow> reg_grows d a c"
  by (auto simp: reg_grows_def)

lemma reg_grows_register: "reg_grows d reg (register_dir d src b n reg)"
  by (auto simp: reg_grows_def register_dir_def register_recipe_def record_mtime_facts Let_def split: option.splits sum.splits)

lemma reg_grows_registers: "reg_grows d reg (fold (register_dir d src b) ns reg)"
proof (induction ns arbitrary: reg)
  case (Cons n ns)
  show ?case using reg_grows_trans [OF reg_grows_register Cons.IH] by simp
qed simp

lemma reg_grows_subdirs: "reg_grows d reg (snd (scan_subdirs d src b subs reg))"
proof (induction subs arbitrary: reg)
  case (Cons sub subs)
  show ?case
    using Cons.IH reg_grows_trans [OF reg_grows_registers Cons.IH] by (auto split: option.split)
qed simp

lemma reg_grows_paths: "reg_grows d reg (snd (scan_paths d ps reg))"
proof (induction ps arbitrary: reg)
  case (Cons p ps)
  let ?r1 = "reg\<lparr>reg_mtimes := record_path d p (reg_mtimes reg)\<rparr>"
  obtain b r2 where r2: "scan_directory d p (get_source_label p) ?r1 = (b, r2)" by fastforce
  have "reg_grows d reg ?r1" using grows_path [of d p] by (simp add: reg_grows_def grows_def)
  moreover have "reg_grows d ?r1 r2" using reg_grows_subdirs [of d ?r1 "get_source_label p" p RECIPE_SUBDIRS] r2
    by (simp add: scan_directory_def)
  ultimately have "reg_grows d reg r2" by (rule reg_grows_trans)
  then show ?case using r2 reg_grows_trans [OF _ Cons.IH] by (cases b) (simp_all add: Let_def)
qed simp

text \<open>A directory whose \<open>recipe.md\<close> parses, passes the check and has its script.\<close>

definition registers :: "disk \<Rightarrow> path \<Rightarrow> bool" where
  "registers d rd \<longleftrightarrow> (\<exists>m script. d_metadata d (rd @ [''recipe.md'']) = Some m \<and> validate_metadata m = Inr ()
     \<and> find_script_file d rd (rm_runtime m) = Some script)"

definition all_register :: "disk \<Rightarrow> path \<Rightarrow> bool" where
  "all_register d p \<longleftrightarrow> (\<forall>sub \<in> set RECIPE_SUBDIRS. \<forall>ns. d_iterdir d (p @ sub) = Some ns \<longrightarrow>
     (\<forall>n \<in> set ns. d_is_dir d (p @ sub @ [n]) \<and> d_exists d (p @ sub @ [n, ''recipe.md'']) \<longrightarrow> registers d (p @ sub @ [n])))"

lemma register_dir_records:
  assumes "disk_readable d" "d_is_dir d (b @ [n])" "d_exists d (b @ [n, ''recipe.md''])" "registers d (b @ [n])"
  shows "recorded (reg_mtimes (register_dir d src b n reg)) (b @ [n, ''recipe.md''])"
  using assms by (auto simp: register_dir_def register_recipe_def registers_def record_mtime_facts disk_readable_def Let_def)

lemma register_dirs_record:
  assumes "disk_readable d" "n \<in> set ns" "d_is_dir d (b @ [n])" "d_exists d (b @ [n, ''recipe.md''])" "registers d (b @ [n])"
  shows "recorded (reg_mtimes (fold (register_dir d src b) ns reg)) (b @ [n, ''recipe.md''])"
  using assms(2)
proof (induction ns arbitrary: reg)
  case (Cons x ns)
  show ?case
  proof (cases "x = n")
    case True
    then show ?thesis
      using register_dir_records [OF assms(1,3-5), of src reg] reg_grows_registers [of d "register_dir d src b n reg" src b ns]
      by (simp add: reg_grows_def)
  qed (use Cons in simp)
qed simp

lemma scan_subdirs_record:
  assumes "scan_subdirs d src b subs reg = (False, reg')" "sub \<in> set subs" "d_exists d (b @ sub)" "d_iterdir d (b @ sub) = Some ns"
    and "disk_readable d" "n \<in> set ns" "d_is_dir d (b @ sub @ [n])" "d_exists d (b @ sub @ [n, ''recipe.md''])" "registers d (b @ sub @ [n])"
  shows "recorded (reg_mtimes reg') (b @ sub @ [n, ''recipe.md''])"
  using assms(1,2)
proof (induction subs arbitrary: reg)
  case (Cons x subs)
  show ?case
  proof (cases "x = sub")
    case True
    let ?r = "fold (register_dir d src (b @ sub)) ns reg"
    have "recorded (reg_mtimes ?r) (b @ sub @ [n, ''recipe.md''])"
      using register_dirs_record [of d n ns "b @ sub" src reg] assms(5-9) by simp
    moreover have "scan_subdirs d src b subs ?r = (False, reg')"
      using Cons.prems(1) True assms(3,4) by simp
    ultimately show ?thesis
      using reg_grows_subdirs [of d ?r src b subs] by (simp add: reg_grows_def)
  next
    case False
    then show ?thesis using Cons by (auto split: if_splits option.splits)
  qed
qed simp

lemma scan_paths_reaches:
  assumes "scan_paths d ps reg = (False, reg')" "p \<in> set ps"
  obtains reg1 reg2 where "scan_subdirs d (get_source_label p) p RECIPE_SUBDIRS (reg1\<lparr>reg_mtimes := record_path d p (reg_mtimes reg1)\<rparr>) = (False, reg2)"
    "reg_grows d reg2 reg'"
  using assms
proof (induction ps arbitrary: reg thesis)
  case (Cons q ps)
  let ?r1 = "reg\<lparr>reg_mtimes := record_path d q (reg_mtimes reg)\<rparr>"
  obtain r2 where r2: "scan_directory d q (get_source_label q) ?r1 = (False, r2)" "scan_paths d ps r2 = (False, reg')"
    using Cons.prems(2) by (auto simp: Let_def split: prod.splits bool.splits)
  show ?case
  proof (cases "q = p")
    case True
    show ?thesis
    proof (rule Cons.prems(1))
      show "scan_subdirs d (get_source_label p) p RECIPE_SUBDIRS (reg\<lparr>reg_mtimes := record_path d p (reg_mtimes reg)\<rparr>) = (False, r2)"
        using r2(1) True by (simp add: scan_directory_def)
      show "reg_grows d r2 reg'" using reg_grows_paths [of d r2 ps] r2(2) by simp
    qed
  next
    case False
    then show ?thesis using Cons.IH [OF _ r2(2)] Cons.prems by auto
  qed
qed simp

lemma scan_subdirs_listed:
  "scan_subdirs d src b subs reg = (False, reg') \<Longrightarrow> sub \<in> set subs \<Longrightarrow> d_exists d (b @ sub) \<Longrightarrow> d_iterdir d (b @ sub) \<noteq> None"
  by (induction subs arbitrary: reg) (auto split: if_splits option.splits)

lemma scan_fields:
  assumes "scan d reg = (False, reg')"
  obtains r where "scan_paths d (reg_search_paths reg) (reg\<lparr>reg_recipes := [], reg_mtimes := []\<rparr>) = (False, r)"
    "reg_mtimes reg' = reg_mtimes r" "reg_search_paths reg' = reg_search_paths reg" "reg' = validate_dependencies r"
proof -
  obtain r where r: "scan_paths d (reg_search_paths reg) (reg\<lparr>reg_recipes := [], reg_mtimes := []\<rparr>) = (False, r)" "reg' = validate_dependencies r"
    using assms by (auto simp: scan_def split: prod.splits bool.splits)
  have "reg_search_paths r = reg_search_paths reg"
    using reg_grows_paths [of d "reg\<lparr>reg_recipes := [], reg_mtimes := []\<rparr>" "reg_search_paths reg"] r(1) by (simp add: reg_grows_def)
  with r that show ?thesis by (simp add: validate_dependencies_def)
qed

lemma scan_times_now:
  assumes "scan d reg = (False, reg')"
  shows "times_now d (reg_mtimes reg')"
proof -
  obtain r where r: "scan_paths d (reg_search_paths reg) (reg\<lparr>reg_recipes := [], reg_mtimes := []\<rparr>) = (False, r)"
    "reg_mtimes reg' = reg_mtimes r" by (rule scan_fields [OF assms])
  have "times_now d []" by (simp add: times_now_def)
  then show ?thesis
    using reg_grows_paths [of d "reg\<lparr>reg_recipes := [], reg_mtimes := []\<rparr>" "reg_search_paths reg"] r by (simp add: reg_grows_def)
qed

lemma watched_recorded:
  assumes "disk_readable d" "scan d reg = (False, reg')" "p \<in> set (reg_search_paths reg)" "d_exists d p"
    and healthy: "all_register d p"
  shows "recorded (reg_mtimes reg') p"
    and "sub \<in> set RECIPE_SUBDIRS \<Longrightarrow> \<exists>qs. paths_to_check d p sub = Some qs \<and> (\<forall>q \<in> set qs. recorded (reg_mtimes reg') q)"
proof -
  obtain r where r: "scan_paths d (reg_search_paths reg) (reg\<lparr>reg_recipes := [], reg_mtimes := []\<rparr>) = (False, r)"
    "reg_mtimes reg' = reg_mtimes r" by (rule scan_fields [OF assms(2)])
  obtain reg1 reg2 where s: "scan_subdirs d (get_source_label p) p RECIPE_SUBDIRS (reg1\<lparr>reg_mtimes := record_path d p (reg_mtimes reg1)\<rparr>) = (False, reg2)"
    and g: "reg_grows d reg2 r" by (rule scan_paths_reaches [OF r(1) assms(3)])
  have up: "recorded (reg_mtimes reg2) q \<Longrightarrow> recorded (reg_mtimes reg') q" for q using g r(2) by (simp add: reg_grows_def)
  have up': "recorded (record_path d p (reg_mtimes reg1)) q \<Longrightarrow> recorded (reg_mtimes reg') q" for q
    using reg_grows_subdirs [of d "reg1\<lparr>reg_mtimes := record_path d p (reg_mtimes reg1)\<rparr>" "get_source_label p" p RECIPE_SUBDIRS] s up
    by (simp add: reg_grows_def)
  show "recorded (reg_mtimes reg') p" using up' path_records(1) [OF assms(4,1)] by blast
  assume sub: "sub \<in> set RECIPE_SUBDIRS"
  show "\<exists>qs. paths_to_check d p sub = Some qs \<and> (\<forall>q \<in> set qs. recorded (reg_mtimes reg') q)"
  proof (cases "d_exists d (p @ sub)")
    case True
    then obtain ns where ns: "d_iterdir d (p @ sub) = Some ns" using scan_subdirs_listed [OF s sub] by blast
    have a: "recorded (reg_mtimes reg') (p @ sub)"
      using up' path_records(2) [OF assms(4,1) sub] subdir_records(1) [OF True assms(1)] by blast
    have b: "recorded (reg_mtimes reg') (p @ sub @ [n])" if "n \<in> set ns" "d_is_dir d (p @ sub @ [n])" for n
      using up' path_records(2) [OF assms(4,1) sub] subdir_records(2) [OF True assms(1) ns that(1)] that(2) by simp
    have c: "recorded (reg_mtimes reg') (p @ sub @ [n, ''recipe.md''])"
      if "n \<in> set ns" "d_is_dir d (p @ sub @ [n])" "d_exists d (p @ sub @ [n, ''recipe.md''])" for n
      using up scan_subdirs_record [OF s sub True ns assms(1) that] healthy sub ns that by (simp add: all_register_def)
    show ?thesis using True ns a b c by (auto simp: paths_to_check_def Let_def split: if_splits)
  qed (simp add: paths_to_check_def)
qed

lemma is_newer_recorded: "times_now d ms \<Longrightarrow> recorded ms p \<Longrightarrow> \<not> is_newer d ms p"
  by (auto simp: times_now_def recorded_def is_newer_def)

lemma script_exists: "find_script_file d b rt = Some p \<Longrightarrow> d_exists d p"
  by (auto simp: find_script_file_def Let_def find_Some_iff)

lemma capitalize_priority: "src \<in> set SOURCE_PRIORITY \<Longrightarrow> capitalize src = src \<and> src \<noteq> []"
proof -
  have "list_all (\<lambda>src. capitalize src = src \<and> src \<noteq> []) SOURCE_PRIORITY" by code_simp
  then show "src \<in> set SOURCE_PRIORITY \<Longrightarrow> capitalize src = src \<and> src \<noteq> []" by (simp add: list_all_iff)
qed

subsection \<open>Properties\<close>

text \<open>A home directory with one recipe in it.\<close>

definition demo_meta :: recipe_metadata where
  "demo_meta = \<lparr>rm_name = ''board'', rm_type = ''atomic'', rm_runtime = ''python'', rm_version = ''1.0'',
     rm_description = ''A board'', rm_use_cases = [''show a board''], rm_output_targets = [''stdout''],
     rm_inputs = [(''days'', [(''type'', JStr ''number''), (''required'', JBool True), (''max'', JNum 30)])],
     rm_dependencies = [], rm_tags = [], rm_secrets = [], rm_no_proxy = False, rm_daemon = False,
     rm_restart_policy = ''on-failure'', rm_ui_from = None\<rparr>"

definition demo_root :: path where "demo_root = [''/'', ''home'', ''ada'', ''.frago'', ''recipes'']"

definition demo_recipe_dir :: path where "demo_recipe_dir = demo_root @ [''atomic'', ''system'', ''board'']"

definition demo_disk :: disk where
  "demo_disk = \<lparr>
     d_exists = (\<lambda>p. p \<in> set [demo_root, demo_root @ [''atomic'', ''system''], demo_recipe_dir,
        demo_recipe_dir @ [''recipe.md''], demo_recipe_dir @ [''recipe.py'']]),
     d_is_dir = (\<lambda>p. p = demo_recipe_dir),
     d_iterdir = (\<lambda>p. if p = demo_root @ [''atomic'', ''system''] then Some [''board''] else None),
     d_mtime = (\<lambda>p. Some 5),
     d_metadata = (\<lambda>p. if p = demo_recipe_dir @ [''recipe.md''] then Some demo_meta else None)\<rparr>"

definition demo_reg :: registry where
  "demo_reg = \<lparr>reg_search_paths = [demo_root], reg_recipes = [], reg_mtimes = []\<rparr>"

lemma demo_scan: "fst (scan demo_disk demo_reg) = False"
  by code_simp

text \<open>C35: what the index hands out. After a scan, a name is found exactly if it is in the index, and the
  recipe found carries that name, was parsed from the \<open>recipe.md\<close> of its directory, passed the metadata
  check, has its script on disk, and comes from the first of User, Community and Official that offers
  the name at all.\<close>

theorem registry_sound:
  assumes "scan d reg = (False, reg')"
  shows "(find_recipe reg' n None \<noteq> None \<longleftrightarrow> dict_get (reg_recipes reg') n \<noteq> None)
    \<and> (find_recipe reg' n None = Some r \<longrightarrow>
         rm_name (rc_metadata r) = n \<and> validate_metadata (rc_metadata r) = Inr ()
         \<and> d_metadata d (rc_base_dir r @ [''recipe.md'']) = Some (rc_metadata r) \<and> d_exists d (rc_script_path r)
         \<and> (\<exists>i < length SOURCE_PRIORITY. rc_source r = SOURCE_PRIORITY ! i
              \<and> find_recipe reg' n (Some (rc_source r)) = Some r
              \<and> (\<forall>j < i. find_recipe reg' n (Some (SOURCE_PRIORITY ! j)) = None)))"
proof -
  have ok: "index_ok d (reg_recipes reg')" using scan_ok [of d reg] assms by simp
  show ?thesis
  proof (cases "dict_get (reg_recipes reg') n")
    case (Some sd)
    have sd: "sd \<noteq> []" "dict_ok sd" "\<And>src r. dict_get sd src = Some r \<Longrightarrow> sound_recipe d n src r"
      using ok Some by (auto simp: index_ok_def)
    have f: "find_recipe reg' n None = by_priority sd" by (simp add: find_recipe_def Some)
    have fs: "find_recipe reg' n (Some src) = dict_get sd src" if "src \<in> set SOURCE_PRIORITY" for src
      using capitalize_priority [OF that] by (simp add: find_recipe_def Some)
    have "by_priority sd \<noteq> None" using by_priority_ne [OF sd(1) _ sd(2)] sd(3) by (auto simp: sound_recipe_def)
    moreover have "rm_name (rc_metadata r) = n \<and> validate_metadata (rc_metadata r) = Inr ()
         \<and> d_metadata d (rc_base_dir r @ [''recipe.md'']) = Some (rc_metadata r) \<and> d_exists d (rc_script_path r)
         \<and> (\<exists>i < length SOURCE_PRIORITY. rc_source r = SOURCE_PRIORITY ! i
              \<and> find_recipe reg' n (Some (rc_source r)) = Some r
              \<and> (\<forall>j < i. find_recipe reg' n (Some (SOURCE_PRIORITY ! j)) = None))" if r: "by_priority sd = Some r"
    proof -
      obtain i where i: "i < length SOURCE_PRIORITY" "dict_get sd (SOURCE_PRIORITY ! i) = Some r"
        "\<And>j. j < i \<Longrightarrow> dict_get sd (SOURCE_PRIORITY ! j) = None" using by_priority_first [OF r] by metis
      have snd: "sound_recipe d n (SOURCE_PRIORITY ! i) r" using sd(3) i(2) by blast
      have "rc_source r = SOURCE_PRIORITY ! i" using snd by (simp add: sound_recipe_def)
      then have "\<exists>i < length SOURCE_PRIORITY. rc_source r = SOURCE_PRIORITY ! i
              \<and> find_recipe reg' n (Some (rc_source r)) = Some r
              \<and> (\<forall>j < i. find_recipe reg' n (Some (SOURCE_PRIORITY ! j)) = None)"
        using i fs by (intro exI [of _ i]) (auto intro: nth_mem)
      then show ?thesis using snd script_exists by (auto simp: sound_recipe_def)
    qed
    ultimately show ?thesis using f Some by simp
  qed (simp add: find_recipe_def)
qed

theorem registry_sound_witness:
  "\<exists>r reg'. scan demo_disk demo_reg = (False, reg') \<and> find_recipe reg' ''board'' None = Some r
     \<and> rm_name (rc_metadata r) = ''board'' \<and> d_exists demo_disk (rc_script_path r)"
proof -
  obtain reg' where s: "scan demo_disk demo_reg = (False, reg')" using demo_scan by (cases "scan demo_disk demo_reg") auto
  have "dict_get (reg_recipes (snd (scan demo_disk demo_reg))) ''board'' \<noteq> None" by code_simp
  then have "dict_get (reg_recipes reg') ''board'' \<noteq> None" using s by simp
  then obtain r where "find_recipe reg' ''board'' None = Some r" using registry_sound [OF s, of "''board''"] by auto
  then show ?thesis using registry_sound [OF s, of "''board''" r] s by blast
qed

text \<open>the index goes stale when something changes and only then. Right after a scan of a disk on which
  everything can be read and every \<open>recipe.md\<close> registers, no rescan is asked for; and as soon as a
  \<open>recipe.md\<close> has a later modification time than at the scan, one is.\<close>

theorem rescan_settles:
  assumes "disk_readable d" "scan d reg = (False, reg')"
    and "\<And>p. p \<in> set (reg_search_paths reg) \<Longrightarrow> all_register d p"
  shows "\<not> needs_rescan d reg'
    \<and> (p \<in> set (reg_search_paths reg) \<and> d_exists d' p \<and> sub \<in> set RECIPE_SUBDIRS
        \<and> paths_to_check d' p sub = Some qs \<and> q \<in> set qs \<and> d_mtime d q = Some t \<and> d_mtime d' q = Some t' \<and> t < t'
       \<longrightarrow> needs_rescan d' reg')"
proof -
  have sp: "reg_search_paths reg' = reg_search_paths reg" by (rule scan_fields [OF assms(2)])
  have tn: "times_now d (reg_mtimes reg')" using scan_times_now [OF assms(2)] .
  have "\<not> needs_rescan d reg'"
  proof
    assume "needs_rescan d reg'"
    then obtain p where p: "p \<in> set (reg_search_paths reg)" "d_exists d p"
      "(\<exists>sub \<in> set RECIPE_SUBDIRS. paths_to_check d p sub = None) \<or> is_newer d (reg_mtimes reg') p
       \<or> (\<exists>sub \<in> set RECIPE_SUBDIRS. \<exists>q \<in> set (the (paths_to_check d p sub)). is_newer d (reg_mtimes reg') q)"
      by (auto simp: needs_rescan_def list_ex_iff sp)
    note w = watched_recorded [OF assms(1,2) p(1,2) assms(3) [OF p(1)]]
    have n: "\<exists>qs. paths_to_check d p sub = Some qs \<and> (\<forall>q \<in> set qs. \<not> is_newer d (reg_mtimes reg') q)"
      if "sub \<in> set RECIPE_SUBDIRS" for sub using w(2) [OF that] is_newer_recorded [OF tn] by blast
    have "\<not> is_newer d (reg_mtimes reg') p" using w(1) is_newer_recorded [OF tn] by blast
    with p(3) consider sub where "sub \<in> set RECIPE_SUBDIRS" "paths_to_check d p sub = None"
      | sub q where "sub \<in> set RECIPE_SUBDIRS" "q \<in> set (the (paths_to_check d p sub))" "is_newer d (reg_mtimes reg') q" by blast
    then show False by cases (use n in force)+
  qed
  moreover have "needs_rescan d' reg'" if a: "p \<in> set (reg_search_paths reg)" "d_exists d' p" "sub \<in> set RECIPE_SUBDIRS"
    "paths_to_check d' p sub = Some qs" "q \<in> set qs" "d_mtime d q = Some t" "d_mtime d' q = Some t'" "t < t'"
  proof -
    have "is_newer d' (reg_mtimes reg') q" using a tn by (auto simp: is_newer_def times_now_def split: option.split)
    then have "\<exists>sub \<in> set RECIPE_SUBDIRS. \<exists>q \<in> set (the (paths_to_check d' p sub)). is_newer d' (reg_mtimes reg') q"
      using a(3-5) by (metis option.sel)
    then show ?thesis using a(1,2) by (auto simp: needs_rescan_def list_ex_iff sp)
  qed
  ultimately show ?thesis by blast
qed

theorem rescan_settles_witness:
  "\<exists>reg'. scan demo_disk demo_reg = (False, reg') \<and> \<not> needs_rescan demo_disk reg'"
proof -
  obtain reg' where s: "scan demo_disk demo_reg = (False, reg')" using demo_scan by (cases "scan demo_disk demo_reg") auto
  have r: "disk_readable demo_disk" by (simp add: disk_readable_def demo_disk_def)
  have b: "registers demo_disk demo_recipe_dir"
  proof -
    have "d_metadata demo_disk (demo_recipe_dir @ [''recipe.md'']) = Some demo_meta" "validate_metadata demo_meta = Inr ()"
      "find_script_file demo_disk demo_recipe_dir (rm_runtime demo_meta) = Some (demo_recipe_dir @ [''recipe.py''])"
      by (code_simp, code_simp, code_simp)
    then show ?thesis unfolding registers_def by blast
  qed
  have "registers demo_disk (p @ sub @ [n])" if "d_is_dir demo_disk (p @ sub @ [n])" for p sub n
  proof -
    have "p @ sub @ [n] = demo_recipe_dir" using that by (simp add: demo_disk_def)
    then show ?thesis using b by simp
  qed
  then have "all_register demo_disk p" for p by (simp add: all_register_def)
  then show ?thesis using rescan_settles [OF r s] s by blast
qed

text \<open>The pruning of workflows is a single pass: a workflow whose only dependency is itself pruned stays in
  the index.\<close>

definition demo_flow :: "string \<Rightarrow> string \<Rightarrow> recipe" where
  "demo_flow n dep = \<lparr>rc_metadata = demo_meta\<lparr>rm_name := n, rm_type := ''workflow'', rm_dependencies := [dep]\<rparr>,
     rc_script_path = [], rc_metadata_path = [], rc_source = ''User'', rc_base_dir = []\<rparr>"

theorem pruning_is_one_pass:
  "\<exists>reg r. find_recipe (validate_dependencies reg) ''weekly'' None = Some r
     \<and> rm_type (rc_metadata r) = ''workflow'' \<and> rm_dependencies (rc_metadata r) = [''daily'']
     \<and> find_recipe (validate_dependencies reg) ''daily'' None = None"
proof -
  let ?reg = "\<lparr>reg_search_paths = [], reg_recipes = [(''weekly'', [(''User'', demo_flow ''weekly'' ''daily'')]),
      (''daily'', [(''User'', demo_flow ''daily'' ''gone'')])], reg_mtimes = []\<rparr>"
  have "find_recipe (validate_dependencies ?reg) ''weekly'' None = Some (demo_flow ''weekly'' ''daily'')"
    "find_recipe (validate_dependencies ?reg) ''daily'' None = None" by (code_simp, code_simp)
  then show ?thesis
    by (intro exI [of _ ?reg] exI [of _ "demo_flow ''weekly'' ''daily''"]) (simp add: demo_flow_def)
qed

end
