(* ===== verification/App_Pages.thy ===== *)
theory App_Pages
  imports Home_Files Recipe_Registry
begin

text \<open>
  \<open>server/routes/app_pages.py\<close>: the four GET routes under \<open>/app/<name>\<close> that serve a recipe's page, its
  configuration and its data, and the handler of \<open>server/app.py\<close> that turns their refusals into answers.
  Symbolic links are the operation \<open>resolve\<close> (\<open>Path.resolve\<close>); the registry is the operation \<open>find_of\<close>, None
  being \<open>RecipeNotFoundError\<close>.
\<close>

subsection \<open>Refusals\<close>

text \<open>An \<open>HTTPException\<close> with the text it carries, the same marked as safe for a visitor to read, and
  any other exception.\<close>

datatype http_error =
    HttpError nat string
  | VisitorSafe nat string
  | Raised string

text \<open>The answer a refusal turns into: status and detail.\<close>

datatype error_answer =
    ErrorAnswer nat string
  | Uncaught string

definition http_exception_handler :: "gate_state option \<Rightarrow> http_error \<Rightarrow> error_answer" where
  "http_exception_handler st e =
     (case e of
        Raised what \<Rightarrow> Uncaught what
      | VisitorSafe code msg \<Rightarrow> ErrorAnswer code msg
      | HttpError code msg \<Rightarrow>
          (case is_owner_request st of
             None \<Rightarrow> Uncaught ''ValueError''
           | Some owner \<Rightarrow>
               if \<not> owner \<and> 400 \<le> code \<and> code < 500 then ErrorAnswer 404 ''Not found''
               else ErrorAnswer code msg))"

subsection \<open>Finding the page\<close>

definition bad_page_name :: "string \<Rightarrow> bool" where
  "bad_page_name n = (CHR ''/'' \<in> set n \<or> contains n ''..'')"

text \<open>Where a page's front end is: the recipe's own directory, or that of the recipe it borrows from.\<close>

definition ui_recipe :: "(string \<Rightarrow> recipe option) \<Rightarrow> string \<Rightarrow> http_error + recipe" where
  "ui_recipe find_of name =
     (if bad_page_name name then Inl (HttpError 400 ''Invalid recipe name'')
      else case find_of name of
             None \<Rightarrow> Inl (HttpError 404 (''Recipe not found: '' @ name))
           | Some r \<Rightarrow>
               let owner = (case rm_ui_from (rc_metadata r) of
                              Some u \<Rightarrow> if u \<noteq> [] then u else name | None \<Rightarrow> name)
               in if owner = name then Inr r
                  else if bad_page_name owner then Inl (HttpError 400 (''Invalid ui_from: '' @ owner))
                  else case find_of owner of
                         None \<Rightarrow> Inl (HttpError 404 (''borrows its UI from '' @ owner))
                       | Some r' \<Rightarrow> Inr r')"

definition assets_dir ::
    "(string \<Rightarrow> recipe option) \<Rightarrow> (path \<Rightarrow> path) \<Rightarrow> file_sys \<Rightarrow> string \<Rightarrow> http_error + path" where
  "assets_dir find_of resolve fs name =
     bindE (ui_recipe find_of name) (\<lambda>r.
       let assets = rc_base_dir r @ [''assets'']
       in if is_dir fs (resolve assets) then Inr assets
          else Inl (HttpError 404 (''has no assets/ directory to serve: '' @ name)))"

definition resolve_within :: "(path \<Rightarrow> path) \<Rightarrow> path \<Rightarrow> string \<Rightarrow> http_error + path" where
  "resolve_within resolve base relative =
     (let candidate = resolve (path_join base relative)
      in if prefix (resolve base) candidate then Inr candidate else Inl (HttpError 403 ''Access denied''))"

subsection \<open>The slot\<close>

text \<open>\<open>request.query_params.get("key")\<close>: the last of several values.\<close>

definition query_key :: "site \<Rightarrow> scope \<Rightarrow> string option" where
  "query_key w sc = (let vs = query_values w sc ''key'' in if vs = [] then None else Some (last vs))"

definition or_default :: "string option \<Rightarrow> string" where
  "or_default v = (case v of Some k \<Rightarrow> if k \<noteq> [] then k else DEFAULT_SLOT | None \<Rightarrow> DEFAULT_SLOT)"

definition slot_state ::
    "site \<Rightarrow> file_sys \<Rightarrow> string \<Rightarrow> scope \<Rightarrow> gate_state option \<Rightarrow> http_error + string \<times> (string, json) dict" where
  "slot_state w fs name sc st =
     (case (zone_of st, slot_for st) of
        (Some zone, Some slot) \<Rightarrow>
          let visitor = zone \<in> {''public'', ''identity''};
              key = (if visitor then or_default slot else or_default (query_key w sc))
          in (case read_slot (st_os w) fs name key (zone = ''identity'') of
                Inl _ \<Rightarrow> Inl (HttpError 400 ''invalid slot name'')
              | Inr state \<Rightarrow> Inr (key, state))
      | _ \<Rightarrow> Inl (Raised ''ValueError''))"

subsection \<open>The routes\<close>

datatype page_answer =
    Redirect nat string
  | Json "(string, json) dict"
  | File path

definition serve_app_root ::
    "(string \<Rightarrow> recipe option) \<Rightarrow> (path \<Rightarrow> path) \<Rightarrow> file_sys \<Rightarrow> string \<Rightarrow> scope \<Rightarrow> http_error + page_answer" where
  "serve_app_root find_of resolve fs name sc =
     bindE (assets_dir find_of resolve fs name) (\<lambda>_.
       let query = sc_query sc
       in Inr (Redirect 307 (''/app/'' @ name @ ''/'' @ (if query \<noteq> [] then ''?'' @ query else []))))"

definition page_config :: "bool \<Rightarrow> string \<Rightarrow> string \<Rightarrow> (string, json) dict \<Rightarrow> (string, json) dict" where
  "page_config owner name key state =
     (let config = (if owner then state else public_view state)
      in dict_set ''slot'' (JStr key)
          (dict_set ''appBase'' (JStr (''/app/'' @ name @ ''/''))
          (dict_set ''recipeName'' (JStr name)
          (dict_set ''readOnly'' (JBool (\<not> owner))
          (dict_set ''apiBase'' (if owner then JStr ''/api'' else JNull) config)))))"

definition serve_app_config ::
    "site \<Rightarrow> (string \<Rightarrow> recipe option) \<Rightarrow> (path \<Rightarrow> path) \<Rightarrow> file_sys \<Rightarrow> string \<Rightarrow> scope \<Rightarrow> gate_state option \<Rightarrow>
     http_error + page_answer" where
  "serve_app_config w find_of resolve fs name sc st =
     bindE (assets_dir find_of resolve fs name) (\<lambda>_.
     bindE (slot_state w fs name sc st) (\<lambda>(key, state).
       case is_owner_request st of
         None \<Rightarrow> Inl (Raised ''ValueError'')
       | Some owner \<Rightarrow> Inr (Json (page_config owner name key state))))"

text \<open>The refusal of a data directory that belongs to another account.\<close>

definition foreign_data_dir :: "site \<Rightarrow> (path \<Rightarrow> path) \<Rightarrow> string \<Rightarrow> path \<Rightarrow> bool" where
  "foreign_data_dir w resolve key base =
     (if prefix (resolve (user_state_dir (st_os w))) (resolve base)
      then (case user_root (st_os w) key of Inl _ \<Rightarrow> True | Inr own \<Rightarrow> \<not> prefix (resolve own) (resolve base))
      else False)"

definition serve_app_data ::
    "site \<Rightarrow> (string \<Rightarrow> recipe option) \<Rightarrow> (path \<Rightarrow> path) \<Rightarrow> file_sys \<Rightarrow> string \<Rightarrow> string \<Rightarrow> scope \<Rightarrow> gate_state option \<Rightarrow>
     http_error + page_answer" where
  "serve_app_data w find_of resolve fs name file_path sc st =
     bindE (assets_dir find_of resolve fs name) (\<lambda>_.
     bindE (slot_state w fs name sc st) (\<lambda>(key, state).
       case dict_get state ''dataDir'' of
         Some (JStr data_dir) \<Rightarrow>
           if data_dir = [] then Inl (HttpError 404 ''declares no dataDir'')
           else let base = expanduser (st_os w) (path_of data_dir)
                in if zone_of st = Some ''identity'' \<and> foreign_data_dir w resolve key base
                   then Inl (HttpError 404 ''File not found'')
                   else if \<not> is_dir fs (resolve base) then Inl (HttpError 404 (''dataDir does not exist: '' @ data_dir))
                   else bindE (resolve_within resolve base file_path) (\<lambda>full.
                          if is_file fs full then Inr (File full) else Inl (HttpError 404 ''File not found''))
       | Some j \<Rightarrow> if truthy j then Inl (Raised ''TypeError'') else Inl (HttpError 404 ''declares no dataDir'')
       | None \<Rightarrow> Inl (HttpError 404 ''declares no dataDir'')))"

definition serve_app_asset ::
    "(string \<Rightarrow> recipe option) \<Rightarrow> (path \<Rightarrow> path) \<Rightarrow> file_sys \<Rightarrow> string \<Rightarrow> string \<Rightarrow> http_error + page_answer" where
  "serve_app_asset find_of resolve fs name file_path =
     bindE (assets_dir find_of resolve fs name) (\<lambda>assets.
     bindE (resolve_within resolve assets (if file_path \<noteq> [] then file_path else ''index.html'')) (\<lambda>p.
       let full = (if is_dir fs p then p @ [''index.html''] else p)
       in if is_file fs (resolve full) then Inr (File full) else Inl (HttpError 404 ''File not found'')))"

text \<open>The order in which the routes are declared decides: the page itself, its configuration, its data,
  anything else. The argument is what follows the name in the address.\<close>

definition serve_page ::
    "site \<Rightarrow> (string \<Rightarrow> recipe option) \<Rightarrow> (path \<Rightarrow> path) \<Rightarrow> file_sys \<Rightarrow> string \<Rightarrow> string option \<Rightarrow> scope \<Rightarrow>
     gate_state option \<Rightarrow> http_error + page_answer" where
  "serve_page w find_of resolve fs name rest sc st =
     (case rest of
        None \<Rightarrow> serve_app_root find_of resolve fs name sc
      | Some r \<Rightarrow>
          if r = ''/config.json'' then serve_app_config w find_of resolve fs name sc st
          else if startswith r ''/data/'' then serve_app_data w find_of resolve fs name (drop 6 r) sc st
          else serve_app_asset find_of resolve fs name (drop 1 r))"

lemma chomp_nl_cases: "c \<in> set s \<Longrightarrow> c \<in> set (chomp_nl s) \<or> c = newline"
  by (cases s rule: rev_cases) (auto simp: chomp_nl_def)

subsection \<open>The index of recipes, as the routes use it\<close>

text \<open>The contract the routes rely on: what is found carries the name it was asked for and has passed the
  metadata check.\<close>

locale recipe_index =
  fixes find_of :: "string \<Rightarrow> recipe option"
  assumes found_named: "find_of n = Some r \<Longrightarrow> rm_name (rc_metadata r) = n"
    and found_checked: "find_of n = Some r \<Longrightarrow> validate_metadata (rc_metadata r) = Inr ()"
begin

lemma found_plain:
  assumes "find_of n = Some r"
  shows "\<not> bad_page_name n"
proof -
  have "metadata_problems (rc_metadata r) = []"
    using found_checked [OF assms] by (simp add: validate_metadata_def Let_def split: if_splits)
  then have m: "RECIPE_NAME n" using found_named [OF assms] by (simp add: metadata_problems_def split: if_splits)
  have c: "is_letter c \<or> is_digit c \<or> c = CHR ''_'' \<or> c = CHR ''-'' \<or> c = newline" if "c \<in> set n" for c
    using m that chomp_nl_cases [of c n] unfolding RECIPE_NAME_def match_class_plus_def Let_def list_all_iff by blast
  have "\<not> (is_letter c \<or> is_digit c \<or> c = CHR ''_'' \<or> c = CHR ''-'' \<or> c = newline)" if "c \<in> {CHR ''/'', CHR ''.''}" for c
    using that by (auto simp: is_letter_def is_digit_def newline_def)
  then have "CHR ''/'' \<notin> set n" "CHR ''.'' \<notin> set n" using c by blast+
  then show ?thesis by (auto simp: bad_page_name_def contains_def dest: set_mono_sublist)
qed

lemma ui_recipe_found: "ui_recipe find_of name = Inr r \<Longrightarrow> \<exists>n. find_of n = Some r \<and> \<not> bad_page_name n"
  using found_plain by (auto simp: ui_recipe_def Let_def split: if_splits option.splits)

lemma assets_dir_found:
  assumes "assets_dir find_of resolve fs name = Inr a"
  shows "\<exists>n r. find_of n = Some r \<and> \<not> bad_page_name n \<and> a = rc_base_dir r @ [''assets''] \<and> is_dir fs (resolve a)"
  using assms by (auto simp: assets_dir_def bindE_eq_Inr Let_def split: if_splits dest!: ui_recipe_found)

end

lemma find_recipe_sound:
  assumes "index_ok d (reg_recipes reg)" "find_recipe reg n None = Some r"
  shows "\<exists>src. sound_recipe d n src r"
proof -
  obtain sd where sd: "dict_get (reg_recipes reg) n = Some sd" "by_priority sd = Some r"
    using assms(2) by (auto simp: find_recipe_def split: option.splits)
  obtain i where "dict_get sd (SOURCE_PRIORITY ! i) = Some r" by (rule by_priority_first [OF sd(2)])
  then show ?thesis using assms(1) sd(1) unfolding index_ok_def by blast
qed

interpretation scanned: recipe_index "\<lambda>n. find_recipe (snd (scan d reg)) n None" for d reg
  by unfold_locales (auto dest!: find_recipe_sound [OF scan_ok] simp: sound_recipe_def)

subsection \<open>The slot a visitor gets\<close>

lemma slot_state_visitor:
  assumes "zone_of (Some g) = Some (frago_zone g)" "frago_zone g \<in> {''public'', ''identity''}"
  shows "slot_state w fs name sc (Some g) =
    (case read_slot (st_os w) fs name (or_default (frago_slot g)) (frago_zone g = ''identity'') of
       Inl _ \<Rightarrow> Inl (HttpError 400 ''invalid slot name'') | Inr state \<Rightarrow> Inr (or_default (frago_slot g), state))"
  using assms by (auto simp: slot_state_def slot_for_def Let_def)

lemma admitted_zone:
  assumes "gate_call w t entry_of tokfile sc s = (Admitted g, s')"
  shows "zone_of (Some g) = Some (frago_zone g)"
proof -
  have "frago_zone g \<in> set ZONES"
    using assms by (cases rule: gate_admitted) (auto simp: admit_def ZONES_def)
  then show ?thesis by (simp add: zone_of_def)
qed

lemma read_slot_dirs: "read_slot os fs n k i = Inl e \<Longrightarrow> read_slot os fs' n k i = Inl e"
  by (cases "slot_path os n k i") (auto simp: read_slot_def)

lemma assets_dir_cong: "fs_dirs fs' = fs_dirs fs \<Longrightarrow> assets_dir find_of resolve fs' name = assets_dir find_of resolve fs name"
  by (simp add: assets_dir_def is_dir_def)

lemma page_config_visitor:
  "public_view state = public_view state' \<Longrightarrow> page_config False name key state = page_config False name key state'"
  by (simp add: page_config_def)

lemma page_config_fields:
  "dict_get (page_config False name key state) k =
     (if k = ''slot'' then Some (JStr key) else if k = ''appBase'' then Some (JStr (''/app/'' @ name @ ''/''))
      else if k = ''recipeName'' then Some (JStr name) else if k = ''readOnly'' then Some (JBool True)
      else if k = ''apiBase'' then Some JNull else dict_get (public_view state) k)"
  by (simp add: page_config_def)

lemma resolve_within_Inr: "resolve_within resolve base rel = Inr p \<Longrightarrow> prefix (resolve base) p"
  by (simp add: resolve_within_def Let_def split: if_splits)

text \<open>An address under \<open>/app/\<close> that reaches the identity zone comes with the visitor's own slot.\<close>

lemma identity_page_slot:
  assumes "gate_call w t (published_entry es) tokfile sc s = (Admitted g, s')" "frago_zone g = ''identity''"
    and "APP_PATH (sc_get (sc_path sc)) = Some (name, rest)"
  obtains who where "frago_identity g = Some who" "frago_slot g = Some who" "who \<noteq> []"
    "allows (published_entry es name) (Some who)"
  using assms(1)
proof (cases rule: gate_admitted)
  case (Identity who slot)
  have "(method_of sc, sc_get (sc_path sc)) \<notin> set IDENTITY_ENDPOINTS"
  proof
    assume "(method_of sc, sc_get (sc_path sc)) \<in> set IDENTITY_ENDPOINTS"
    then have "startswith (sc_get (sc_path sc)) ''/app/'' = False" by (auto simp: IDENTITY_ENDPOINTS_def startswith_def)
    then show False using assms(3) by (simp add: APP_PATH_def)
  qed
  then have a: "slot = Some who" "\<exists>e. published_entry es name = Some e \<and> allows (Some e) (Some who)"
    using classify_identity_True [OF Identity(2)] assms(3) by auto
  have "who \<noteq> []" using a(2) by (auto simp: allows_def split: if_splits)
  then show ?thesis using that [of who] a Identity(4) by (auto simp: admit_def)
qed (use assms(2) in \<open>simp_all add: admit_def\<close>)

lemma serve_app_data_file:
  assumes "serve_app_data w find_of resolve fs name fp sc st = Inr (File p)"
  shows "\<exists>key state dd. slot_state w fs name sc st = Inr (key, state) \<and> dict_get state ''dataDir'' = Some (JStr dd)
    \<and> prefix (resolve (expanduser (st_os w) (path_of dd))) p \<and> is_file fs p
    \<and> (zone_of st = Some ''identity'' \<longrightarrow> \<not> foreign_data_dir w resolve key (expanduser (st_os w) (path_of dd)))"
proof -
  obtain key state where ks: "slot_state w fs name sc st = Inr (key, state)"
    using assms by (auto simp: serve_app_data_def bindE_eq_Inr)
  obtain a where a: "assets_dir find_of resolve fs name = Inr a"
    using assms by (auto simp: serve_app_data_def bindE_eq_Inr)
  note d = assms [unfolded serve_app_data_def a ks bindE_simps split]
  obtain dd where dd: "dict_get state ''dataDir'' = Some (JStr dd)"
    using d by (auto split: option.splits json.splits if_splits)
  note e = d [unfolded dd option.case json.case Let_def]
  have nf: "zone_of st = Some ''identity'' \<longrightarrow> \<not> foreign_data_dir w resolve key (expanduser (st_os w) (path_of dd))"
    using e by (auto split: if_splits)
  obtain full where "resolve_within resolve (expanduser (st_os w) (path_of dd)) fp = Inr full" "full = p" "is_file fs p"
    using e by (auto simp: bindE_eq_Inr split: if_splits)
  then have "prefix (resolve (expanduser (st_os w) (path_of dd))) p" "is_file fs p" using resolve_within_Inr by blast+
  with ks dd nf show ?thesis by blast
qed

lemma serve_page_file:
  assumes "serve_page w find_of resolve fs name rest sc st = Inr (File p)"
  obtains (Asset) a where "assets_dir find_of resolve fs name = Inr a" "prefix (resolve a) p"
  | (Data) key state dd where "slot_state w fs name sc st = Inr (key, state)" "dict_get state ''dataDir'' = Some (JStr dd)"
      "prefix (resolve (expanduser (st_os w) (path_of dd))) p" "is_file fs p"
      "zone_of st = Some ''identity'' \<Longrightarrow> \<not> foreign_data_dir w resolve key (expanduser (st_os w) (path_of dd))"
proof (cases rest)
  case None
  then show ?thesis using assms by (auto simp: serve_page_def serve_app_root_def bindE_eq_Inr Let_def)
next
  case (Some r)
  consider "r = ''/config.json''" | "r \<noteq> ''/config.json''" "startswith r ''/data/''" | "r \<noteq> ''/config.json''" "\<not> startswith r ''/data/''" by blast
  then show ?thesis
  proof cases
    case 1
    then show ?thesis using assms Some
      by (auto simp: serve_page_def serve_app_config_def bindE_eq_Inr split: option.splits)
  next
    case 2
    then have "serve_app_data w find_of resolve fs name (drop 6 r) sc st = Inr (File p)" using assms Some by (simp add: serve_page_def)
    from serve_app_data_file [OF this] show ?thesis using Data by blast
  next
    case 3
    then have "serve_app_asset find_of resolve fs name (drop 1 r) = Inr (File p)" using assms Some by (simp add: serve_page_def)
    then show ?thesis using Asset
      by (auto simp: serve_app_asset_def bindE_eq_Inr Let_def split: if_splits dest!: resolve_within_Inr intro: prefix_order.trans)
  qed
qed

subsection \<open>Properties\<close>

text \<open>C6: the configuration a visitor is given depends on nothing but the public part of the one slot the
  gate chose. Two disks with the same directories on which that slot has the same \<open>public\<close> block give the
  same answer, whatever else differs, and whatever the query string says. The answer names no API, is
  marked read-only, and every other key of it comes from that block.\<close>

theorem visitor_config_noninterference:
  assumes "gate_call w t entry_of tokfile sc s = (Admitted g, s')" "frago_zone g \<in> {''public'', ''identity''}"
    and "fs_dirs fs' = fs_dirs fs"
    and "\<And>d d'. read_slot (st_os w) fs name (or_default (frago_slot g)) (frago_zone g = ''identity'') = Inr d \<Longrightarrow>
      read_slot (st_os w) fs' name (or_default (frago_slot g)) (frago_zone g = ''identity'') = Inr d' \<Longrightarrow>
      public_view d = public_view d'"
  shows "serve_app_config w find_of resolve fs' name sc' (Some g) = serve_app_config w find_of resolve fs name sc (Some g)
    \<and> (serve_app_config w find_of resolve fs name sc (Some g) = Inr (Json c) \<longrightarrow>
        dict_get c ''apiBase'' = Some JNull \<and> dict_get c ''readOnly'' = Some (JBool True)
        \<and> (\<exists>d. read_slot (st_os w) fs name (or_default (frago_slot g)) (frago_zone g = ''identity'') = Inr d
             \<and> (\<forall>k. k \<notin> {''slot'', ''appBase'', ''recipeName'', ''readOnly'', ''apiBase''} \<longrightarrow>
                  dict_get c k = dict_get (public_view d) k)))"
proof -
  have z: "zone_of (Some g) = Some (frago_zone g)" by (rule admitted_zone [OF assms(1)])
  have o: "is_owner_request (Some g) = Some False" using assms(2) by (auto simp: is_owner_request_def z)
  note ss = slot_state_visitor [OF z assms(2)]
  have a: "assets_dir find_of resolve fs' name = assets_dir find_of resolve fs name" by (rule assets_dir_cong [OF assms(3)])
  show ?thesis
  proof (cases "read_slot (st_os w) fs name (or_default (frago_slot g)) (frago_zone g = ''identity'')")
    case (Inl e)
    then show ?thesis using read_slot_dirs [OF Inl, of fs'] by (cases "assets_dir find_of resolve fs name") (simp_all add: serve_app_config_def a ss)
  next
    case (Inr d)
    then obtain d' where d': "read_slot (st_os w) fs' name (or_default (frago_slot g)) (frago_zone g = ''identity'') = Inr d'"
      using read_slot_dirs by (metis Inl_Inr_False sum.exhaust)
    have "page_config False name key d' = page_config False name key d" for key
      using page_config_visitor assms(4) [OF Inr d'] by metis
    then show ?thesis
      using Inr d' o
      by (cases "assets_dir find_of resolve fs name") (auto simp: serve_app_config_def a ss page_config_fields)
  qed
qed

text \<open>The reader of the gate's example, on a disk with their own slot and somebody else's.\<close>

definition demo_slot_file :: "string \<Rightarrow> string \<Rightarrow> path" where
  "demo_slot_file who recipe = [''/'', ''home'', ''ada'', ''.frago'', ''users'', who, ''state'', recipe @ ''.json'']"

definition demo_page_fs :: "string \<Rightarrow> string \<Rightarrow> file_sys" where
  "demo_page_fs dd secret = \<lparr>
     fs_files = [(demo_slot_file ''ada'' ''desk'', \<lparr>f_mode = 384,
         f_text = Parsed (JObj [(''dataDir'', JStr dd), (''token'', JStr secret), (''public'', JObj [(''title'', JStr ''Desk'')])])\<rparr>),
       ([''/'', ''home'', ''ada'', ''.frago'', ''users'', ''bob'', ''data'', ''desk'', ''notes.json''], \<lparr>f_mode = 384, f_text = Unparsable\<rparr>),
       ([''/'', ''home'', ''ada'', ''.frago'', ''users'', ''ada'', ''data'', ''desk'', ''run.json''], \<lparr>f_mode = 384, f_text = Unparsable\<rparr>)],
     fs_dirs = [(demo_recipe_dir @ [''assets''], 493), ([''/'', ''home'', ''ada'', ''.frago''], 448),
       ([''/'', ''home'', ''ada'', ''.frago'', ''users'', ''ada'', ''data'', ''desk''], 448)]\<rparr>"

definition demo_find :: "string \<Rightarrow> recipe option" where
  "demo_find n = (if n = ''desk'' then Some \<lparr>rc_metadata = demo_meta\<lparr>rm_name := ''desk''\<rparr>, rc_script_path = demo_recipe_dir @ [''recipe.py''],
     rc_metadata_path = demo_recipe_dir @ [''recipe.md''], rc_source = ''User'', rc_base_dir = demo_recipe_dir\<rparr> else None)"

theorem visitor_config_noninterference_witness:
  "serve_app_config demo_site demo_find id (demo_page_fs ''/srv/a'' ''k1'') ''desk'' demo_visit (Some (admit ''identity'' (Some ''ada'') (Some ''ada'')))
   = serve_app_config demo_site demo_find id (demo_page_fs ''/srv/b'' ''k2'') ''desk'' demo_visit (Some (admit ''identity'' (Some ''ada'') (Some ''ada'')))"
proof -
  obtain s' where g: "gate_call demo_site demo_tick (published_entry demo_list) None demo_visit demo_signed_in
     = (Admitted (admit ''identity'' (Some ''ada'') (Some ''ada'')), s')" using demo_visit_admitted by blast
  let ?g = "admit ''identity'' (Some ''ada'') (Some ''ada'')"
  have z: "frago_zone ?g \<in> {''public'', ''identity''}" by (simp add: admit_def)
  have k: "or_default (frago_slot ?g) = ''ada''" "(frago_zone ?g = ''identity'') = True" by (simp_all add: admit_def or_default_def)
  have r: "read_slot (st_os demo_site) (demo_page_fs ''/srv/b'' ''k2'') ''desk'' ''ada'' True
      = Inr [(''dataDir'', JStr ''/srv/b''), (''token'', JStr ''k2''), (''public'', JObj [(''title'', JStr ''Desk'')])]"
    "read_slot (st_os demo_site) (demo_page_fs ''/srv/a'' ''k1'') ''desk'' ''ada'' True
      = Inr [(''dataDir'', JStr ''/srv/a''), (''token'', JStr ''k1''), (''public'', JObj [(''title'', JStr ''Desk'')])]"
    by (code_simp, code_simp)
  have d: "fs_dirs (demo_page_fs ''/srv/a'' ''k1'') = fs_dirs (demo_page_fs ''/srv/b'' ''k2'')" by (simp add: demo_page_fs_def)
  show ?thesis
    by (rule visitor_config_noninterference [OF g z d, THEN conjunct1]) (auto simp: k r public_view_def)
qed


definition demo_desk_disk :: disk where
  "demo_desk_disk = \<lparr>d_exists = d_exists demo_disk, d_is_dir = d_is_dir demo_disk, d_iterdir = d_iterdir demo_disk,
     d_mtime = d_mtime demo_disk,
     d_metadata = (\<lambda>p. if p = demo_recipe_dir @ [''recipe.md''] then Some (demo_meta\<lparr>rm_name := ''desk''\<rparr>) else None)\<rparr>"


text \<open>The check of the declared directory only looks downwards from the root of all accounts. A slot that
  declares a directory above that root serves one account's files to another.\<close>

theorem ancestor_data_dir_leaks:
  "serve_page demo_site demo_find id (demo_page_fs ''/home/ada/.frago'' []) ''desk'' (Some ''/data/users/bob/data/desk/notes.json'')
     (demo_visit_to ''GET'' ''/app/desk/data/users/bob/data/desk/notes.json'') (Some (admit ''identity'' (Some ''ada'') (Some ''ada'')))
   = Inr (File (user_state_dir (st_os demo_site) @ [''bob'', ''data'', ''desk'', ''notes.json'']))
   \<and> path_is_safe ''/app/desk/data/users/bob/data/desk/notes.json''"
  by (rule conjI) (code_simp, code_simp)

end
