(* ===== verification/Visitor_Runs.thy ===== *)
theory Visitor_Runs
  imports App_Pages
begin

text \<open>
  \<open>server/routes/app_run.py\<close> and the visitor pool of \<open>recipes/background.py\<close>: the one route by which a
  signed-in visitor makes the server start a process. The state holds the claims (\<open>_running\<close>), the free
  slots of the semaphore, the registry singleton, the disk, and the runs that were handed to a worker
  and have not ended.
\<close>

subsection \<open>State\<close>

record visitor_job =
  vj_name :: string
  vj_params :: "(string, json) dict"
  vj_ctx :: invocation_context
  vj_dir :: path

record run_state =
  running :: "(string \<times> string, rat) dict"
  free_slots :: nat
  rs_active :: "visitor_job list"
  rs_registry :: "registry option"
  rs_fs :: file_sys

text \<open>What one request or one ending run finds: the clock, the time stamp it writes, and whether the disk
  and the executor cooperate.\<close>

record run_tick =
  rt_now :: rat
  rt_stamp :: string
  rt_publish_ok :: bool
  rt_state_ok :: bool
  rt_submit_ok :: bool

definition RUN_STATE_FILE :: string where "RUN_STATE_FILE = ''run.json''"
definition MAX_RUNS_PER_ACCOUNT :: nat where "MAX_RUNS_PER_ACCOUNT = 1"
definition MAX_VISITOR_WORKERS :: nat where "MAX_VISITOR_WORKERS = 2"

subsection \<open>Claims\<close>

definition gate_ttl :: "int option \<Rightarrow> rat" where
  "gate_ttl timeout =
     of_int (case timeout of Some n \<Rightarrow> if n \<noteq> 0 then n else 300 | None \<Rightarrow> 300) * 2 + 60"

definition account_at_limit :: "string \<Rightarrow> rat \<Rightarrow> string \<times> string \<Rightarrow> (string \<times> string, rat) dict \<Rightarrow> bool" where
  "account_at_limit who clock besides r =
     (length (filter (\<lambda>(other, deadline). other \<noteq> besides \<and> snd other = who \<and> clock < deadline) r) \<ge> MAX_RUNS_PER_ACCOUNT)"

definition claim ::
    "string \<times> string \<Rightarrow> int option \<Rightarrow> rat \<Rightarrow> (string \<times> string, rat) dict \<Rightarrow> bool \<times> (string \<times> string, rat) dict" where
  "claim key timeout clock r =
     (if (case dict_get r key of Some held \<Rightarrow> clock < held | None \<Rightarrow> False) then (False, r)
      else if account_at_limit (snd key) clock key r then (False, r)
      else (True, dict_set key (clock + gate_ttl timeout) r))"

definition release :: "string \<times> string \<Rightarrow> (string \<times> string, rat) dict \<Rightarrow> (string \<times> string, rat) dict" where
  "release key r = dict_del key r"

subsection \<open>What the page polls\<close>

definition write_run_state :: "run_tick \<Rightarrow> path \<Rightarrow> (string, json) dict \<Rightarrow> file_sys \<Rightarrow> file_sys" where
  "write_run_state rt data_dir fl fs =
     (if \<not> rt_state_ok rt then fs
      else let fs1 = mkdir_parents data_dir fs;
               payload = fold (\<lambda>(k, v). dict_set k v) fl [(''updated'', JStr (rt_stamp rt))];
               tmp = data_dir @ [''.'' @ RUN_STATE_FILE @ ''.tmp'']
           in write_file 420 (data_dir @ [RUN_STATE_FILE]) (Parsed (JObj payload))
                (remove_file tmp (write_file 420 tmp (Parsed (JObj payload)) fs1)))"

definition visitor_error :: "string \<Rightarrow> string" where
  "visitor_error exc =
     (if exc = ''TimeoutError'' then ''the run took too long and was stopped''
      else if exc = ''RecipeValidationError'' then ''the recipe refused these parameters''
      else ''the run failed'')"

subsection \<open>The pool\<close>

text \<open>\<open>submit_visitor_run\<close>: no free slot is \<open>VisitorPoolBusy\<close>; a failing \<open>submit\<close> gives the slot back. Both
  are exceptions to the caller.\<close>

definition submit_visitor_run :: "run_tick \<Rightarrow> visitor_job \<Rightarrow> run_state \<Rightarrow> bool \<times> run_state" where
  "submit_visitor_run rt job s =
     (if free_slots s = 0 then (False, s)
      else if \<not> rt_submit_ok rt then (False, s)
      else (True, s\<lparr>free_slots := free_slots s - 1, rs_active := rs_active s @ [job]\<rparr>))"

definition job_key :: "visitor_job \<Rightarrow> string \<times> string" where
  "job_key j = (vj_name j, case ic_slot (vj_ctx j) of Some who \<Rightarrow> who | None \<Rightarrow> [])"

definition submit_run :: "run_tick \<Rightarrow> visitor_job \<Rightarrow> run_state \<Rightarrow> (http_error + unit) \<times> run_state" where
  "submit_run rt job s =
     (case submit_visitor_run rt job s of
        (True, s') \<Rightarrow> (Inr (), s')
      | (False, s') \<Rightarrow>
          (Inl (VisitorSafe 503 ''too many runs in progress''),
           s'\<lparr>running := release (job_key job) (running s'),
              rs_fs := write_run_state rt (vj_dir job)
                [(''state'', JStr ''failed''), (''finished'', JStr (rt_stamp rt)), (''error'', JStr ''the server is too busy'')]
                (rs_fs s')\<rparr>))"

text \<open>The end of \<open>_work\<close> and of its wrapper in the pool: \<open>failed\<close> is the class of the exception, if any.\<close>

definition finish_run :: "run_tick \<Rightarrow> visitor_job \<Rightarrow> string option \<Rightarrow> run_state \<Rightarrow> run_state" where
  "finish_run rt job failed s =
     s\<lparr>running := release (job_key job) (running s), free_slots := Suc (free_slots s), rs_active := remove1 job (rs_active s),
       rs_fs := write_run_state rt (vj_dir job)
         (case failed of
            None \<Rightarrow> [(''state'', JStr ''done''), (''finished'', JStr (rt_stamp rt)), (''error'', JNull)]
          | Some exc \<Rightarrow> [(''state'', JStr ''failed''), (''finished'', JStr (rt_stamp rt)), (''error'', JStr (visitor_error exc))])
         (rs_fs s)\<rparr>"

subsection \<open>The route\<close>

text \<open>The registry in hand, refreshed if it went stale; None when the first scan raises. A rescan that
  raises leaves the old snapshot in use and its half-filled successor as the singleton.\<close>

definition fresh_registry ::
    "path \<Rightarrow> path option \<Rightarrow> disk \<Rightarrow> registry option \<Rightarrow> registry option \<times> registry option" where
  "fresh_registry home official d inst =
     (case get_registry home official d inst of
        (True, reg) \<Rightarrow> (None, Some reg)
      | (False, reg) \<Rightarrow>
          if needs_rescan d reg
          then (case get_registry home official d (invalidate_registry (Some reg)) of
                  (True, reg') \<Rightarrow> (Some reg, Some reg')
                | (False, reg') \<Rightarrow> (Some reg', Some reg'))
          else (Some reg, Some reg))"

datatype request_body = NoBody | BadJson | Body json

definition body_params :: "request_body \<Rightarrow> http_error + (string, json) dict" where
  "body_params b =
     (case b of
        NoBody \<Rightarrow> Inr []
      | BadJson \<Rightarrow> Inl (VisitorSafe 400 ''body must be JSON'')
      | Body (JObj d) \<Rightarrow>
          (case dict_get d ''params'' of
             None \<Rightarrow> Inr []
           | Some j \<Rightarrow> if \<not> truthy j then Inr []
                      else (case j of JObj ps \<Rightarrow> Inr ps | _ \<Rightarrow> Inl (VisitorSafe 400 ''params must be a JSON object'')))
      | Body _ \<Rightarrow> Inl (VisitorSafe 400 ''body must be a JSON object''))"

text \<open>\<open>getattr(recipe.metadata, "timeout", None)\<close>: the metadata has no such field.\<close>

definition recipe_timeout :: "recipe \<Rightarrow> int option" where
  "recipe_timeout r = None"

text \<open>From the claim on: prepare the slot, record that the run is going, hand it to a worker.\<close>

definition start_run ::
    "site \<Rightarrow> run_tick \<Rightarrow> string \<Rightarrow> string \<Rightarrow> (string, json) dict \<Rightarrow> path \<Rightarrow> recipe \<Rightarrow> run_state \<Rightarrow>
     (http_error + unit) \<times> run_state" where
  "start_run w rt name who params data_dir r s =
     (let key = (name, who)
      in case claim key (recipe_timeout r) (rt_now rt) (running s) of
           (False, _) \<Rightarrow> (Inl (VisitorSafe 409 ''you already have a run going; wait for it to finish''), s)
         | (True, rs) \<Rightarrow>
             let s1 = s\<lparr>running := rs\<rparr>;
                 failed = (Inl (HttpError 500 ''could not start the run''), s1\<lparr>running := release key rs\<rparr>)
             in if \<not> rt_publish_ok rt then failed
                else (case publish_slot (st_os w) name [(''dataDir'', JStr (path_str data_dir))] who True (rs_fs s1) of
                        Inl _ \<Rightarrow> failed
                      | Inr (p, fs) \<Rightarrow>
                          submit_run rt
                            \<lparr>vj_name = name, vj_params = params,
                             vj_ctx = \<lparr>ic_caller = VISITOR, ic_slot = Some who, ic_data_dir = Some data_dir\<rparr>, vj_dir = data_dir\<rparr>
                            (s1\<lparr>rs_fs := write_run_state rt data_dir
                                  [(''state'', JStr ''running''), (''started'', JStr (rt_stamp rt)), (''error'', JNull)] fs\<rparr>)))"

definition run_for_visitor ::
    "site \<Rightarrow> (string \<Rightarrow> entry option) \<Rightarrow> (string \<Rightarrow> string \<Rightarrow> bool option) \<Rightarrow> path option \<Rightarrow> disk \<Rightarrow> run_tick \<Rightarrow>
     string \<Rightarrow> request_body \<Rightarrow> gate_state option \<Rightarrow> run_state \<Rightarrow> (http_error + unit) \<times> run_state" where
  "run_for_visitor w entry_of fullmatch official d rt name body st s =
     (case zone_of st of
        None \<Rightarrow> (Inl (Raised ''ValueError''), s)
      | Some zone \<Rightarrow>
          if zone \<noteq> ''identity'' then (Inl (HttpError 401 ''not available''), s)
          else let identity = the (slot_for st)
               in case (entry_of name, identity) of
                    (Some e, Some who) \<Rightarrow>
                      if \<not> entry_runnable e \<or> \<not> allows (Some e) identity then (Inl (HttpError 404 ''not available''), s)
                      else (case fresh_registry (home_dir (st_os w)) official d (rs_registry s) of
                              (None, inst) \<Rightarrow> (Inl (Raised ''OSError''), s\<lparr>rs_registry := inst\<rparr>)
                            | (Some reg, inst) \<Rightarrow>
                                let s1 = s\<lparr>rs_registry := inst\<rparr>
                                in case find_recipe reg name None of
                                     None \<Rightarrow> (Inl (HttpError 404 ''not available''), s1)
                                   | Some r \<Rightarrow>
                                       (case body_params body of
                                          Inl err \<Rightarrow> (Inl err, s1)
                                        | Inr params \<Rightarrow>
                                            (case validate_params fullmatch (rc_metadata r) params True of
                                               Inl (RecipeValidationError n es) \<Rightarrow> (Inl (VisitorSafe 400 ''validation failed''), s1)
                                             | Inl TypeErrorRaised \<Rightarrow> (Inl (Raised ''TypeError''), s1)
                                             | Inr _ \<Rightarrow>
                                                 (case user_data_dir (st_os w) who name of
                                                    Inl _ \<Rightarrow> (Inl (Raised ''InvalidSlotName''), s1)
                                                  | Inr data_dir \<Rightarrow> start_run w rt name who params data_dir r s1))))
                  | _ \<Rightarrow> (Inl (HttpError 404 ''not available''), s))"

subsection \<open>One live claim per account\<close>

definition claims_ok :: "rat \<Rightarrow> (string \<times> string, rat) dict \<Rightarrow> bool" where
  "claims_ok t r \<longleftrightarrow> dict_ok r
     \<and> (\<forall>k k' dl dl'. dict_get r k = Some dl \<and> dict_get r k' = Some dl' \<and> snd k = snd k' \<and> t < dl \<and> t < dl' \<longrightarrow> k = k')"

lemma claims_ok_empty [simp]: "claims_ok t []"
  by (simp add: claims_ok_def)

lemma claims_ok_later: "claims_ok t r \<Longrightarrow> t \<le> t' \<Longrightarrow> claims_ok t' r"
  unfolding claims_ok_def by (meson order_le_less_trans)

text \<open>A table whose entries are among those of another one is as good as it.\<close>

lemma claims_ok_subset:
  assumes "claims_ok t r" "dict_ok r'" "\<And>k dl. dict_get r' k = Some dl \<Longrightarrow> t < dl \<Longrightarrow> dict_get r k = Some dl"
  shows "claims_ok t r'"
  using assms(1,2) unfolding claims_ok_def by (meson assms(3))

lemma claims_ok_release:
  assumes "claims_ok t r"
  shows "claims_ok t (release key r)"
proof (rule claims_ok_subset [OF assms])
  show "dict_ok (release key r)" using assms by (simp add: claims_ok_def release_def)
qed (simp add: release_def split: if_splits)

lemma not_at_limit:
  assumes "\<not> account_at_limit who t besides r" "dict_get r k = Some dl" "k \<noteq> besides" "snd k = who"
  shows "\<not> t < dl"
proof
  assume "t < dl"
  then have "(k, dl) \<in> set (filter (\<lambda>(other, deadline). other \<noteq> besides \<and> snd other = who \<and> t < deadline) r)"
    using assms(2-4) by (auto dest: map_of_SomeD)
  from length_pos_if_in_set [OF this] show False
    using assms(1) unfolding account_at_limit_def MAX_RUNS_PER_ACCOUNT_def by linarith
qed

lemma claims_ok_claim:
  assumes "claims_ok t r"
  shows "claims_ok t (snd (claim key timeout t r))"
proof (cases "fst (claim key timeout t r)")
  case True
  then have c: "snd (claim key timeout t r) = dict_set key (t + gate_ttl timeout) r" "\<not> account_at_limit (snd key) t key r"
    by (simp_all add: claim_def split: if_splits)
  have "k = k'" if a: "dict_get (dict_set key (t + gate_ttl timeout) r) k = Some dl" "t < dl"
    "dict_get (dict_set key (t + gate_ttl timeout) r) k' = Some dl'" "t < dl'" "snd k = snd k'" for k k' dl dl'
  proof -
    have o: "q = key" if "dict_get (dict_set key (t + gate_ttl timeout) r) q = Some e" "t < e" "snd q = snd key" for q e
    proof (rule ccontr)
      assume "q \<noteq> key"
      with that(1) have "dict_get r q = Some e" by simp
      with not_at_limit [OF c(2) _ \<open>q \<noteq> key\<close> that(3)] that(2) show False by blast
    qed
    show ?thesis
    proof (cases "k = key \<or> k' = key")
      case True
      then show ?thesis using o a by metis
    next
      case False
      then have "dict_get r k = Some dl" "dict_get r k' = Some dl'" using a(1,3) by simp_all
      then show ?thesis using assms a(2,4,5) unfolding claims_ok_def by blast
    qed
  qed
  note uniq = this
  show ?thesis unfolding c(1) claims_ok_def
  proof (intro conjI allI impI, goal_cases)
    case 1
    then show ?case using assms by (simp add: claims_ok_def)
  next
    case (2 k k' dl dl')
    then show ?case using uniq by blast
  qed
next
  case False
  then have "snd (claim key timeout t r) = r" by (simp add: claim_def split: if_splits)
  then show ?thesis using assms by simp
qed

subsection \<open>What a request does\<close>

definition visitor_job_of :: "string \<Rightarrow> string \<Rightarrow> (string, json) dict \<Rightarrow> path \<Rightarrow> visitor_job" where
  "visitor_job_of name who params dd =
     \<lparr>vj_name = name, vj_params = params,
      vj_ctx = \<lparr>ic_caller = VISITOR, ic_slot = Some who, ic_data_dir = Some dd\<rparr>, vj_dir = dd\<rparr>"

lemma job_key_of [simp]: "job_key (visitor_job_of name who params dd) = (name, who)" "vj_dir (visitor_job_of name who params dd) = dd"
  by (simp_all add: job_key_def visitor_job_of_def)

lemma start_run_cases:
  assumes "start_run w rt name who params dd r s = (res, s')"
  obtains (Refused) e where "res = Inl e" "free_slots s' = free_slots s" "rs_active s' = rs_active s"
      "running s' \<in> {running s, release (name, who) (snd (claim (name, who) None (rt_now rt) (running s)))}"
      "rs_registry s' = rs_registry s"
  | (Started) p fs where "res = Inr ()" "fst (claim (name, who) None (rt_now rt) (running s))"
      "running s' = snd (claim (name, who) None (rt_now rt) (running s))"
      "free_slots s \<noteq> 0" "free_slots s' = free_slots s - 1" "rs_active s' = rs_active s @ [visitor_job_of name who params dd]"
      "publish_slot (st_os w) name [(''dataDir'', JStr (path_str dd))] who True (rs_fs s) = Inr (p, fs)"
      "rs_fs s' = write_run_state rt dd [(''state'', JStr ''running''), (''started'', JStr (rt_stamp rt)), (''error'', JNull)] fs"
      "rs_registry s' = rs_registry s"
proof -
  obtain b rs where c: "claim (name, who) None (rt_now rt) (running s) = (b, rs)" by fastforce
  note a = assms [unfolded start_run_def recipe_timeout_def c Let_def prod.case, folded visitor_job_of_def]
  show ?thesis
  proof (cases "b = True")
    case False
    then show ?thesis using a Refused by auto
  next
    case True
    note a = a [unfolded True bool.case]
    have failed: ?thesis if "(res, s') = (Inl (HttpError 500 ''could not start the run''), s\<lparr>running := rs, running := release (name, who) rs\<rparr>)"
      using that Refused c by auto
    show ?thesis
    proof (cases "rt_publish_ok rt")
      case False
      then show ?thesis using a failed by simp
    next
      case ok: True
      show ?thesis
      proof (cases "publish_slot (st_os w) name [(''dataDir'', JStr (path_str dd))] who True (rs_fs s)")
        case (Inl e)
        then show ?thesis using a ok failed by simp
      next
        case (Inr pf)
        obtain p fs where pf: "pf = (p, fs)" by (cases pf)
        define s1 where "s1 = s\<lparr>running := rs, rs_fs := write_run_state rt dd
          [(''state'', JStr ''running''), (''started'', JStr (rt_stamp rt)), (''error'', JNull)] fs\<rparr>"
        have s1: "free_slots s1 = free_slots s" "running s1 = rs" "rs_active s1 = rs_active s" "rs_registry s1 = rs_registry s"
          "rs_fs s1 = write_run_state rt dd [(''state'', JStr ''running''), (''started'', JStr (rt_stamp rt)), (''error'', JNull)] fs"
          by (simp_all add: s1_def)
        have r: "submit_run rt (visitor_job_of name who params dd) s1 = (res, s')" using a ok Inr pf by (simp add: s1_def)
        show ?thesis
        proof (cases "free_slots s = 0 \<or> \<not> rt_submit_ok rt")
          case full: True
          then have "submit_visitor_run rt (visitor_job_of name who params dd) s1 = (False, s1)"
            by (auto simp: submit_visitor_run_def s1)
          then show ?thesis using r Refused c s1 by (auto simp: submit_run_def)
        next
          case False
          then have sub: "submit_visitor_run rt (visitor_job_of name who params dd) s1
              = (True, s1\<lparr>free_slots := free_slots s - 1, rs_active := rs_active s @ [visitor_job_of name who params dd]\<rparr>)"
            by (simp add: submit_visitor_run_def s1)
          show ?thesis
            by (rule Started [of p fs]) (use False r sub c s1 True Inr pf in \<open>auto simp: submit_run_def\<close>)
        qed
      qed
    qed
  qed
qed

lemma start_run_accepts:
  assumes "fst (claim (name, who) None (rt_now rt) (running s))" "rt_publish_ok rt" "free_slots s \<noteq> 0" "rt_submit_ok rt"
    and "publish_slot (st_os w) name [(''dataDir'', JStr (path_str dd))] who True (rs_fs s) = Inr (p, fs)"
  shows "fst (start_run w rt name who params dd r s) = Inr ()"
proof -
  obtain rs where c: "claim (name, who) None (rt_now rt) (running s) = (True, rs)"
    using assms(1) by (cases "claim (name, who) None (rt_now rt) (running s)") simp
  define s1 where "s1 = s\<lparr>running := rs, rs_fs := write_run_state rt dd
    [(''state'', JStr ''running''), (''started'', JStr (rt_stamp rt)), (''error'', JNull)] fs\<rparr>"
  have "start_run w rt name who params dd r s = submit_run rt (visitor_job_of name who params dd) s1"
    by (simp add: start_run_def recipe_timeout_def c Let_def assms(2,5) s1_def visitor_job_of_def)
  then show ?thesis using assms(3,4) by (simp add: submit_run_def submit_visitor_run_def s1_def)
qed

lemma start_run_accepted:
  assumes "fst (start_run w rt name who params dd r s) = Inr ()"
  shows "fst (claim (name, who) None (rt_now rt) (running s)) \<and> rt_publish_ok rt \<and> free_slots s \<noteq> 0 \<and> rt_submit_ok rt"
proof -
  obtain b rs where c: "claim (name, who) None (rt_now rt) (running s) = (b, rs)" by fastforce
  have "rt_publish_ok rt \<and> rt_submit_ok rt"
    using assms c by (cases b)
      (auto simp: start_run_def recipe_timeout_def Let_def submit_run_def submit_visitor_run_def split: if_splits sum.splits prod.splits)
  moreover obtain s' where "start_run w rt name who params dd r s = (Inr (), s')"
    using assms by (cases "start_run w rt name who params dd r s") simp
  then have "fst (claim (name, who) None (rt_now rt) (running s)) \<and> free_slots s \<noteq> 0" by (cases rule: start_run_cases) simp_all
  ultimately show ?thesis by blast
qed

lemma run_for_visitor_cases:
  assumes "run_for_visitor w entry_of fullmatch official d rt name body st s = (res, s')"
  obtains (Refused) e where "res = Inl e" "free_slots s' = free_slots s" "rs_active s' = rs_active s" "running s' = running s"
  | (Begun) who e reg r params dd s1 where "zone_of st = Some ''identity''" "slot_for st = Some (Some who)"
      "entry_of name = Some e" "entry_runnable e" "allows (Some e) (Some who)"
      "fst (fresh_registry (home_dir (st_os w)) official d (rs_registry s)) = Some reg" "find_recipe reg name None = Some r"
      "body_params body = Inr params" "validate_params fullmatch (rc_metadata r) params True = Inr ()"
      "user_data_dir (st_os w) who name = Inr dd"
      "s1 = s\<lparr>rs_registry := snd (fresh_registry (home_dir (st_os w)) official d (rs_registry s))\<rparr>"
      "start_run w rt name who params dd r s1 = (res, s')"
proof -
  consider "zone_of st = None" | z where "zone_of st = Some z" "z \<noteq> ''identity''" | "zone_of st = Some ''identity''"
    by (cases "zone_of st") auto
  then show ?thesis
  proof cases
    case 1
    then show ?thesis using assms Refused by (auto simp: run_for_visitor_def)
  next
    case 2
    then show ?thesis using assms Refused by (auto simp: run_for_visitor_def)
  next
    case 3
    then obtain idn where idn: "slot_for st = Some idn" by (auto simp: slot_for_def)
    note a = assms [unfolded run_for_visitor_def 3 idn option.case option.sel Let_def, simplified]
    show ?thesis
    proof (cases "\<exists>e who. entry_of name = Some e \<and> idn = Some who \<and> entry_runnable e \<and> allows (Some e) (Some who)")
      case False
      then have "res = Inl (HttpError 404 ''not available'')" "s' = s" using a by (auto split: option.splits if_splits)
      then show ?thesis using Refused by blast
    next
      case True
      then obtain e who where e: "entry_of name = Some e" "idn = Some who" "entry_runnable e" "allows (Some e) (Some who)" by blast
      obtain ro inst where f: "fresh_registry (home_dir (st_os w)) official d (rs_registry s) = (ro, inst)" by fastforce
      note a = a [unfolded e option.case f prod.case, simplified e, simplified]
      show ?thesis
      proof (cases ro)
        case None
        then show ?thesis using a Refused by auto
      next
        case (Some reg)
        note a = a [unfolded Some option.case]
        define s1 where "s1 = s\<lparr>rs_registry := inst\<rparr>"
        have no: ?thesis if "res = Inl err" "s' = s1" for err using that Refused by (auto simp: s1_def)
        note a = a [folded s1_def]
        show ?thesis
        proof (cases "find_recipe reg name None")
          case None
          then show ?thesis using a no by auto
        next
          case fr: (Some r)
          show ?thesis
          proof (cases "body_params body")
            case (Inl err)
            then show ?thesis using a fr no by auto
          next
            case bp: (Inr params)
            show ?thesis
            proof (cases "validate_params fullmatch (rc_metadata r) params True")
              case (Inl err)
              then show ?thesis using a fr bp no by (cases err) auto
            next
              case vp: (Inr u)
              show ?thesis
              proof (cases "user_data_dir (st_os w) who name")
                case (Inl err)
                then show ?thesis using a fr bp vp no by auto
              next
                case ud: (Inr dd)
                have st: "start_run w rt name who params dd r s1 = (res, s')" using a fr bp vp ud by simp
                show ?thesis
                  by (rule Begun [of who e reg r params dd s1]) (use e f 3 idn Some fr bp vp ud st in \<open>simp_all add: s1_def\<close>)
              qed
            qed
          qed
        qed
      qed
    qed
  qed
qed

lemma run_for_visitor_begins:
  assumes "zone_of st = Some ''identity''" "slot_for st = Some (Some who)"
    "entry_of name = Some e" "entry_runnable e" "allows (Some e) (Some who)"
    "fst (fresh_registry (home_dir (st_os w)) official d (rs_registry s)) = Some reg" "find_recipe reg name None = Some r"
    "body_params body = Inr params" "validate_params fullmatch (rc_metadata r) params True = Inr ()"
    "user_data_dir (st_os w) who name = Inr dd"
  shows "run_for_visitor w entry_of fullmatch official d rt name body st s =
    start_run w rt name who params dd r (s\<lparr>rs_registry := snd (fresh_registry (home_dir (st_os w)) official d (rs_registry s))\<rparr>)"
proof -
  obtain inst where "fresh_registry (home_dir (st_os w)) official d (rs_registry s) = (Some reg, inst)"
    using assms(6) by (cases "fresh_registry (home_dir (st_os w)) official d (rs_registry s)") simp
  then show ?thesis using assms by (simp add: run_for_visitor_def Let_def)
qed

text \<open>The claim is granted exactly if the account has no live claim at all, on this page or another.\<close>

lemma claim_granted:
  assumes "dict_ok r"
  shows "fst (claim key timeout t r) \<longleftrightarrow> (\<forall>k dl. dict_get r k = Some dl \<and> snd k = snd key \<longrightarrow> dl \<le> t)"
proof
  assume "fst (claim key timeout t r)"
  then have c: "\<not> account_at_limit (snd key) t key r" "\<And>held. dict_get r key = Some held \<Longrightarrow> \<not> t < held"
    by (auto simp: claim_def split: if_splits)
  show "\<forall>k dl. dict_get r k = Some dl \<and> snd k = snd key \<longrightarrow> dl \<le> t"
  proof (intro allI impI)
    fix k dl assume a: "dict_get r k = Some dl \<and> snd k = snd key"
    have "\<not> t < dl"
    proof (cases "k = key")
      case True
      then show ?thesis using a c(2) by blast
    next
      case False
      show ?thesis by (rule not_at_limit [OF c(1) conjunct1 [OF a] False conjunct2 [OF a]])
    qed
    then show "dl \<le> t" by simp
  qed
next
  assume a: "\<forall>k dl. dict_get r k = Some dl \<and> snd k = snd key \<longrightarrow> dl \<le> t"
  have "\<not> (t < dl)" if "(k, dl) \<in> set r" "snd k = snd key" for k dl
  proof -
    have "dict_get r k = Some dl" using that(1) assms by (simp add: dict_get_in)
    then show ?thesis using a that(2) by (meson not_less)
  qed
  then have "filter (\<lambda>(other, deadline). other \<noteq> key \<and> snd other = snd key \<and> t < deadline) r = []"
    unfolding filter_empty_conv by blast
  then have "\<not> account_at_limit (snd key) t key r" by (simp add: account_at_limit_def MAX_RUNS_PER_ACCOUNT_def)
  moreover have "\<not> (case dict_get r key of Some held \<Rightarrow> t < held | None \<Rightarrow> False)"
    using a [rule_format, of key] by (cases "dict_get r key") (simp_all add: not_less)
  ultimately show "fst (claim key timeout t r)" by (simp add: claim_def)
qed

lemma publish_slot_owner:
  assumes "current_ctx (expanduser os) (environ os) = Inr OWNER_CONTEXT" "valid_value name" "valid_value slot"
  shows "\<exists>p fs'. publish_slot os name state slot identity fs = Inr (p, fs')"
proof -
  obtain p where "slot_path os name slot identity = Inr p" using slot_path_total [OF assms(2,3)] by blast
  then show ?thesis using assms(1) by (simp add: publish_slot_def OWNER_CONTEXT_def is_visitor_ctx_def Let_def)
qed

subsection \<open>Interleavings\<close>

text \<open>Requests and endings of runs in any order, by a clock that does not run backwards; between them
  anybody may change the disk. The list of pages may be another one at every request.\<close>

inductive run_reach :: "site \<Rightarrow> (string \<Rightarrow> string \<Rightarrow> bool option) \<Rightarrow> path option \<Rightarrow> rat \<Rightarrow> run_state \<Rightarrow> bool"
  for w :: site and fullmatch :: "string \<Rightarrow> string \<Rightarrow> bool option" and official :: "path option" where
  start: "run_reach w fullmatch official t
     \<lparr>running = [], free_slots = MAX_VISITOR_WORKERS, rs_active = [], rs_registry = None, rs_fs = fs\<rparr>"
| request: "run_reach w fullmatch official t s \<Longrightarrow> t \<le> rt_now rt \<Longrightarrow>
     run_reach w fullmatch official (rt_now rt)
       (snd (run_for_visitor w (published_entry es) fullmatch official d rt name body st s))"
| finish: "run_reach w fullmatch official t s \<Longrightarrow> t \<le> rt_now rt \<Longrightarrow> job \<in> set (rs_active s) \<Longrightarrow>
     run_reach w fullmatch official (rt_now rt) (finish_run rt job failed s)"
| elsewhere: "run_reach w fullmatch official t s \<Longrightarrow> run_reach w fullmatch official t (s\<lparr>rs_fs := fs\<rparr>)"

text \<open>A run on a visitor's behalf: started with their context, in their own directory.\<close>

definition job_ok :: "site \<Rightarrow> visitor_job \<Rightarrow> bool" where
  "job_ok w j \<longleftrightarrow> (\<exists>who. vj_ctx j = \<lparr>ic_caller = VISITOR, ic_slot = Some who, ic_data_dir = Some (vj_dir j)\<rparr>
     \<and> user_data_dir (st_os w) who (vj_name j) = Inr (vj_dir j))"

definition runs_ok :: "site \<Rightarrow> rat \<Rightarrow> run_state \<Rightarrow> bool" where
  "runs_ok w t s \<longleftrightarrow> claims_ok t (running s) \<and> free_slots s + length (rs_active s) = MAX_VISITOR_WORKERS
     \<and> (\<forall>j \<in> set (rs_active s). job_ok w j)"

lemma job_ok_of: "user_data_dir (st_os w) who name = Inr dd \<Longrightarrow> job_ok w (visitor_job_of name who params dd)"
  by (simp add: job_ok_def visitor_job_of_def)

lemma runs_ok_request:
  assumes "runs_ok w t s" "t \<le> rt_now rt"
  shows "runs_ok w (rt_now rt) (snd (run_for_visitor w entry_of fullmatch official d rt name body st s))"
proof -
  obtain res s' where r: "run_for_visitor w entry_of fullmatch official d rt name body st s = (res, s')" by fastforce
  have c: "claims_ok (rt_now rt) (running s)" using assms claims_ok_later by (auto simp: runs_ok_def)
  have "runs_ok w (rt_now rt) s'" using r
  proof (cases rule: run_for_visitor_cases)
    case (Refused e)
    then show ?thesis using assms(1) c by (simp add: runs_ok_def)
  next
    case (Begun who e reg r params dd s1)
    have s1: "running s1 = running s" "free_slots s1 = free_slots s" "rs_active s1 = rs_active s" by (simp_all add: Begun(11))
    show ?thesis using Begun(12)
    proof (cases rule: start_run_cases)
      case (Refused e)
      have "claims_ok (rt_now rt) (running s')"
        using Refused(4) c claims_ok_release [OF claims_ok_claim [OF c]] by (auto simp: s1)
      then show ?thesis using Refused assms(1) by (simp add: runs_ok_def s1)
    next
      case (Started p fs)
      have "claims_ok (rt_now rt) (running s')" using Started(3) claims_ok_claim [OF c] by (simp add: s1)
      then show ?thesis using Started assms(1) job_ok_of [OF Begun(10)] by (auto simp: runs_ok_def s1)
    qed
  qed
  then show ?thesis using r by simp
qed

lemma runs_ok_finish:
  assumes "runs_ok w t s" "t \<le> rt_now rt" "job \<in> set (rs_active s)"
  shows "runs_ok w (rt_now rt) (finish_run rt job failed s)"
proof -
  have "claims_ok (rt_now rt) (release (job_key job) (running s))"
    by (rule claims_ok_release, rule claims_ok_later [OF _ assms(2)]) (use assms(1) in \<open>simp add: runs_ok_def\<close>)
  moreover have "Suc (length (remove1 job (rs_active s))) = length (rs_active s)"
    using length_pos_if_in_set [OF assms(3)] unfolding length_remove1 by (simp add: assms(3))
  moreover have "\<forall>j \<in> set (remove1 job (rs_active s)). job_ok w j" using assms(1) by (auto simp: runs_ok_def dest: notin_set_remove1)
  ultimately show ?thesis using assms(1) by (simp add: runs_ok_def finish_run_def)
qed

lemma runs_ok_reach: "run_reach w fullmatch official t s \<Longrightarrow> runs_ok w t s"
proof (induction rule: run_reach.induct)
  case (request t s rt es d name body st)
  then show ?case using runs_ok_request by blast
next
  case (finish t s rt job failed)
  then show ?case using runs_ok_finish by blast
qed (simp_all add: runs_ok_def)

subsection \<open>Properties\<close>

text \<open>C5: the share of a visitor, under any interleaving. At most two visitor runs are in progress at any
  time, and the free slots are exactly the others; every one of them runs in the visitor context of one
  account, in that account's own data directory; and no account holds two claims whose deadline has not
  passed.\<close>

theorem visitor_share:
  assumes "run_reach w fullmatch official t s"
  shows "length (rs_active s) \<le> 2 \<and> free_slots s = 2 - length (rs_active s)
    \<and> (\<forall>j \<in> set (rs_active s). \<exists>who. ic_caller (vj_ctx j) = VISITOR \<and> ic_slot (vj_ctx j) = Some who
         \<and> ic_data_dir (vj_ctx j) = Some (user_state_dir (st_os w) @ [who, ''data'', vj_name j]))
    \<and> (\<forall>k k' dl dl'. dict_get (running s) k = Some dl \<and> dict_get (running s) k' = Some dl'
         \<and> snd k = snd k' \<and> t < dl \<and> t < dl' \<longrightarrow> k = k')"
proof -
  have ok: "runs_ok w t s" by (rule runs_ok_reach [OF assms])
  then have "\<forall>j \<in> set (rs_active s). \<exists>who. ic_caller (vj_ctx j) = VISITOR \<and> ic_slot (vj_ctx j) = Some who
         \<and> ic_data_dir (vj_ctx j) = Some (user_state_dir (st_os w) @ [who, ''data'', vj_name j])"
    by (auto simp: runs_ok_def job_ok_def user_data_dir_Inr)
  moreover have "length (rs_active s) \<le> 2 \<and> free_slots s = 2 - length (rs_active s)"
    using ok by (auto simp: runs_ok_def MAX_VISITOR_WORKERS_def)
  moreover have "claims_ok t (running s)" using ok by (simp add: runs_ok_def)
  ultimately show ?thesis unfolding claims_ok_def by blast
qed

text \<open>A visitor starts a run.\<close>

definition demo_rt :: "rat \<Rightarrow> run_tick" where
  "demo_rt t = \<lparr>rt_now = t, rt_stamp = ''2026-08-20T12:00:00'', rt_publish_ok = True, rt_state_ok = True, rt_submit_ok = True\<rparr>"

definition demo_runs :: run_state where
  "demo_runs = \<lparr>running = [], free_slots = MAX_VISITOR_WORKERS, rs_active = [], rs_registry = None,
     rs_fs = \<lparr>fs_files = [], fs_dirs = []\<rparr>\<rparr>"

definition demo_body :: request_body where
  "demo_body = Body (JObj [(''params'', JObj [(''days'', JNum 7)])])"

definition demo_request :: "rat \<Rightarrow> run_state \<Rightarrow> (http_error + unit) \<times> run_state" where
  "demo_request t = run_for_visitor demo_site (published_entry demo_list) (\<lambda>p s. None) None demo_desk_disk (demo_rt t)
     ''desk'' demo_body (Some (admit ''identity'' (Some ''ada'') (Some ''ada'')))"

lemma demo_request_reach:
  "run_reach demo_site (\<lambda>p s. None) None t s \<Longrightarrow> t \<le> t' \<Longrightarrow> run_reach demo_site (\<lambda>p s. None) None t' (snd (demo_request t' s))"
  using run_reach.request [of demo_site "\<lambda>p s. None" None t s "demo_rt t'"] by (simp add: demo_request_def demo_rt_def)

lemma demo_guards:
  "zone_of (Some (admit ''identity'' (Some ''ada'') (Some ''ada''))) = Some ''identity''"
  "slot_for (Some (admit ''identity'' (Some ''ada'') (Some ''ada''))) = Some (Some ''ada'')"
  "\<exists>e. published_entry demo_list ''desk'' = Some e \<and> entry_runnable e \<and> allows (Some e) (Some ''ada'')"
  "body_params demo_body = Inr [(''days'', JNum 7)]"
  "current_ctx (expanduser (st_os demo_site)) (environ (st_os demo_site)) = Inr OWNER_CONTEXT"
  "valid_value ''ada''" "valid_value ''desk''"
proof -
  have "case published_entry demo_list ''desk'' of Some e \<Rightarrow> entry_runnable e \<and> allows (Some e) (Some ''ada'') | None \<Rightarrow> False" by code_simp
  then show "\<exists>e. published_entry demo_list ''desk'' = Some e \<and> entry_runnable e \<and> allows (Some e) (Some ''ada'')"
    by (auto split: option.splits)
qed (code_simp, code_simp, code_simp, code_simp, code_simp, code_simp)


text \<open>The example request is accepted from every state with a free slot and no live claim.\<close>

definition demo_reg_after :: "registry option \<Rightarrow> registry option \<times> registry option" where
  "demo_reg_after inst = fresh_registry (home_dir (st_os demo_site)) None demo_desk_disk inst"

lemma demo_accepts:
  assumes "case demo_reg_after (rs_registry s) of
      (Some reg, inst) \<Rightarrow> (case find_recipe reg ''desk'' None of
         Some r \<Rightarrow> validate_params (\<lambda>p s. None) (rc_metadata r) [(''days'', JNum 7)] True = Inr () | None \<Rightarrow> False)
    | (None, inst) \<Rightarrow> False"
    and "fst (claim (''desk'', ''ada'') None t (running s))" "free_slots s \<noteq> 0"
  obtains s' where "demo_request t s = (Inr (), s')" "rs_registry s' = snd (demo_reg_after (rs_registry s))"
    "running s' = snd (claim (''desk'', ''ada'') None t (running s))" "free_slots s' = free_slots s - 1"
    "map job_key (rs_active s') = map job_key (rs_active s) @ [(''desk'', ''ada'')]"
proof -
  obtain reg inst r where r: "fresh_registry (home_dir (st_os demo_site)) None demo_desk_disk (rs_registry s) = (Some reg, inst)"
     "find_recipe reg ''desk'' None = Some r" "validate_params (\<lambda>p s. None) (rc_metadata r) [(''days'', JNum 7)] True = Inr ()"
    using assms(1) by (auto simp: demo_reg_after_def split: prod.splits option.splits)
  obtain e where e: "published_entry demo_list ''desk'' = Some e" "entry_runnable e" "allows (Some e) (Some ''ada'')"
    using demo_guards(3) by blast
  let ?dd = "user_state_dir (st_os demo_site) @ [''ada'', ''data'', ''desk'']"
  have dd: "user_data_dir (st_os demo_site) ''ada'' ''desk'' = Inr ?dd" using demo_guards(6,7) by (simp add: user_data_dir_Inr)
  have f: "fst (fresh_registry (home_dir (st_os demo_site)) None demo_desk_disk (rs_registry s)) = Some reg"
    using r(1) by simp
  note eq = run_for_visitor_begins [where entry_of = "published_entry demo_list" and rt = "demo_rt t", OF demo_guards(1,2) e f r(2) demo_guards(4) r(3) dd]
  obtain p fs' where pb: "publish_slot (st_os demo_site) ''desk'' [(''dataDir'', JStr (path_str ?dd))]
      ''ada'' True (rs_fs s) = Inr (p, fs')" using publish_slot_owner [OF demo_guards(5,7,6)] by blast
  let ?s1 = "s\<lparr>rs_registry := snd (fresh_registry (home_dir (st_os demo_site)) None demo_desk_disk (rs_registry s))\<rparr>"
  have ok: "fst (start_run demo_site (demo_rt t) ''desk'' ''ada'' [(''days'', JNum 7)] ?dd r ?s1) = Inr ()"
    by (rule start_run_accepts [where p = p and fs = fs']) (use pb assms(2,3) in \<open>simp_all add: demo_rt_def\<close>)
  obtain s' where s': "start_run demo_site (demo_rt t) ''desk'' ''ada'' [(''days'', JNum 7)] ?dd r ?s1 = (Inr (), s')"
    using ok by (cases "start_run demo_site (demo_rt t) ''desk'' ''ada'' [(''days'', JNum 7)] ?dd r ?s1") simp
  have q: "demo_request t s = (Inr (), s')" unfolding demo_request_def eq by (rule s')
  have n: "rt_now (demo_rt t) = t" by (simp add: demo_rt_def)
  from s' show ?thesis
    by (cases rule: start_run_cases) (use that [OF q] in \<open>simp_all add: n demo_reg_after_def\<close>)
qed

lemma demo_registry_first:
  "case demo_reg_after None of
      (Some reg, inst) \<Rightarrow> (case find_recipe reg ''desk'' None of
         Some r \<Rightarrow> validate_params (\<lambda>p s. None) (rc_metadata r) [(''days'', JNum 7)] True = Inr () | None \<Rightarrow> False)
    | (None, inst) \<Rightarrow> False"
  by code_simp

lemma demo_first:
  obtains s' where "demo_request 0 demo_runs = (Inr (), s')" "rs_registry s' = snd (demo_reg_after None)"
    "running s' = [((''desk'', ''ada''), 660)]" "free_slots s' = 1" "map job_key (rs_active s') = [(''desk'', ''ada'')]"
proof -
  have f: "rs_registry demo_runs = None" "running demo_runs = []" "free_slots demo_runs = 2" "rs_active demo_runs = []"
    by (simp_all add: demo_runs_def MAX_VISITOR_WORKERS_def)
  have c: "claim (''desk'', ''ada'') None 0 [] = (True, [((''desk'', ''ada''), 660)])"
    by (simp add: f claim_def account_at_limit_def MAX_RUNS_PER_ACCOUNT_def gate_ttl_def)
  show ?thesis
    by (rule demo_accepts [of demo_runs 0]) (use that demo_registry_first in \<open>simp_all add: c f\<close>)
qed


lemma demo_one_run: "length (rs_active (snd (demo_request 0 demo_runs))) = 1"
proof -
  obtain s' where "demo_request 0 demo_runs = (Inr (), s')" "map job_key (rs_active s') = [(''desk'', ''ada'')]" by (rule demo_first)
  then show ?thesis by (metis One_nat_def length_Cons length_map list.size(3) snd_conv)
qed

theorem visitor_share_witness:
  "length (rs_active (snd (demo_request 0 demo_runs))) = 1 \<and> free_slots (snd (demo_request 0 demo_runs)) = 1"
proof -
  have "run_reach demo_site (\<lambda>p s. None) None 0 (snd (demo_request 0 demo_runs))"
    by (rule demo_request_reach [of 0]) (simp_all add: demo_runs_def run_reach.start)
  from visitor_share [OF this] demo_one_run show ?thesis by simp
qed

text \<open>No recipe declares a timeout, so a visitor's run has no time limit, while its claim lapses after 660
  seconds. A run that takes longer lets its account start another one, and the two take every slot of
  the pool.\<close>

theorem overlong_run_frees_its_claim:
  "\<exists>s. run_reach demo_site (\<lambda>p s. None) None 660 s
     \<and> map job_key (rs_active s) = [(''desk'', ''ada''), (''desk'', ''ada'')] \<and> free_slots s = 0"
proof -
  obtain s1 where s1: "demo_request 0 demo_runs = (Inr (), s1)" "rs_registry s1 = snd (demo_reg_after None)"
    "running s1 = [((''desk'', ''ada''), 660)]" "free_slots s1 = 1" "map job_key (rs_active s1) = [(''desk'', ''ada'')]"
    by (rule demo_first)
  have g: "case demo_reg_after (snd (demo_reg_after None)) of
      (Some reg, inst) \<Rightarrow> (case find_recipe reg ''desk'' None of
         Some r \<Rightarrow> validate_params (\<lambda>p s. None) (rc_metadata r) [(''days'', JNum 7)] True = Inr () | None \<Rightarrow> False)
    | (None, inst) \<Rightarrow> False" by code_simp
  have c: "fst (claim (''desk'', ''ada'') None 660 (running s1))"
    by (simp add: s1 claim_def account_at_limit_def MAX_RUNS_PER_ACCOUNT_def)
  obtain s2 where s2: "demo_request 660 s1 = (Inr (), s2)" "free_slots s2 = free_slots s1 - 1"
    "map job_key (rs_active s2) = map job_key (rs_active s1) @ [(''desk'', ''ada'')]"
    by (rule demo_accepts [of s1 660]) (use g c s1 in \<open>simp_all\<close>)
  have "run_reach demo_site (\<lambda>p s. None) None 0 s1"
    using demo_request_reach [of 0 demo_runs 0] s1(1) by (simp add: demo_runs_def run_reach.start)
  then have "run_reach demo_site (\<lambda>p s. None) None 660 s2"
    using demo_request_reach [of 0 s1 660] s2(1) by simp
  then show ?thesis using s2 s1 by (intro exI [of _ s2]) simp
qed

end
