(* ===== verification/Auth_Routes.thy ===== *)
theory Auth_Routes
  imports Visitor_Runs
begin

text \<open>
  \<open>server/routes/auth.py\<close>: signing in and out, changing a password, and what a signed-in person may open.
  The routes read the decision of the gate (\<open>identity_of\<close>); the parser of the framework behind
  \<open>request.cookies\<close>, which \<open>logout\<close> consults, is the input \<open>rq_cookie\<close>.
\<close>

subsection \<open>Requests and answers\<close>

text \<open>A request as these routes read it: its scope, the scheme of its URL, the length of its body and the
  decoded body (None when it is not JSON), and the session cookie as the framework parses it.\<close>

record auth_request =
  rq_scope :: scope
  rq_scheme :: string
  rq_length :: nat
  rq_json :: "json option"
  rq_cookie :: "string option"

text \<open>\<open>request.headers.get\<close>: the first header of that name; missing reads as empty here, as in every use.\<close>

definition req_header :: "auth_request \<Rightarrow> string \<Rightarrow> string" where
  "req_header rq n = (case find (\<lambda>(k, v). bytes_lower k = n) (sc_headers (rq_scope rq)) of Some (k, v) \<Rightarrow> v | None \<Rightarrow> [])"

datatype cookie_action =
    NoCookie
  | IssueCookie (cookie_value: string) (cookie_max_age: nat) (cookie_secure: bool)
  | DeleteCookie

datatype auth_response =
    AuthFail nat string string
  | AuthOk "(string, json) dict" cookie_action
  | AuthRaised id_error

definition STATUS_FOR :: "(string, nat) dict" where
  "STATUS_FOR = [(''invalid_email'', 400), (''weak_password'', 400), (''bad_credentials'', 401), (''rate_limited'', 429),
     (''gate_required'', 403), (''account_limit'', 503), (''no_such_user'', 401), (''session_failed'', 503)]"

definition fail_identity :: "id_error \<Rightarrow> auth_response" where
  "fail_identity e =
     (case e of
        IdentityError why msg \<Rightarrow> AuthFail (case dict_get STATUS_FOR why of Some c \<Rightarrow> c | None \<Rightarrow> 400) why msg
      | _ \<Rightarrow> AuthRaised e)"

definition json_body :: "auth_request \<Rightarrow> auth_response + (string, json) dict" where
  "json_body rq =
     (let content_type = lower (strip (hd (split_on CHR '';'' (req_header rq ''content-type''))))
      in if content_type \<noteq> ''application/json''
         then Inl (AuthFail 415 ''unsupported_media_type'' ''send this as application/json'')
         else if rq_length rq > 64 * 1024
         then Inl (AuthFail 413 ''too_large'' ''that body is too large for a login'')
         else (case (if rq_length rq = 0 then Some (JObj []) else rq_json rq) of
                 None \<Rightarrow> Inl (AuthFail 400 ''bad_request'' ''that body is not valid JSON'')
               | Some (JObj d) \<Rightarrow> Inr d
               | Some _ \<Rightarrow> Inl (AuthFail 400 ''bad_request'' ''expected a JSON object'')))"

text \<open>\<open>s.rstrip("/")\<close>.\<close>

definition rstrip_slash :: "string \<Rightarrow> string" where
  "rstrip_slash s = rev (dropWhile (\<lambda>c. c = CHR ''/'') (rev s))"

definition origin_is_foreign :: "site \<Rightarrow> auth_request \<Rightarrow> bool" where
  "origin_is_foreign w rq =
     (let origin = strip (req_header rq ''origin''); host = strip (req_header rq ''host'')
      in if origin = [] then False
         else if host = [] then True
         else let scheme = lower (if rq_scheme rq = [] then ''http'' else rq_scheme rq);
                  allowed = [scheme @ ''://'' @ host] @ (if public_https w then [''https://'' @ host] else [])
              in rstrip_slash (lower origin) \<notin> set allowed)"

definition issue_cookie :: "site \<Rightarrow> auth_request \<Rightarrow> string \<Rightarrow> cookie_action" where
  "issue_cookie w rq token = IssueCookie token (session_ttl w) (cookie_is_secure w (Some (rq_scheme rq)))"

definition identity_payload :: "site \<Rightarrow> string \<Rightarrow> id_state \<Rightarrow> (string, json) dict \<times> id_state" where
  "identity_payload w uid s =
     (case find_user_by_id w uid s of
        (u, s') \<Rightarrow> ([(''identity'', JStr uid), (''email'', JStr (case u of Some x \<Rightarrow> u_email x | None \<Rightarrow> [])),
                    (''emailVerified'', JBool False)], s'))"

text \<open>\<open>str(gate) if gate is not None else None\<close>.\<close>

definition gate_field :: "site \<Rightarrow> (string, json) dict \<Rightarrow> string option" where
  "gate_field w d = (case dict_get d ''gate'' of None \<Rightarrow> None | Some JNull \<Rightarrow> None | Some j \<Rightarrow> Some (py_str w j))"

subsection \<open>The routes\<close>

definition with_session :: "site \<Rightarrow> tick \<Rightarrow> string \<Rightarrow> id_state \<Rightarrow> (id_error + string) \<times> id_state" where
  "with_session w t uid s = (case create_session w t uid (sess s) of (r, ss) \<Rightarrow> (r, s\<lparr>sess := ss\<rparr>))"

definition login :: "site \<Rightarrow> tick \<Rightarrow> auth_request \<Rightarrow> id_state \<Rightarrow> auth_response \<times> id_state" where
  "login w t rq s =
     (case json_body rq of
        Inl refusal \<Rightarrow> (refusal, s)
      | Inr body \<Rightarrow>
          if origin_is_foreign w rq then (AuthFail 403 ''cross_origin'' ''cross-origin logins are refused'', s)
          else let address = client_ip w (sc_client (rq_scope rq));
                   (ok, l) = allow_login address (mono t) (lims s);
                   s1 = s\<lparr>lims := l\<rparr>
               in if \<not> ok then (AuthFail 429 ''rate_limited'' ''too many login attempts; wait a while'', s1)
                  else if public_https w \<and> lower (rq_scheme rq) \<notin> {''https'', ''wss''}
                  then (AuthFail 403 ''https_required'' ''this server is declared HTTPS; it will not issue a session over plain HTTP'', s1)
                  else (case authenticate w t address (rec_str w body ''email'') (rec_str w body ''password'') (gate_field w body) s1 of
                          (Inl e, s2) \<Rightarrow> (fail_identity e, s2)
                        | (Inr (u, created), s2) \<Rightarrow>
                            (case with_session w t (u_id u) s2 of
                               (Inl e, s3) \<Rightarrow> (fail_identity e, s3)
                             | (Inr token, s3) \<Rightarrow>
                                 (let (payload, s4) = identity_payload w (u_id u) s3
                                  in (AuthOk (dict_set ''created'' (JBool created) payload) (issue_cookie w rq token), s4)))))"

definition logout :: "site \<Rightarrow> auth_request \<Rightarrow> gate_state option \<Rightarrow> id_state \<Rightarrow> auth_response \<times> id_state" where
  "logout w rq st s =
     (case json_body rq of
        Inl refusal \<Rightarrow> (refusal, s)
      | Inr _ \<Rightarrow>
          (case identity_of st of
             None \<Rightarrow> (AuthFail 401 ''not_signed_in'' ''no session to end'', s)
           | Some who \<Rightarrow>
               (let ss = (case rq_cookie rq of
                            Some token \<Rightarrow> if token \<noteq> [] then snd (revoke_session w token (sess s)) else sess s
                          | None \<Rightarrow> sess s)
                in (AuthOk [(''ok'', JBool True)] DeleteCookie, s\<lparr>sess := ss\<rparr>))))"

definition change_password ::
    "site \<Rightarrow> tick \<Rightarrow> auth_request \<Rightarrow> gate_state option \<Rightarrow> id_state \<Rightarrow> auth_response \<times> id_state" where
  "change_password w t rq st s =
     (case json_body rq of
        Inl refusal \<Rightarrow> (refusal, s)
      | Inr body \<Rightarrow>
          (case identity_of st of
             None \<Rightarrow> (AuthFail 401 ''not_signed_in'' ''sign in first'', s)
           | Some who \<Rightarrow>
               (let (ok, s1) = verify_user_password w who (rec_str w body ''current_password'') s
                in if \<not> ok then (AuthFail 401 ''bad_credentials'' ''your current password is wrong'', s1)
                   else (case set_password w t who (rec_str w body ''new_password'') True s1 of
                           (Inl e, s2) \<Rightarrow> (fail_identity e, s2)
                         | (Inr _, s2) \<Rightarrow>
                             (case with_session w t who s2 of
                                (Inl e, s3) \<Rightarrow> (fail_identity e, s3)
                              | (Inr token, s3) \<Rightarrow>
                                  (let (payload, s4) = identity_payload w who s3
                                   in (AuthOk payload (issue_cookie w rq token), s4)))))))"

definition whoami :: "site \<Rightarrow> gate_state option \<Rightarrow> id_state \<Rightarrow> auth_response \<times> id_state" where
  "whoami w st s =
     (case identity_of st of
        None \<Rightarrow> (AuthFail 401 ''not_signed_in'' ''no session'', s)
      | Some who \<Rightarrow> (let (payload, s') = identity_payload w who s in (AuthOk payload NoCookie, s')))"

definition page_title :: "(string \<Rightarrow> recipe option) \<Rightarrow> string \<Rightarrow> string" where
  "page_title find_of name =
     (case find_of name of
        None \<Rightarrow> name
      | Some r \<Rightarrow>
          (let d = rm_description (rc_metadata r); title = strip (if d \<noteq> [] then d else name)
           in if title \<noteq> [] then title else name))"

definition reachable_pages ::
    "entries \<Rightarrow> (string \<Rightarrow> recipe option) \<Rightarrow> gate_state option \<Rightarrow> auth_response" where
  "reachable_pages es find_of st =
     (case identity_of st of
        None \<Rightarrow> AuthFail 401 ''not_signed_in'' ''no session''
      | Some who \<Rightarrow>
          AuthOk [(''pages'', JList (List.map_filter
            (\<lambda>name. case published_entry es name of
               None \<Rightarrow> None
             | Some e \<Rightarrow>
                 if \<not> allows (Some e) (Some who) then None
                 else Some (JObj [(''recipe'', JStr name), (''title'', JStr (page_title find_of name)),
                        (''runnable'', JBool (entry_runnable e)), (''path'', JStr (''/app/'' @ name @ ''/''))]))
            (sort (map fst es))))] NoCookie)"

subsection \<open>What the routes do to the sessions\<close>

text \<open>Every session of the second table is in the first.\<close>

definition sessions_within :: "sessions \<Rightarrow> sessions \<Rightarrow> bool" where
  "sessions_within ss ss' \<longleftrightarrow> (\<forall>sid d. read_session ss' sid = Some d \<longrightarrow> read_session ss sid = Some d)"

lemma sessions_within_refl [simp]: "sessions_within ss ss"
  by (simp add: sessions_within_def)

lemma sessions_within_trans: "sessions_within a b \<Longrightarrow> sessions_within b c \<Longrightarrow> sessions_within a c"
  by (auto simp: sessions_within_def)

lemma sessions_within_filter:
  assumes "dict_ok ss"
  shows "sessions_within ss (filter Q ss)"
proof -
  have "dict_get (filter Q ss) sid = Some f \<Longrightarrow> dict_get ss sid = Some f" for sid f
    using assms by (auto simp: dict_get_in)
  then show ?thesis unfolding sessions_within_def read_session_def by (auto split: option.splits)
qed

lemma read_before_issue:
  assumes "dict_ok ss"
  shows "sessions_within ss (enforce_session_caps w who (snd (purge_expired_sessions w t ss)))"
proof -
  obtain Q where "enforce_session_caps w who (snd (purge_expired_sessions w t ss)) = filter Q (snd (purge_expired_sessions w t ss))"
    using enforce_session_caps_filter by blast
  moreover have "sessions_within ss (snd (purge_expired_sessions w t ss))"
    unfolding purge_expired_sessions_def by (simp add: sessions_within_filter assms Let_def)
  ultimately show ?thesis
    using sessions_within_trans sessions_within_filter [OF purge_ok [OF assms]] by metis
qed

lemma with_session_Inr:
  assumes "with_session w t who s = (Inr tok, s')" "dict_ok (sess s)"
  shows "s' = s\<lparr>sess := sess s'\<rparr>" "read_session (sess s') (sid_of w tok) = Some (session_record w t who)" "tok \<in> set (new_tokens t)"
    "sid \<noteq> sid_of w tok \<Longrightarrow> read_session (sess s') sid = Some d \<Longrightarrow> read_session (sess s) sid = Some d"
proof -
  have c: "create_session w t who (sess s) = (Inr tok, sess s')" and s': "s' = s\<lparr>sess := sess s'\<rparr>"
    using assms(1) by (auto simp: with_session_def split: prod.splits)
  obtain ss2 where ss2: "ss2 = enforce_session_caps w who (snd (purge_expired_sessions w t (sess s)))" "tok \<in> set (new_tokens t)"
    "sess s' = dict_set (sid_of w tok) \<lparr>sf_text = Parsed (JObj (session_record w t who)), sf_mtime = wall t\<rparr> ss2"
    by (rule create_session_parts [OF c]) blast
  show "s' = s\<lparr>sess := sess s'\<rparr>" "tok \<in> set (new_tokens t)" by (fact s', fact ss2(2))
  show "read_session (sess s') (sid_of w tok) = Some (session_record w t who)" by (simp add: ss2(3) read_session_def)
  assume "sid \<noteq> sid_of w tok" "read_session (sess s') sid = Some d"
  then have "read_session ss2 sid = Some d" by (simp add: ss2(3) read_session_def)
  then show "read_session (sess s) sid = Some d"
    using read_before_issue [OF assms(2)] by (simp add: ss2(1) sessions_within_def)
qed

lemma link_session_Inl: "link_session w t d tokens ss = (Inl e, ss') \<Longrightarrow> ss' = ss"
  by (induction tokens) (auto split: if_splits)

lemma with_session_Inl:
  assumes "with_session w t who s = (Inl e, s')" "dict_ok (sess s)"
  shows "sessions_within (sess s) (sess s')"
proof -
  have "create_session w t who (sess s) = (Inl e, sess s')" using assms(1) by (auto simp: with_session_def split: prod.splits)
  then have "sess s' = enforce_session_caps w who (snd (purge_expired_sessions w t (sess s)))"
    unfolding create_session_def Let_def by (rule link_session_Inl)
  then show ?thesis using read_before_issue [OF assms(2)] by simp
qed

lemma link_session_free:
  "\<exists>token \<in> set tokens. dict_get ss (sid_of w token) = None \<Longrightarrow> \<exists>tok ss'. link_session w t d tokens ss = (Inr tok, ss')"
  by (induction tokens) auto

lemma with_session_free:
  assumes "token \<in> set (take 4 (new_tokens t))" "dict_get (sess s) (sid_of w token) = None"
  shows "\<exists>tok s'. with_session w t who s = (Inr tok, s')"
proof -
  obtain Q where Q: "enforce_session_caps w who (snd (purge_expired_sessions w t (sess s))) = filter Q (sess s)"
    using enforce_session_caps_filter [of w who "snd (purge_expired_sessions w t (sess s))"]
    by (auto simp: purge_expired_sessions_def)
  have "dict_get (filter Q (sess s)) (sid_of w token) = None"
    using assms(2) by (auto simp: map_of_eq_None_iff)
  then obtain tok ss' where "create_session w t who (sess s) = (Inr tok, ss')"
    using link_session_free [of "take 4 (new_tokens t)" "filter Q (sess s)" w t] assms(1)
    unfolding create_session_def Let_def Q by blast
  then show ?thesis by (simp add: with_session_def)
qed

lemma create_user_sess:
  assumes "accounts_ok w s"
  shows "sessions_within (sess s) (sess (snd (create_user w t email pw s)))"
proof -
  have ok: "dict_ok (users s)" "ids_match w (users s)" "dict_ok (sess s)"
    using assms by (simp_all add: accounts_ok_def table_ok_def sessions_ok_def)
  obtain r s' where c: "create_user w t email pw s = (r, s')" by fastforce
  show ?thesis
  proof (cases r)
    case (Inl e)
    then show ?thesis using c create_user_Inl by fastforce
  next
    case (Inr u)
    with c have c: "create_user w t email pw s = (Inr u, s')" by simp
    from c ok(1,2) show ?thesis
      by (cases rule: create_user_Inr) (use c ok(3) in \<open>simp_all add: sessions_within_filter\<close>)
  qed
qed

lemma set_password_sess:
  "sess (snd (set_password w t uid pw False s)) = sess s"
proof -
  obtain r s' where c: "set_password w t uid pw False s = (r, s')" by fastforce
  show ?thesis
  proof (cases r)
    case (Inl e)
    then show ?thesis using c set_password_Inl by fastforce
  next
    case (Inr u)
    with c have c: "set_password w t uid pw False s = (Inr u, s')" by simp
    have "sess s' = sess s" by (rule set_password_Inr [OF c]) simp
    then show ?thesis using c by simp
  qed
qed

lemma authenticate_sess:
  assumes "accounts_ok w s"
  shows "sessions_within (sess s) (sess (snd (authenticate w t ip email pw gate s)))"
proof -
  have c: "coherent w s" using assms by (simp add: accounts_ok_def)
  then obtain s1 where l: "loaded w s = (users s, s1)" "sess s1 = sess s" using loadedE by metis
  then have s1: "accounts_ok w s1" using keeps_loaded [OF assms] by simp
  show ?thesis
  proof (cases "dict_get (users s) (derive_id (st_crypto w) email)")
    case None
    let ?s2 = "s1\<lparr>lims := snd (allow_signup ip (mono t) (lims s1))\<rparr>"
    have "sessions_within (sess s) (sess (snd (create_user w t email pw ?s2)))"
      using create_user_sess [of w ?s2 t email pw] s1 l(2) by simp
    then show ?thesis
      using l(2) by (auto simp: authenticate_def l(1) None Let_def case_prod_unfold split: option.splits sum.splits)
  next
    case (Some r)
    have "sess (snd (authenticate w t ip email pw gate s)) = sess s"
      using l(2) set_password_sess [of w t "derive_id (st_crypto w) email" pw "s1\<lparr>lims := note_login_success (derive_id (st_crypto w) email) (lims s1)\<rparr>"]
      by (auto simp: authenticate_def l(1) Some Let_def case_prod_unfold split: option.splits sum.splits prod.splits id_error.splits)
    then show ?thesis by simp
  qed
qed

lemma identity_payload_facts:
  assumes "coherent w s"
  shows "sess (snd (identity_payload w uid s)) = sess s" "users_file (snd (identity_payload w uid s)) = users_file s"
    "coherent w (snd (identity_payload w uid s))" "dict_get (fst (identity_payload w uid s)) ''identity'' = Some (JStr uid)"
  using loaded_facts [OF assms] by (simp_all add: identity_payload_def find_user_eq [OF assms])

lemma fail_identity_no_cookie [simp]: "fail_identity e \<noteq> AuthOk p c"
  by (cases e) (simp_all add: fail_identity_def)

lemma json_body_fail: "json_body rq = Inl resp \<Longrightarrow> resp \<noteq> AuthOk p c"
  by (auto simp: json_body_def Let_def split: if_splits option.splits json.splits)

lemma json_body_Inr:
  "json_body rq = Inr body \<Longrightarrow>
     lower (strip (hd (split_on CHR '';'' (req_header rq ''content-type'')))) = ''application/json'' \<and> rq_length rq \<le> 65536"
  by (auto simp: json_body_def Let_def split: if_splits option.splits json.splits)

definition login_state :: "site \<Rightarrow> tick \<Rightarrow> auth_request \<Rightarrow> id_state \<Rightarrow> id_state" where
  "login_state w t rq s = s\<lparr>lims := snd (allow_login (client_ip w (sc_client (rq_scope rq))) (mono t) (lims s))\<rparr>"

lemma login_state_facts [simp]:
  "accounts_ok w (login_state w t rq s) = accounts_ok w s" "sess (login_state w t rq s) = sess s"
  by (simp_all add: login_state_def)

lemma login_cases:
  assumes "accounts_ok w s" "login w t rq s = (resp, s')"
  obtains (Refused) "\<And>p c. resp \<noteq> AuthOk p c" "sessions_within (sess s) (sess s')"
  | (Issued) body u created s2 s3 tok where "json_body rq = Inr body" "\<not> origin_is_foreign w rq"
      "fst (allow_login (client_ip w (sc_client (rq_scope rq))) (mono t) (lims s))"
      "\<not> (public_https w \<and> lower (rq_scheme rq) \<notin> {''https'', ''wss''})"
      "authenticate w t (client_ip w (sc_client (rq_scope rq))) (rec_str w body ''email'') (rec_str w body ''password'')
         (gate_field w body) (login_state w t rq s) = (Inr (u, created), s2)"
      "with_session w t (u_id u) s2 = (Inr tok, s3)" "s' = snd (identity_payload w (u_id u) s3)"
      "resp = AuthOk (dict_set ''created'' (JBool created) (fst (identity_payload w (u_id u) s3))) (issue_cookie w rq tok)"
proof -
  let ?ip = "client_ip w (sc_client (rq_scope rq))"
  show ?thesis
  proof (cases "json_body rq")
    case (Inl r)
    then show ?thesis using assms(2) Refused json_body_fail [OF Inl] by (auto simp: login_def)
  next
    case b: (Inr body)
    obtain ok l where al: "allow_login ?ip (mono t) (lims s) = (ok, l)" by fastforce
    have ls: "login_state w t rq s = s\<lparr>lims := l\<rparr>" by (simp add: login_state_def al)
    show ?thesis
    proof (cases "origin_is_foreign w rq \<or> \<not> ok \<or> (public_https w \<and> lower (rq_scheme rq) \<notin> {''https'', ''wss''})")
      case True
      have "(\<exists>c r d. resp = AuthFail c r d) \<and> sess s' = sess s"
        using assms(2) True by (auto simp: login_def b al Let_def split: if_splits)
      then show ?thesis using Refused by auto
    next
      case False
      note g = False
      obtain ar s2 where au: "authenticate w t ?ip (rec_str w body ''email'') (rec_str w body ''password'') (gate_field w body)
          (login_state w t rq s) = (ar, s2)" by fastforce
      have ok2: "accounts_ok w s2"
        using keeps_authenticate [of w "login_state w t rq s" t ?ip "rec_str w body ''email''" "rec_str w body ''password''" "gate_field w body"]
          assms(1) au by simp
      have within: "sessions_within (sess s) (sess s2)"
        using authenticate_sess [of w "login_state w t rq s" t ?ip "rec_str w body ''email''" "rec_str w body ''password''" "gate_field w body"]
          assms(1) au by simp
      have eq: "login w t rq s = (case (ar, s2) of
          (Inl e, s2) \<Rightarrow> (fail_identity e, s2)
        | (Inr (u, created), s2) \<Rightarrow>
            (case with_session w t (u_id u) s2 of
               (Inl e, s3) \<Rightarrow> (fail_identity e, s3)
             | (Inr token, s3) \<Rightarrow>
                 (let (payload, s4) = identity_payload w (u_id u) s3
                  in (AuthOk (dict_set ''created'' (JBool created) payload) (issue_cookie w rq token), s4))))"
        using g au by (simp add: login_def b al ls Let_def) blast
      show ?thesis
      proof (cases ar)
        case (Inl e)
        then show ?thesis using eq assms(2) Refused within by auto
      next
        case (Inr uc)
        obtain u created where uc: "uc = (u, created)" by (cases uc)
        obtain wr s3 where ws: "with_session w t (u_id u) s2 = (wr, s3)" by fastforce
        have d2: "dict_ok (sess s2)" using ok2 by (simp add: accounts_ok_def sessions_ok_def)
        show ?thesis
        proof (cases wr)
          case e: (Inl e)
          have "sessions_within (sess s2) (sess s3)" using with_session_Inl ws e d2 by blast
          then have "sessions_within (sess s) (sess s3)" using within sessions_within_trans by blast
          then show ?thesis using eq assms(2) Refused ws e Inr uc by auto
        next
          case tk: (Inr tok)
          show ?thesis
            by (rule Issued [of body u created s2 tok s3])
              (use eq assms(2) ws tk Inr uc g al au b in \<open>auto simp: case_prod_unfold Let_def\<close>)
        qed
      qed
    qed
  qed
qed

subsection \<open>Properties\<close>

text \<open>C8: a cookie is issued at the login endpoint only past every check, and only for the account that
  authenticated. The body was declared as JSON and small, the origin is not foreign, the address was
  within its limit, on a server declared HTTPS the request came over HTTPS and the cookie is marked
  secure; the cookie opens a fresh session of exactly the authenticated account, and every other session
  was there before. When no cookie is issued, no session was added.\<close>

theorem login_guarded:
  assumes "accounts_ok w s" "login w t rq s = (resp, s')"
  shows "(resp = AuthOk payload (IssueCookie tok age secure) \<longrightarrow>
      lower (strip (hd (split_on CHR '';'' (req_header rq ''content-type'')))) = ''application/json'' \<and> rq_length rq \<le> 65536
      \<and> \<not> origin_is_foreign w rq \<and> fst (allow_login (client_ip w (sc_client (rq_scope rq))) (mono t) (lims s))
      \<and> (public_https w \<longrightarrow> lower (rq_scheme rq) \<in> {''https'', ''wss''} \<and> secure) \<and> age = session_ttl w
      \<and> (\<exists>body u created s2. json_body rq = Inr body
           \<and> authenticate w t (client_ip w (sc_client (rq_scope rq))) (rec_str w body ''email'') (rec_str w body ''password'')
               (gate_field w body) (login_state w t rq s) = (Inr (u, created), s2)
           \<and> dict_get payload ''identity'' = Some (JStr (u_id u))
           \<and> read_session (sess s') (sid_of w tok) = Some (session_record w t (u_id u))
           \<and> (\<forall>sid d. read_session (sess s') sid = Some d \<and> sid \<noteq> sid_of w tok \<longrightarrow> read_session (sess s) sid = Some d)))
    \<and> ((\<forall>p c. resp \<noteq> AuthOk p c) \<longrightarrow> (\<forall>sid d. read_session (sess s') sid = Some d \<longrightarrow> read_session (sess s) sid = Some d))"
  using assms
proof (cases rule: login_cases)
  case Refused
  then show ?thesis unfolding sessions_within_def by blast
next
  case (Issued body u created s2 s3 tk)
  have k: "accounts_ok w s2"
    using keeps_authenticate [of w "login_state w t rq s" t "client_ip w (sc_client (rq_scope rq))" "rec_str w body ''email''"
        "rec_str w body ''password''" "gate_field w body"] assms(1) Issued(5) by simp
  have d2: "dict_ok (sess s2)" "coherent w s2" using k by (simp_all add: accounts_ok_def sessions_ok_def)
  have w2: "sessions_within (sess s) (sess s2)"
    using authenticate_sess [of w "login_state w t rq s" t "client_ip w (sc_client (rq_scope rq))" "rec_str w body ''email''"
        "rec_str w body ''password''" "gate_field w body"] assms(1) Issued(5) by simp
  note ws = with_session_Inr [OF Issued(6) d2(1)]
  have c3: "coherent w s3" using ws(1) d2(2) by (metis coherent_simps(3))
  have s': "sess s' = sess s3" using identity_payload_facts(1) [OF c3] Issued(7) by simp
  show ?thesis
  proof (intro conjI impI)
    assume r: "resp = AuthOk payload (IssueCookie tok age secure)"
    then have t: "tok = tk" "age = session_ttl w" "secure = cookie_is_secure w (Some (rq_scheme rq))"
      "dict_get payload ''identity'' = Some (JStr (u_id u))"
      using Issued(8) identity_payload_facts(4) [OF c3] by (auto simp: issue_cookie_def)
    show "lower (strip (hd (split_on CHR '';'' (req_header rq ''content-type'')))) = ''application/json''" "rq_length rq \<le> 65536"
      using json_body_Inr [OF Issued(1)] by auto
    show "\<not> origin_is_foreign w rq" "fst (allow_login (client_ip w (sc_client (rq_scope rq))) (mono t) (lims s))"
      by (fact Issued(2), fact Issued(3))
    show "lower (rq_scheme rq) \<in> {''https'', ''wss''}" "secure" if "public_https w"
      using that Issued(4) t(3) by (auto simp: cookie_is_secure_def)
    show "age = session_ttl w" by (fact t(2))
    have "\<forall>sid d. read_session (sess s') sid = Some d \<and> sid \<noteq> sid_of w tok \<longrightarrow> read_session (sess s) sid = Some d"
      using ws(4) w2 unfolding sessions_within_def s' t(1) by blast
    then show "\<exists>body u created s2. json_body rq = Inr body
           \<and> authenticate w t (client_ip w (sc_client (rq_scope rq))) (rec_str w body ''email'') (rec_str w body ''password'')
               (gate_field w body) (login_state w t rq s) = (Inr (u, created), s2)
           \<and> dict_get payload ''identity'' = Some (JStr (u_id u))
           \<and> read_session (sess s') (sid_of w tok) = Some (session_record w t (u_id u))
           \<and> (\<forall>sid d. read_session (sess s') sid = Some d \<and> sid \<noteq> sid_of w tok \<longrightarrow> read_session (sess s) sid = Some d)"
      using Issued(1,5) t(4) ws(2) unfolding s' t(1) by blast
  next
    assume "\<forall>p c. resp \<noteq> AuthOk p c"
    then show "\<forall>sid d. read_session (sess s') sid = Some d \<longrightarrow> read_session (sess s) sid = Some d" using Issued(8) by blast
  qed
qed

definition demo_login :: auth_request where
  "demo_login = \<lparr>rq_scope = \<lparr>sc_type = ''http'', sc_method = Some ''POST'', sc_path = Some ''/api/auth/login'', sc_query = [],
       sc_headers = [(''content-type'', ''application/json; charset=utf-8''), (''host'', ''desk.example''),
         (''origin'', ''http://desk.example'')], sc_client = None\<rparr>,
     rq_scheme = ''http'', rq_length = 60,
     rq_json = Some (JObj [(''email'', JStr ''bob@example.org''), (''password'', JStr ''correct horse'')]), rq_cookie = None\<rparr>"

lemma demo_login_facts:
  "json_body demo_login = Inr [(''email'', JStr ''bob@example.org''), (''password'', JStr ''correct horse'')]"
  "\<not> origin_is_foreign demo_site demo_login" "\<not> public_https demo_site" "client_ip demo_site (sc_client (rq_scope demo_login)) = None"
proof -
  have ct: "lower (strip (hd (split_on CHR '';'' (req_header demo_login ''content-type'')))) = ''application/json''" by code_simp
  have "rq_length demo_login = 60" "rq_json demo_login = Some (JObj [(''email'', JStr ''bob@example.org''), (''password'', JStr ''correct horse'')])"
    by (simp_all add: demo_login_def)
  then show "json_body demo_login = Inr [(''email'', JStr ''bob@example.org''), (''password'', JStr ''correct horse'')]"
    by (simp add: json_body_def ct)
  show https: "\<not> public_https demo_site" by (simp add: public_https_def enabled_def site_env_def getenv_def demo_site_def)
  have "strip (req_header demo_login ''origin'') = ''http://desk.example''" "strip (req_header demo_login ''host'') = ''desk.example''"
    "rstrip_slash (lower ''http://desk.example'') = ''http://desk.example''" "lower ''http'' = ''http''"
    by code_simp+
  then show "\<not> origin_is_foreign demo_site demo_login" by (simp add: origin_is_foreign_def https demo_login_def)
  show "client_ip demo_site (sc_client (rq_scope demo_login)) = None" by (simp add: client_ip_def demo_login_def)
qed

lemma demo_login_issues: "\<exists>payload tok age secure s'. login demo_site demo_tick demo_login demo_used = (AuthOk payload (IssueCookie tok age secure), s')"
proof -
  obtain u s2 where a: "authenticate demo_site demo_tick None ''bob@example.org'' ''correct horse'' None demo_used = (Inr (u, True), s2)"
    using demo_authenticate by blast
  obtain l where c: "create_user demo_site demo_tick ''bob@example.org'' ''correct horse'' ((snd (loaded demo_site demo_used))\<lparr>lims := l\<rparr>) = (Inr u, s2)"
    by (rule authenticate_created [OF demo_used_facts(4) a])
  define s1 where "s1 = (snd (loaded demo_site demo_used))\<lparr>lims := l\<rparr>"
  have s1: "users s1 = demo_users" "sess s1 = sess demo_used"
    using loaded_facts [OF demo_used_facts(4)] demo_used_facts(2) by (simp_all add: s1_def)
  have t: "dict_ok (users s1)" "ids_match demo_site (users s1)"
    using demo_used_facts(5) demo_used_facts(2) by (simp_all add: s1 table_ok_def)
  have sid: "sid_of demo_site ''tok-2'' \<noteq> sid_of demo_site ''tok-1''" by code_simp
  then have free: "dict_get (sess demo_used) (sid_of demo_site ''tok-2'') = None" by (simp add: demo_used_def demo_signed_in_def)
  have "dict_get (sess s2) (sid_of demo_site ''tok-2'') = None"
    using c [folded s1_def] t
  proof (cases rule: create_user_Inr)
    case (new V enc)
    then show ?thesis using free by (auto simp: s1 map_of_eq_None_iff)
  qed (simp add: s1 free)
  moreover have "''tok-2'' \<in> set (take 4 (new_tokens demo_tick))" by (simp add: demo_tick_def)
  ultimately obtain tok s3 where w: "with_session demo_site demo_tick (u_id u) s2 = (Inr tok, s3)"
    using with_session_free by blast
  have al: "allow_login None (mono demo_tick) (lims demo_used) = (True, lims demo_used)" by (simp add: allow_login_def rl_allow_def)
  have st: "demo_used\<lparr>lims := lims demo_used\<rparr> = demo_used" by simp
  have f: "rec_str demo_site [(''email'', JStr ''bob@example.org''), (''password'', JStr ''correct horse'')] ''email'' = ''bob@example.org''"
    "rec_str demo_site [(''email'', JStr ''bob@example.org''), (''password'', JStr ''correct horse'')] ''password'' = ''correct horse''"
    "gate_field demo_site [(''email'', JStr ''bob@example.org''), (''password'', JStr ''correct horse'')] = None"
    by (simp_all add: rec_str_def py_str_def gate_field_def)
  show ?thesis
    by (simp add: login_def demo_login_facts al st f a w Let_def case_prod_unfold issue_cookie_def)
qed

theorem login_guarded_witness:
  "\<exists>payload tok age secure s'. login demo_site demo_tick demo_login demo_used = (AuthOk payload (IssueCookie tok age secure), s')
     \<and> age = session_ttl demo_site \<and> (\<exists>who. read_session (sess s') (sid_of demo_site tok) = Some (session_record demo_site demo_tick who))"
proof -
  obtain payload tok age secure s' where l: "login demo_site demo_tick demo_login demo_used = (AuthOk payload (IssueCookie tok age secure), s')"
    using demo_login_issues by blast
  note g = mp [OF conjunct1 [OF login_guarded [OF demo_used_ok l, of payload tok age secure]] refl]
  have "age = session_ttl demo_site" using g by (elim conjE)
  moreover obtain who where "read_session (sess s') (sid_of demo_site tok) = Some (session_record demo_site demo_tick who)"
    by (rule exE [OF conjunct2 [OF conjunct2 [OF conjunct2 [OF conjunct2 [OF conjunct2 [OF conjunct2 [OF g]]]]]]]) (elim exE conjE, rule that, assumption)
  ultimately show ?thesis
    by - (rule exI [of _ payload], rule exI [of _ tok], rule exI [of _ age], rule exI [of _ secure], rule exI [of _ s'],
        intro conjI l, assumption, rule exI [of _ who], assumption)
qed

text \<open>C9: changing a password is an answer to a stolen cookie. When the route succeeds, the current password
  was given, the new one is stored, and from then on a cookie resolves to the account only if it is the one
  the answer issues, whatever cookies existed before.\<close>

theorem change_password_leaves_one_login:
  assumes "coherent w s" "dict_ok (sess s)"
    and "change_password w t rq st s = (AuthOk payload (IssueCookie tok age secure), s')"
  shows "\<exists>who body r enc. identity_of st = Some who \<and> json_body rq = Inr body \<and> dict_get (users s) who = Some r
    \<and> verify_password (st_crypto w) (rec_str w body ''current_password'') (rec_str w r ''pwd'')
    \<and> hash_password (st_crypto w) (new_salt t) (rec_str w body ''new_password'') SCRYPT_N SCRYPT_R SCRYPT_P = Some enc
    \<and> dict_get (users s') who = Some (dict_set ''pwd'' (JStr enc) r)
    \<and> (\<forall>t' token ls. fst (resolve_session w t' token s') = Some ls \<and> ls_identity ls = who \<longrightarrow>
         (\<exists>tk. token = Some tk \<and> sid_of w tk = sid_of w tok))"
proof -
  obtain body where b: "json_body rq = Inr body"
    using assms(3) json_body_fail by (cases "json_body rq") (auto simp: change_password_def)
  obtain who where who: "identity_of st = Some who" using assms(3) by (cases "identity_of st") (auto simp: change_password_def b)
  obtain s1 where l: "loaded w s = (users s, s1)" "users_file s1 = users_file s" "sess s1 = sess s" "coherent w s1"
    using loadedE [OF assms(1)] by metis
  define ok where "ok = (case dict_get (users s) who of None \<Rightarrow> False | Some r \<Rightarrow>
      if rec_flag r ''disabled'' then False else verify_password (st_crypto w) (rec_str w body ''current_password'') (rec_str w r ''pwd''))"
  have v: "verify_user_password w who (rec_str w body ''current_password'') s = (ok, s1)"
    by (simp add: verify_user_password_def l(1) ok_def)
  note a = assms(3) [unfolded change_password_def b who sum.case option.case v Let_def prod.case]
  have "ok" using a by (cases ok) simp_all
  then obtain r where r: "dict_get (users s) who = Some r"
    "verify_password (st_crypto w) (rec_str w body ''current_password'') (rec_str w r ''pwd'')"
    by (auto simp: ok_def split: option.splits if_splits)
  obtain pr s2 where sp: "set_password w t who (rec_str w body ''new_password'') True s1 = (pr, s2)" by fastforce
  obtain u where u: "pr = Inr u" using a \<open>ok\<close> by (cases pr) (simp_all add: sp)
  obtain r' enc where e: "dict_get (users s1) who = Some r'" "users s2 = dict_set who (dict_set ''pwd'' (JStr enc) r') (users s1)"
    "hash_password (st_crypto w) (new_salt t) (rec_str w body ''new_password'') SCRYPT_N SCRYPT_R SCRYPT_P = Some enc"
    "sess s2 = snd (revoke_identity_sessions w who (sess s1))" "coherent w s2"
    by (rule set_password_Inr [OF sp [unfolded u]]) (use l(4) in auto)
  have rr: "r' = r" using e(1) r(1) l(2) by simp
  obtain wr s3 where ws: "with_session w t who s2 = (wr, s3)" by fastforce
  obtain tk where tk: "wr = Inr tk" using a \<open>ok\<close> by (cases wr) (simp_all add: sp u ws)
  have d2: "dict_ok (sess s2)" using e(4) l(3) assms(2) by (simp add: revoke_identity_sessions_def)
  note w = with_session_Inr [OF ws [unfolded tk] d2]
  have c3: "coherent w s3" using w(1) e(5) by (metis coherent_simps(3))
  have fin: "s' = snd (identity_payload w who s3)" "tok = tk"
    using a \<open>ok\<close> by (auto simp: sp u ws tk case_prod_unfold issue_cookie_def)
  have s': "sess s' = sess s3" "users_file s' = users_file s3" "coherent w s'"
    using identity_payload_facts [OF c3] fin(1) by simp_all
  have us: "users s' = dict_set who (dict_set ''pwd'' (JStr enc) r) (users s)"
    using w(1) e(2) rr l(2) s'(2) by (metis id_state.simps(1,6) id_state.select_convs(1) id_state.surjective id_state.update_convs(3))
  have "\<exists>x. token = Some x \<and> sid_of w x = sid_of w tok" if rs: "resolve_session w t' token s' = (Some ls, s4)" "ls_identity ls = who" for t' token ls s4
  proof (rule resolve_session_Some [OF s'(3) rs(1)])
    fix x d e' r''
    assume x: "token = Some x" "read_session (sess s') (sid_of w x) = Some d" "d \<noteq> []" "ls = session_view w (sid_of w x) d"
    have "sid_of w x = sid_of w tok"
    proof (rule ccontr)
      assume "sid_of w x \<noteq> sid_of w tok"
      then have "read_session (sess s2) (sid_of w x) = Some d" using w(4) x(2) fin(2) s'(1) by simp
      then have "rec_str w d ''identity'' \<noteq> who"
        using read_after_revoke [of "sess s1" w who "sid_of w x"] assms(2) e(4) l(3) x(3) by (auto split: option.splits if_splits)
      then show False using rs(2) x(4) by (simp add: session_view_def)
    qed
    then show ?thesis using x(1) by blast
  qed
  then have one: "\<forall>t' token ls. fst (resolve_session w t' token s') = Some ls \<and> ls_identity ls = who \<longrightarrow>
         (\<exists>tk. token = Some tk \<and> sid_of w tk = sid_of w tok)" by (metis fst_conv surj_pair)
  show ?thesis
    by (rule exI [of _ who], rule exI [of _ body], rule exI [of _ r], rule exI [of _ enc])
      (use who b r e(3) us one in simp)
qed

text \<open>Ada, signed in with a session in the browser and a real password on file.\<close>

definition demo_enc :: string where
  "demo_enc = the (hash_password demo_crypto ''salt'' ''correct horse'' SCRYPT_N SCRYPT_R SCRYPT_P)"

definition demo_hashed :: id_state where
  "demo_hashed = demo_signed_in\<lparr>users_file := Some ((1, 3), Parsed (objs_json
     [(''ada'', [(''id'', JStr ''ada''), (''email'', JStr ''ada@example.org''), (''pwd'', JStr demo_enc), (''disabled'', JBool False)])]))\<rparr>"

definition demo_change :: auth_request where
  "demo_change = demo_login\<lparr>rq_json := Some (JObj [(''current_password'', JStr ''correct horse''), (''new_password'', JStr ''battery staple'')])\<rparr>"

lemma demo_hashed_facts:
  "coherent demo_site demo_hashed" "dict_ok (sess demo_hashed)"
  "users demo_hashed = [(''ada'', [(''id'', JStr ''ada''), (''email'', JStr ''ada@example.org''), (''pwd'', JStr demo_enc), (''disabled'', JBool False)])]"
  "verify_password (st_crypto demo_site) ''correct horse'' demo_enc"
proof -
  show "coherent demo_site demo_hashed" "dict_ok (sess demo_hashed)"
    by (simp_all add: demo_hashed_def demo_signed_in_def demo_state_def coherent_def users_coherent_def dict_ok_def)
  show "users demo_hashed = [(''ada'', [(''id'', JStr ''ada''), (''email'', JStr ''ada@example.org''), (''pwd'', JStr demo_enc), (''disabled'', JBool False)])]"
    by (simp add: demo_hashed_def read_users_file_def objs_json_def dict_entries_objs)
  have e: "hash_password demo_crypto ''salt'' ''correct horse'' SCRYPT_N SCRYPT_R SCRYPT_P = Some demo_enc"
    by (simp add: demo_enc_def hash_password_def demo_crypto_def)
  have "verify_password demo_crypto ''correct horse'' demo_enc"
    by (rule conjunct1 [OF hash_verify_facts [OF e]])
      (simp_all add: demo_crypto_def SCRYPT_N_def SCRYPT_R_def SCRYPT_P_def SCRYPT_DKLEN_def MAX_PASSWORD_LENGTH_def)
  then show "verify_password (st_crypto demo_site) ''correct horse'' demo_enc" by (simp add: demo_site_def)
qed

lemma demo_change_body:
  "json_body demo_change = Inr [(''current_password'', JStr ''correct horse''), (''new_password'', JStr ''battery staple'')]"
proof -
  have "lower (strip (hd (split_on CHR '';'' (req_header demo_change ''content-type'')))) = ''application/json''" by code_simp
  moreover have "rq_length demo_change = 60" by (simp add: demo_change_def demo_login_def)
  ultimately show ?thesis by (simp add: json_body_def) (simp add: demo_change_def)
qed

lemma demo_change_issues:
  "\<exists>payload tok age secure s'. change_password demo_site demo_tick demo_change (Some (admit ''identity'' (Some ''ada'') (Some ''ada''))) demo_hashed
     = (AuthOk payload (IssueCookie tok age secure), s')"
proof -
  obtain s1 where l: "loaded demo_site demo_hashed = (users demo_hashed, s1)" "users_file s1 = users_file demo_hashed" "sess s1 = sess demo_hashed"
    using loadedE [OF demo_hashed_facts(1)] by metis
  have v: "verify_user_password demo_site ''ada'' ''correct horse'' demo_hashed = (True, s1)"
    using demo_hashed_facts(4) by (cases "demo_enc = []") (simp_all add: verify_user_password_def l(1) demo_hashed_facts(3) rec_flag_def rec_str_def py_str_def)
  have p: "password_problem ''battery staple'' = None" by code_simp
  obtain enc where h: "hash_password (st_crypto demo_site) (new_salt demo_tick) ''battery staple'' SCRYPT_N SCRYPT_R SCRYPT_P = Some enc"
    by (simp add: hash_password_def demo_site_def demo_crypto_def)
  obtain s2 where sp: "set_password demo_site demo_tick ''ada'' ''battery staple'' True s1 = (Inr (), s2)"
    "sess s2 = snd (revoke_identity_sessions demo_site ''ada'' (sess demo_hashed))"
    using demo_hashed_facts(3) l(2,3) by (auto simp: set_password_def p h users_locked_def Let_def revoke_all_def commit_def)
  have sid: "sid_of demo_site ''tok-2'' \<noteq> sid_of demo_site ''tok-1''" by code_simp
  have "dict_get (sess s2) (sid_of demo_site ''tok-2'') = None"
    using sid by (simp add: sp(2) revoke_identity_sessions_def demo_hashed_def demo_signed_in_def)
  moreover have "''tok-2'' \<in> set (take 4 (new_tokens demo_tick))" by (simp add: demo_tick_def)
  ultimately obtain tok s3 where w: "with_session demo_site demo_tick ''ada'' s2 = (Inr tok, s3)"
    using with_session_free by blast
  have f: "rec_str demo_site [(''current_password'', JStr ''correct horse''), (''new_password'', JStr ''battery staple'')] ''current_password'' = ''correct horse''"
    "rec_str demo_site [(''current_password'', JStr ''correct horse''), (''new_password'', JStr ''battery staple'')] ''new_password'' = ''battery staple''"
    by (simp_all add: rec_str_def py_str_def)
  show ?thesis
    by (simp add: change_password_def demo_change_body identity_of_def admit_def f v sp w Let_def case_prod_unfold issue_cookie_def)
qed

theorem change_password_leaves_one_login_witness:
  "\<exists>payload tok age secure s'. change_password demo_site demo_tick demo_change (Some (admit ''identity'' (Some ''ada'') (Some ''ada''))) demo_hashed
     = (AuthOk payload (IssueCookie tok age secure), s')
   \<and> (\<exists>enc r. dict_get (users s') ''ada'' = Some (dict_set ''pwd'' (JStr enc) r))"
proof -
  obtain payload tok age secure s' where c: "change_password demo_site demo_tick demo_change
      (Some (admit ''identity'' (Some ''ada'') (Some ''ada''))) demo_hashed = (AuthOk payload (IssueCookie tok age secure), s')"
    using demo_change_issues by blast
  obtain who r enc where "identity_of (Some (admit ''identity'' (Some ''ada'') (Some ''ada''))) = Some who"
    "dict_get (users s') who = Some (dict_set ''pwd'' (JStr enc) r)"
    using change_password_leaves_one_login [OF demo_hashed_facts(1,2) c] by (elim exE conjE) (rule that)
  then have "dict_get (users s') ''ada'' = Some (dict_set ''pwd'' (JStr enc) r)" by (simp add: identity_of_def admit_def)
  then show ?thesis using c by blast
qed

text \<open>\<open>logout\<close> revokes the session of the cookie the framework parsed. When a request carries the cookie twice
  and the framework keeps another copy than the gate did, the session the gate admitted lives on.\<close>

theorem logout_may_miss_the_session:
  assumes "json_body rq = Inr body" "identity_of st = Some who" "rq_cookie rq = Some other" "sid_of w other \<noteq> sid_of w tok"
  shows "fst (logout w rq st s) = AuthOk [(''ok'', JBool True)] DeleteCookie
    \<and> read_session (sess (snd (logout w rq st s))) (sid_of w tok) = read_session (sess s) (sid_of w tok)"
  using assms by (simp add: logout_def revoke_session_def unlink_session_def read_session_def Let_def)

end
