(* ===== verification/Executions.thy ===== *)
theory Executions
  imports Py_Path
begin

text \<open>
  \<open>recipes/execution.py\<close>: one run of a recipe, its states and its JSON form. A clock reading is a
  \<open>datetime\<close> without zone; \<open>datetime.fromisoformat\<close> is the operation \<open>from_iso\<close>. A document whose fields
  do not have the declared types never comes from \<open>to_dict\<close>; Python would carry such a value along, the model
  reports it as \<open>Untyped\<close>.
\<close>

subsection \<open>Clock readings\<close>

record datetime =
  dt_year :: nat
  dt_month :: nat
  dt_day :: nat
  dt_hour :: nat
  dt_minute :: nat
  dt_second :: nat
  dt_micro :: nat

definition pad :: "nat \<Rightarrow> nat \<Rightarrow> string" where
  "pad k n = (let s = dec n in replicate (k - length s) CHR ''0'' @ s)"

definition dt_isoformat :: "datetime \<Rightarrow> string" where
  "dt_isoformat d =
     pad 4 (dt_year d) @ ''-'' @ pad 2 (dt_month d) @ ''-'' @ pad 2 (dt_day d) @ ''T'' @ pad 2 (dt_hour d) @ '':''
     @ pad 2 (dt_minute d) @ '':'' @ pad 2 (dt_second d) @ (if dt_micro d \<noteq> 0 then ''.'' @ pad 6 (dt_micro d) else [])"

subsection \<open>States\<close>

datatype exec_status = PENDING | RUNNING | SUCCEEDED | FAILED | TIMEOUT | CANCELLED

fun status_value :: "exec_status \<Rightarrow> string" where
  "status_value PENDING = ''pending''"
| "status_value RUNNING = ''running''"
| "status_value SUCCEEDED = ''succeeded''"
| "status_value FAILED = ''failed''"
| "status_value TIMEOUT = ''timeout''"
| "status_value CANCELLED = ''cancelled''"

definition status_of :: "string \<Rightarrow> exec_status option" where
  "status_of s = find (\<lambda>x. status_value x = s) [PENDING, RUNNING, SUCCEEDED, FAILED, TIMEOUT, CANCELLED]"

fun VALID_TRANSITIONS :: "exec_status \<Rightarrow> exec_status set" where
  "VALID_TRANSITIONS PENDING = {RUNNING, CANCELLED}"
| "VALID_TRANSITIONS RUNNING = {SUCCEEDED, FAILED, TIMEOUT, CANCELLED}"
| "VALID_TRANSITIONS _ = {}"

text \<open>Of \<open>InvalidTransitionError\<close>, a missing record, and what reading a record may raise.\<close>

datatype load_error = KeyErr string | ValueErr | TypeErr | AttributeErr | Untyped

datatype exec_error =
    InvalidTransition exec_status exec_status
  | NotFound string
  | LoadError load_error

subsection \<open>The record of a run\<close>

record execution =
  ex_id :: string
  ex_recipe_name :: string
  ex_status :: exec_status
  ex_params :: json
  ex_created_at :: datetime
  ex_started_at :: "datetime option"
  ex_completed_at :: "datetime option"
  ex_data :: json
  ex_error :: json
  ex_exit_code :: "int option"
  ex_runtime :: "string option"
  ex_duration_ms :: "int option"
  ex_timeout_seconds :: "int option"
  ex_source :: "string option"
  ex_workflow_id :: "string option"
  ex_step_index :: "int option"

definition generate_execution_id :: "string \<Rightarrow> string" where
  "generate_execution_id hex = ''exec_'' @ take 12 hex"

definition transition_to :: "datetime \<Rightarrow> exec_status \<Rightarrow> execution \<Rightarrow> exec_error + execution" where
  "transition_to clock new_status e =
     (if new_status \<notin> VALID_TRANSITIONS (ex_status e) then Inl (InvalidTransition (ex_status e) new_status)
      else let e1 = e\<lparr>ex_status := new_status\<rparr>
           in Inr (if new_status = RUNNING then e1\<lparr>ex_started_at := Some clock\<rparr> else e1))"

definition is_terminal :: "execution \<Rightarrow> bool" where
  "is_terminal e \<longleftrightarrow> VALID_TRANSITIONS (ex_status e) = {}"

definition j_str :: "string option \<Rightarrow> json" where
  "j_str x = (case x of None \<Rightarrow> JNull | Some s \<Rightarrow> JStr s)"

definition j_int :: "int option \<Rightarrow> json" where
  "j_int x = (case x of None \<Rightarrow> JNull | Some n \<Rightarrow> JNum n)"

definition to_dict :: "execution \<Rightarrow> (string, json) dict" where
  "to_dict e =
     [(''id'', JStr (ex_id e)), (''recipe_name'', JStr (ex_recipe_name e)), (''status'', JStr (status_value (ex_status e))),
      (''params'', ex_params e), (''created_at'', JStr (dt_isoformat (ex_created_at e))),
      (''started_at'', j_str (map_option dt_isoformat (ex_started_at e))),
      (''completed_at'', j_str (map_option dt_isoformat (ex_completed_at e))),
      (''data'', ex_data e), (''error'', ex_error e), (''exit_code'', j_int (ex_exit_code e)), (''runtime'', j_str (ex_runtime e)),
      (''duration_ms'', j_int (ex_duration_ms e)), (''timeout_seconds'', j_int (ex_timeout_seconds e)),
      (''source'', j_str (ex_source e)), (''workflow_id'', j_str (ex_workflow_id e)), (''step_index'', j_int (ex_step_index e))]"

subsection \<open>Reading it back\<close>

text \<open>\<open>d[k]\<close> and \<open>d.get(k)\<close> with the type the record declares.\<close>

definition need :: "(string, json) dict \<Rightarrow> string \<Rightarrow> load_error + json" where
  "need d k = (case dict_get d k of None \<Rightarrow> Inl (KeyErr k) | Some j \<Rightarrow> Inr j)"

definition get_or :: "(string, json) dict \<Rightarrow> string \<Rightarrow> json \<Rightarrow> json" where
  "get_or d k j = (case dict_get d k of None \<Rightarrow> j | Some x \<Rightarrow> x)"

fun as_str :: "json \<Rightarrow> load_error + string" where
  "as_str (JStr s) = Inr s"
| "as_str _ = Inl Untyped"

fun as_str_opt :: "json \<Rightarrow> load_error + string option" where
  "as_str_opt JNull = Inr None"
| "as_str_opt (JStr s) = Inr (Some s)"
| "as_str_opt _ = Inl Untyped"

fun as_int_opt :: "json \<Rightarrow> load_error + int option" where
  "as_int_opt JNull = Inr None"
| "as_int_opt (JNum n) = Inr (Some n)"
| "as_int_opt _ = Inl Untyped"

fun as_status :: "json \<Rightarrow> load_error + exec_status" where
  "as_status (JStr s) = (case status_of s of Some x \<Rightarrow> Inr x | None \<Rightarrow> Inl ValueErr)"
| "as_status _ = Inl ValueErr"

fun parse_dt :: "(string \<Rightarrow> datetime option) \<Rightarrow> json \<Rightarrow> load_error + datetime option" where
  "parse_dt from_iso JNull = Inr None"
| "parse_dt from_iso (JStr s) = (case from_iso s of Some d \<Rightarrow> Inr (Some d) | None \<Rightarrow> Inl ValueErr)"
| "parse_dt from_iso _ = Inl TypeErr"

definition from_dict :: "(string \<Rightarrow> datetime option) \<Rightarrow> json \<Rightarrow> load_error + execution" where
  "from_dict from_iso j =
     (case j of
        JObj d \<Rightarrow>
          bindE (bindE (need d ''id'') as_str) (\<lambda>id.
          bindE (bindE (need d ''recipe_name'') as_str) (\<lambda>recipe_name.
          bindE (bindE (need d ''status'') as_status) (\<lambda>status.
          bindE (bindE (need d ''created_at'') (parse_dt from_iso)) (\<lambda>created.
          bindE (parse_dt from_iso (get_or d ''started_at'' JNull)) (\<lambda>started.
          bindE (parse_dt from_iso (get_or d ''completed_at'' JNull)) (\<lambda>completed.
          bindE (as_int_opt (get_or d ''exit_code'' JNull)) (\<lambda>exit_code.
          bindE (as_str_opt (get_or d ''runtime'' JNull)) (\<lambda>runtime.
          bindE (as_int_opt (get_or d ''duration_ms'' JNull)) (\<lambda>duration.
          bindE (as_int_opt (get_or d ''timeout_seconds'' JNull)) (\<lambda>timeout.
          bindE (as_str_opt (get_or d ''source'' JNull)) (\<lambda>source.
          bindE (as_str_opt (get_or d ''workflow_id'' JNull)) (\<lambda>workflow.
          bindE (as_int_opt (get_or d ''step_index'' JNull)) (\<lambda>step.
          case created of
            None \<Rightarrow> Inl Untyped
          | Some c \<Rightarrow>
              Inr \<lparr>ex_id = id, ex_recipe_name = recipe_name, ex_status = status, ex_params = get_or d ''params'' (JObj []),
                   ex_created_at = c, ex_started_at = started, ex_completed_at = completed,
                   ex_data = get_or d ''data'' JNull, ex_error = get_or d ''error'' JNull, ex_exit_code = exit_code,
                   ex_runtime = runtime, ex_duration_ms = duration, ex_timeout_seconds = timeout, ex_source = source,
                   ex_workflow_id = workflow, ex_step_index = step\<rparr>)))))))))))))
      | _ \<Rightarrow> Inl TypeErr)"

definition create_execution ::
    "datetime \<Rightarrow> string \<Rightarrow> string \<Rightarrow> json \<Rightarrow> string option \<Rightarrow> int option \<Rightarrow> string option \<Rightarrow> int option \<Rightarrow> execution" where
  "create_execution clock hex recipe_name params source timeout_seconds workflow_id step_index =
     \<lparr>ex_id = generate_execution_id hex, ex_recipe_name = recipe_name, ex_status = PENDING, ex_params = params,
      ex_created_at = clock, ex_started_at = None, ex_completed_at = None, ex_data = JNull, ex_error = JNull,
      ex_exit_code = None, ex_runtime = None, ex_duration_ms = None, ex_timeout_seconds = timeout_seconds,
      ex_source = source, ex_workflow_id = workflow_id, ex_step_index = step_index\<rparr>"

subsection \<open>Lemmas\<close>

lemma status_of_value [simp]: "status_of (status_value x) = Some x"
  by (cases x) (simp_all add: status_of_def)

lemma status_of_Some: "status_of s = Some x \<longleftrightarrow> s = status_value x"
proof
  assume "status_of s = Some x"
  then show "s = status_value x" unfolding status_of_def by (metis (mono_tags, lifting) find_Some_iff)
qed simp

lemma as_opt_simps [simp]: "as_str_opt (j_str x) = Inr x" "as_int_opt (j_int n) = Inr n"
  by (cases x; simp add: j_str_def) (cases n; simp add: j_int_def)

text \<open>A reading that comes back from its own text.\<close>

definition reads_back :: "(string \<Rightarrow> datetime option) \<Rightarrow> datetime \<Rightarrow> bool" where
  "reads_back from_iso d \<longleftrightarrow> from_iso (dt_isoformat d) = Some d"

lemma parse_dt_iso:
  "reads_back from_iso d \<Longrightarrow> parse_dt from_iso (JStr (dt_isoformat d)) = Inr (Some d)"
  "(\<And>d. x = Some d \<Longrightarrow> reads_back from_iso d) \<Longrightarrow> parse_dt from_iso (j_str (map_option dt_isoformat x)) = Inr x"
  by (simp add: reads_back_def) (cases x; simp add: j_str_def reads_back_def)

definition dates_ok :: "(string \<Rightarrow> datetime option) \<Rightarrow> execution \<Rightarrow> bool" where
  "dates_ok from_iso e \<longleftrightarrow> reads_back from_iso (ex_created_at e)
     \<and> (\<forall>d. ex_started_at e = Some d \<longrightarrow> reads_back from_iso d) \<and> (\<forall>d. ex_completed_at e = Some d \<longrightarrow> reads_back from_iso d)"

lemma from_to_dict:
  assumes "dates_ok from_iso e"
  shows "from_dict from_iso (JObj (to_dict e)) = Inr e"
proof -
  have "parse_dt from_iso (j_str (map_option dt_isoformat (ex_started_at e))) = Inr (ex_started_at e)"
    "parse_dt from_iso (j_str (map_option dt_isoformat (ex_completed_at e))) = Inr (ex_completed_at e)"
    "parse_dt from_iso (JStr (dt_isoformat (ex_created_at e))) = Inr (Some (ex_created_at e))"
    using assms by (auto simp: dates_ok_def intro!: parse_dt_iso simp del: parse_dt.simps)
  then show ?thesis by (simp add: from_dict_def to_dict_def need_def get_or_def del: parse_dt.simps)
qed

lemma transition_to_facts:
  assumes "transition_to clock st e = Inr e'"
  shows "st \<in> VALID_TRANSITIONS (ex_status e)" "ex_status e' = st" "ex_id e' = ex_id e" "ex_created_at e' = ex_created_at e"
    "ex_recipe_name e' = ex_recipe_name e" "ex_workflow_id e' = ex_workflow_id e" "ex_completed_at e' = ex_completed_at e"
    "ex_started_at e' = (if st = RUNNING then Some clock else ex_started_at e)"
  using assms by (auto simp: transition_to_def Let_def split: if_splits)

text \<open>The rank of a state: every transition raises it.\<close>

fun status_rank :: "exec_status \<Rightarrow> nat" where
  "status_rank PENDING = 0"
| "status_rank RUNNING = 1"
| "status_rank _ = 2"

lemma transition_raises_rank: "y \<in> VALID_TRANSITIONS x \<Longrightarrow> status_rank x < status_rank y"
  by (cases x) auto

lemma terminal_rank: "VALID_TRANSITIONS x = {} \<longleftrightarrow> status_rank x = 2"
  by (cases x) auto

text \<open>What the state of a record says about its fields: a pending run has no results, and one that ran has a
  start time.\<close>

definition exec_ok :: "execution \<Rightarrow> bool" where
  "exec_ok e \<longleftrightarrow>
     (ex_status e = PENDING \<longrightarrow> ex_started_at e = None \<and> ex_completed_at e = None \<and> ex_data e = JNull \<and> ex_error e = JNull)
     \<and> (ex_status e \<in> {RUNNING, SUCCEEDED, FAILED, TIMEOUT} \<longrightarrow> ex_started_at e \<noteq> None)"

lemma exec_ok_create [simp]: "exec_ok (create_execution clock hex n p src to wid si)"
  by (simp add: exec_ok_def create_execution_def)

lemma exec_ok_transition:
  assumes "transition_to clock st e = Inr e'" "exec_ok e"
  shows "exec_ok e'" "ex_status e' \<noteq> PENDING"
  using assms by (cases "ex_status e"; auto simp: transition_to_def exec_ok_def Let_def split: if_splits)+

text \<open>a record survives its file. What \<open>to_dict\<close> writes, \<open>from_dict\<close> reads back as the same record, if the
  clock readings in it can be read back from their text.\<close>

theorem execution_roundtrip:
  assumes "dates_ok from_iso e"
  shows "from_dict from_iso (JObj (to_dict e)) = Inr e"
  by (rule from_to_dict [OF assms])

definition demo_now :: datetime where
  "demo_now = \<lparr>dt_year = 2026, dt_month = 3, dt_day = 9, dt_hour = 8, dt_minute = 5, dt_second = 0, dt_micro = 120\<rparr>"

definition demo_from_iso :: "string \<Rightarrow> datetime option" where
  "demo_from_iso s = (if s = ''2026-03-09T08:05:00.000120'' then Some demo_now else None)"

lemma demo_reads_back: "reads_back demo_from_iso demo_now"
  unfolding reads_back_def by code_simp

definition demo_execution :: execution where
  "demo_execution = create_execution demo_now ''0123456789ab'' ''board'' (JObj [(''day'', JNum 9)]) (Some ''User'') (Some 300) None None"

theorem execution_roundtrip_witness:
  "from_dict demo_from_iso (JObj (to_dict demo_execution)) = Inr demo_execution"
  by (rule execution_roundtrip)
    (simp add: demo_execution_def create_execution_def dates_ok_def demo_reads_back)

text \<open>A record with a status of another vocabulary is not skipped like an unreadable one: reading it raises.\<close>

theorem unknown_status_raises:
  "from_dict demo_from_iso (JObj (dict_set ''status'' (JStr ''paused'') (to_dict demo_execution))) = Inl ValueErr"
  by code_simp

end
