(* ===== verification/Execution_Store.thy ===== *)
theory Execution_Store
  imports Executions
begin

text \<open>
  \<open>recipes/execution_store.py\<close>: the records of all runs, one JSON file each under a directory per month, and
  an index of the latest ones. Every write may succeed, be refused by the disk, or (for a record, which is
  written in place) leave a torn file; the outcome is part of the moment of the call. The abstract
  store is a map from ids to records.
\<close>

subsection \<open>Parameters and state\<close>

text \<open>What the store asks of Python: the date parser, the length of \<open>json.dumps\<close>, \<open>str\<close> of a value, and
  \<open>rglob\<close>, which picks the matching paths out of those below the store in an order of its own.\<close>

record store_env =
  se_dir :: path
  se_from_iso :: "string \<Rightarrow> datetime option"
  se_dumps_len :: "json \<Rightarrow> nat"
  se_str :: "json \<Rightarrow> string"
  se_rglob :: "string \<Rightarrow> path list \<Rightarrow> path list"

datatype write_outcome = Written | Refused | Torn

record store_tick =
  xt_now :: datetime
  xt_hex :: string
  xt_save :: write_outcome
  xt_index :: write_outcome
  xt_unlink :: "path \<Rightarrow> bool"

record exec_store =
  xs_fs :: file_sys
  xs_count :: nat

definition MAX_STORED_DATA_SIZE :: nat where "MAX_STORED_DATA_SIZE = 102400"
definition DEFAULT_INDEX_LIMIT :: nat where "DEFAULT_INDEX_LIMIT = 200"
definition AUTO_CLEANUP_INTERVAL :: nat where "AUTO_CLEANUP_INTERVAL = 100"
definition AUTO_CLEANUP_MAX_COUNT :: nat where "AUTO_CLEANUP_MAX_COUNT = 1000"

definition index_file :: "store_env \<Rightarrow> path" where
  "index_file v = se_dir v @ [''index.json'']"

subsection \<open>Files\<close>

definition execution_dir :: "store_env \<Rightarrow> datetime \<Rightarrow> path" where
  "execution_dir v d = se_dir v @ [dec (dt_year d), pad 2 (dt_month d)]"

definition execution_file_path :: "store_env \<Rightarrow> execution \<Rightarrow> path" where
  "execution_file_path v e = path_join (execution_dir v (ex_created_at e)) (ex_id e @ ''.json'')"

text \<open>\<open>entry.get(k)\<close>: an entry that is not a dictionary has no \<open>get\<close>.\<close>

definition entry_get :: "json \<Rightarrow> string \<Rightarrow> load_error + json" where
  "entry_get j k = (case j of JObj d \<Rightarrow> Inr (get_or d k JNull) | _ \<Rightarrow> Inl AttributeErr)"

definition file_path_from_entry :: "store_env \<Rightarrow> json \<Rightarrow> load_error + path option" where
  "file_path_from_entry v entry =
     bindE (entry_get entry ''created_at'') (\<lambda>created.
     bindE (entry_get entry ''id'') (\<lambda>id.
     Inr (if \<not> truthy created \<or> \<not> truthy id then None
          else case created of
                 JStr s \<Rightarrow>
                   map_option (\<lambda>d. path_join (execution_dir v d) ((case id of JStr i \<Rightarrow> i | _ \<Rightarrow> se_str v id) @ ''.json''))
                     (se_from_iso v s)
               | _ \<Rightarrow> None)))"

definition save_execution :: "store_env \<Rightarrow> store_tick \<Rightarrow> execution \<Rightarrow> file_sys \<Rightarrow> file_sys" where
  "save_execution v t e fs =
     (let p = execution_file_path v e; fs1 = mkdir_parents (butlast p) fs
      in case xt_save t of
           Written \<Rightarrow> write_file 420 p (Parsed (JObj (to_dict e))) fs1
         | Refused \<Rightarrow> fs
         | Torn \<Rightarrow> write_file 420 p Unparsable fs1)"

definition load_execution_file :: "store_env \<Rightarrow> path \<Rightarrow> file_sys \<Rightarrow> load_error + execution option" where
  "load_execution_file v p fs =
     (case dict_get (fs_files fs) p of
        None \<Rightarrow> Inr None
      | Some f \<Rightarrow>
          (case f_text f of
             Unparsable \<Rightarrow> Inr None
           | Parsed j \<Rightarrow> (case from_dict (se_from_iso v) j of Inr e \<Rightarrow> Inr (Some e) | Inl (KeyErr k) \<Rightarrow> Inr None | Inl err \<Rightarrow> Inl err)))"

definition load_index :: "store_env \<Rightarrow> file_sys \<Rightarrow> json list" where
  "load_index v fs =
     (case dict_get (fs_files fs) (index_file v) of
        Some f \<Rightarrow> (case f_text f of Parsed (JList l) \<Rightarrow> l | _ \<Rightarrow> [])
      | None \<Rightarrow> [])"

text \<open>The index is written to \<open>index.tmp\<close> and moved into place; a failure leaves the old index.\<close>

definition save_index :: "store_env \<Rightarrow> store_tick \<Rightarrow> json list \<Rightarrow> file_sys \<Rightarrow> file_sys" where
  "save_index v t index fs =
     (let fs1 = mkdir_parents (se_dir v) fs; tmp = se_dir v @ [''index.tmp'']
      in case xt_index t of
           Written \<Rightarrow> write_file 420 (index_file v) (Parsed (JList index)) (remove_file tmp fs1)
         | Refused \<Rightarrow> fs
         | Torn \<Rightarrow> write_file 420 tmp Unparsable fs1)"

subsection \<open>The index\<close>

definition index_entry :: "execution \<Rightarrow> json" where
  "index_entry e =
     JObj [(''id'', JStr (ex_id e)), (''recipe_name'', JStr (ex_recipe_name e)), (''status'', JStr (status_value (ex_status e))),
           (''created_at'', JStr (dt_isoformat (ex_created_at e))), (''workflow_id'', j_str (ex_workflow_id e))]"

text \<open>The loop that replaces the first entry of that id; None if there is none.\<close>

fun replace_entry :: "string \<Rightarrow> json \<Rightarrow> json list \<Rightarrow> load_error + json list option" where
  "replace_entry i new [] = Inr None"
| "replace_entry i new (x # xs) =
     bindE (entry_get x ''id'') (\<lambda>j.
       if j = JStr i then Inr (Some (new # xs))
       else bindE (replace_entry i new xs) (\<lambda>r. Inr (map_option (\<lambda>l. x # l) r)))"

definition update_index :: "store_env \<Rightarrow> store_tick \<Rightarrow> execution \<Rightarrow> file_sys \<Rightarrow> load_error + file_sys" where
  "update_index v t e fs =
     (let index = load_index v fs; new = index_entry e
      in bindE (replace_entry (ex_id e) new index) (\<lambda>r.
         let index1 = (case r of Some l \<Rightarrow> l | None \<Rightarrow> new # index);
             index2 = (if length index1 > DEFAULT_INDEX_LIMIT then take DEFAULT_INDEX_LIMIT index1 else index1)
         in Inr (save_index v t index2 fs)))"

subsection \<open>Operations\<close>

text \<open>Dropping the entries past \<open>max_count\<close>: an entry whose file could not be removed is kept, one without
  a file is dropped.\<close>

fun drop_entries :: "store_env \<Rightarrow> store_tick \<Rightarrow> json list \<Rightarrow> file_sys \<Rightarrow> load_error + nat \<times> json list \<times> file_sys" where
  "drop_entries v t [] fs = Inr (0, [], fs)"
| "drop_entries v t (x # xs) fs =
     bindE (file_path_from_entry v x) (\<lambda>p.
       case p of
         Some q \<Rightarrow>
           if is_file fs q
           then (if xt_unlink t q
                 then bindE (drop_entries v t xs (remove_file q fs)) (\<lambda>(n, kept, fs'). Inr (Suc n, kept, fs'))
                 else bindE (drop_entries v t xs fs) (\<lambda>(n, kept, fs'). Inr (n, x # kept, fs')))
           else drop_entries v t xs fs
       | None \<Rightarrow> drop_entries v t xs fs)"

definition cleanup :: "store_env \<Rightarrow> store_tick \<Rightarrow> nat \<Rightarrow> file_sys \<Rightarrow> load_error + nat \<times> file_sys" where
  "cleanup v t max_count fs =
     (let index = load_index v fs
      in if length index \<le> max_count then Inr (0, fs)
         else bindE (drop_entries v t (drop max_count index) fs) (\<lambda>(n, kept, fs').
                Inr (n, save_index v t (take max_count index @ kept) fs')))"

text \<open>An exception of the automatic cleanup is logged and forgotten.\<close>

definition maybe_cleanup :: "store_env \<Rightarrow> store_tick \<Rightarrow> exec_store \<Rightarrow> exec_store" where
  "maybe_cleanup v t s =
     (let s1 = s\<lparr>xs_count := Suc (xs_count s)\<rparr>
      in if xs_count s1 mod AUTO_CLEANUP_INTERVAL = 0
         then (case cleanup v t AUTO_CLEANUP_MAX_COUNT (xs_fs s1) of Inr (n, fs) \<Rightarrow> s1\<lparr>xs_fs := fs\<rparr> | Inl _ \<Rightarrow> s1)
         else s1)"

definition save_and_index :: "store_env \<Rightarrow> store_tick \<Rightarrow> execution \<Rightarrow> exec_store \<Rightarrow> (exec_error + execution) \<times> exec_store" where
  "save_and_index v t e s =
     (let s1 = s\<lparr>xs_fs := save_execution v t e (xs_fs s)\<rparr>
      in case update_index v t e (xs_fs s1) of
           Inl err \<Rightarrow> (Inl (LoadError err), s1)
         | Inr fs \<Rightarrow> (Inr e, s1\<lparr>xs_fs := fs\<rparr>))"

definition create ::
    "store_env \<Rightarrow> store_tick \<Rightarrow> string \<Rightarrow> json \<Rightarrow> string option \<Rightarrow> int option \<Rightarrow> string option \<Rightarrow> int option \<Rightarrow> exec_store \<Rightarrow>
     (exec_error + execution) \<times> exec_store" where
  "create v t recipe_name params source timeout_seconds workflow_id step_index s =
     (case save_and_index v t
             (create_execution (xt_now t) (xt_hex t) recipe_name params source timeout_seconds workflow_id step_index) s of
        (Inl err, s1) \<Rightarrow> (Inl err, s1)
      | (Inr e, s1) \<Rightarrow> (Inr e, maybe_cleanup v t s1))"

text \<open>The loop of \<open>get\<close> over the index: the first entry of that id whose file exists decides.\<close>

fun get_indexed :: "store_env \<Rightarrow> string \<Rightarrow> json list \<Rightarrow> file_sys \<Rightarrow> load_error + execution option option" where
  "get_indexed v i [] fs = Inr None"
| "get_indexed v i (x # xs) fs =
     bindE (entry_get x ''id'') (\<lambda>j.
       if j = JStr i
       then bindE (file_path_from_entry v x) (\<lambda>p.
              case p of
                Some q \<Rightarrow> if is_file fs q then bindE (load_execution_file v q fs) (\<lambda>r. Inr (Some r)) else get_indexed v i xs fs
              | None \<Rightarrow> get_indexed v i xs fs)
       else get_indexed v i xs fs)"

definition get_execution :: "store_env \<Rightarrow> string \<Rightarrow> exec_store \<Rightarrow> load_error + execution option" where
  "get_execution v i s =
     bindE (get_indexed v i (load_index v (xs_fs s)) (xs_fs s)) (\<lambda>r.
       case r of
         Some x \<Rightarrow> Inr x
       | None \<Rightarrow>
           (case se_rglob v (i @ ''.json'') (map fst (fs_files (xs_fs s))) of
              [] \<Rightarrow> Inr None
            | p # _ \<Rightarrow> load_execution_file v p (xs_fs s)))"

definition transition ::
    "store_env \<Rightarrow> store_tick \<Rightarrow> string \<Rightarrow> exec_status \<Rightarrow> exec_store \<Rightarrow> (exec_error + execution) \<times> exec_store" where
  "transition v t i new_status s =
     (case get_execution v i s of
        Inl err \<Rightarrow> (Inl (LoadError err), s)
      | Inr None \<Rightarrow> (Inl (NotFound i), s)
      | Inr (Some e) \<Rightarrow>
          (case transition_to (xt_now t) new_status e of
             Inl err \<Rightarrow> (Inl err, s)
           | Inr e' \<Rightarrow> save_and_index v t e' s))"

definition truncate_data :: "store_env \<Rightarrow> json \<Rightarrow> json" where
  "truncate_data v j =
     (if j \<noteq> JNull \<and> se_dumps_len v j > MAX_STORED_DATA_SIZE
      then JObj [(''_truncated'', JBool True), (''keys'', case j of JObj d \<Rightarrow> JList (map (JStr \<circ> fst) d) | _ \<Rightarrow> JNull)]
      else j)"

definition completed ::
    "store_env \<Rightarrow> datetime \<Rightarrow> json \<Rightarrow> json \<Rightarrow> int option \<Rightarrow> int option \<Rightarrow> string option \<Rightarrow> execution \<Rightarrow> execution" where
  "completed v clock result err exit_code duration_ms runtime e =
     e\<lparr>ex_completed_at := Some clock, ex_exit_code := exit_code, ex_duration_ms := duration_ms,
       ex_runtime := (if runtime \<noteq> None then runtime else ex_runtime e), ex_data := truncate_data v result, ex_error := err\<rparr>"

definition complete_execution ::
    "store_env \<Rightarrow> store_tick \<Rightarrow> string \<Rightarrow> exec_status \<Rightarrow> json \<Rightarrow> json \<Rightarrow> int option \<Rightarrow> int option \<Rightarrow> string option \<Rightarrow> exec_store \<Rightarrow>
     (exec_error + execution) \<times> exec_store" where
  "complete_execution v t i new_status result err exit_code duration_ms runtime s =
     (case get_execution v i s of
        Inl x \<Rightarrow> (Inl (LoadError x), s)
      | Inr None \<Rightarrow> (Inl (NotFound i), s)
      | Inr (Some e) \<Rightarrow>
          (case transition_to (xt_now t) new_status e of
             Inl x \<Rightarrow> (Inl x, s)
           | Inr e' \<Rightarrow> save_and_index v t (completed v (xt_now t) result err exit_code duration_ms runtime e') s))"

subsection \<open>Listing\<close>

text \<open>The two filters of \<open>list_recent\<close>: whether an entry is skipped. An entry is consulted only if the filter is set.\<close>

definition other_name :: "string option \<Rightarrow> json \<Rightarrow> load_error + bool" where
  "other_name name x =
     (case name of
        Some m \<Rightarrow> if m = [] then Inr False else bindE (entry_get x ''recipe_name'') (\<lambda>n. Inr (n \<noteq> JStr m))
      | None \<Rightarrow> Inr False)"

definition other_status :: "exec_status option \<Rightarrow> json \<Rightarrow> load_error + bool" where
  "other_status st x =
     (case st of
        Some y \<Rightarrow> bindE (entry_get x ''status'') (\<lambda>u. Inr (u \<noteq> JStr (status_value y)))
      | None \<Rightarrow> Inr False)"

fun select_entries :: "string option \<Rightarrow> exec_status option \<Rightarrow> int \<Rightarrow> json list \<Rightarrow> json list \<Rightarrow> load_error + json list" where
  "select_entries name st limit acc [] = Inr acc"
| "select_entries name st limit acc (x # xs) =
     bindE (other_name name x) (\<lambda>skip.
       if skip then select_entries name st limit acc xs
       else bindE (other_status st x) (\<lambda>skip'.
         if skip' then select_entries name st limit acc xs
         else if int (length (acc @ [x])) \<ge> limit then Inr (acc @ [x])
         else select_entries name st limit (acc @ [x]) xs))"

definition load_entry :: "store_env \<Rightarrow> json \<Rightarrow> file_sys \<Rightarrow> load_error + execution option" where
  "load_entry v x fs =
     bindE (file_path_from_entry v x) (\<lambda>p.
       case p of Some q \<Rightarrow> if is_file fs q then load_execution_file v q fs else Inr None | None \<Rightarrow> Inr None)"

fun load_entries :: "store_env \<Rightarrow> json list \<Rightarrow> file_sys \<Rightarrow> load_error + execution list" where
  "load_entries v [] fs = Inr []"
| "load_entries v (x # xs) fs =
     bindE (load_entry v x fs) (\<lambda>r.
     bindE (load_entries v xs fs) (\<lambda>l. Inr (case r of Some e \<Rightarrow> e # l | None \<Rightarrow> l)))"

definition list_recent :: "store_env \<Rightarrow> string option \<Rightarrow> int \<Rightarrow> exec_status option \<Rightarrow> exec_store \<Rightarrow> load_error + execution list" where
  "list_recent v name limit st s =
     bindE (select_entries name st limit [] (load_index v (xs_fs s))) (\<lambda>l. load_entries v l (xs_fs s))"

fun load_workflow :: "store_env \<Rightarrow> string \<Rightarrow> json list \<Rightarrow> file_sys \<Rightarrow> load_error + execution list" where
  "load_workflow v w_id [] fs = Inr []"
| "load_workflow v w_id (x # xs) fs =
     bindE (entry_get x ''workflow_id'') (\<lambda>j.
     bindE (if j = JStr w_id then load_entry v x fs else Inr None) (\<lambda>r.
     bindE (load_workflow v w_id xs fs) (\<lambda>l. Inr (case r of Some e \<Rightarrow> e # l | None \<Rightarrow> l))))"

definition step_key :: "execution \<Rightarrow> bool \<times> int" where
  "step_key e = (ex_step_index e = None, case ex_step_index e of Some n \<Rightarrow> n | None \<Rightarrow> 0)"

definition list_by_workflow :: "store_env \<Rightarrow> string \<Rightarrow> exec_store \<Rightarrow> load_error + execution list" where
  "list_by_workflow v w_id s =
     bindE (load_workflow v w_id (load_index v (xs_fs s)) (xs_fs s)) (\<lambda>es. Inr (sort_key step_key es))"

subsection \<open>What the store promises\<close>

text \<open>Ids as they are generated: no character that is special in a path or a pattern, and not the name of
  the index.\<close>

definition plain_char :: "char \<Rightarrow> bool" where
  "plain_char c = (let n = (of_char c :: nat) in 48 \<le> n \<and> n \<le> 57 \<or> 65 \<le> n \<and> n \<le> 90 \<or> n = 95 \<or> 97 \<le> n \<and> n \<le> 122)"

definition plain_id :: "string \<Rightarrow> bool" where
  "plain_id i \<longleftrightarrow> i \<noteq> [] \<and> list_all plain_char i \<and> i \<noteq> ''index''"

text \<open>Documented behaviour of \<open>rglob\<close> on a pattern without special characters: the paths below the directory
  whose last component is that name.\<close>

definition rglob_ok :: "store_env \<Rightarrow> bool" where
  "rglob_ok v \<longleftrightarrow> (\<forall>i ps. plain_id i \<longrightarrow>
     set (se_rglob v (i @ ''.json'') ps) = {p \<in> set ps. strict_prefix (se_dir v) p \<and> last p = i @ ''.json''})"

text \<open>A call at which the disk accepts both writes and the clock can be read back.\<close>

definition good_tick :: "store_env \<Rightarrow> store_tick \<Rightarrow> bool" where
  "good_tick v t \<longleftrightarrow> xt_save t = Written \<and> xt_index t = Written \<and> reads_back (se_from_iso v) (xt_now t) \<and> list_all plain_char (xt_hex t)"

definition stored :: "store_env \<Rightarrow> (string \<rightharpoonup> execution) \<Rightarrow> file_sys \<Rightarrow> bool" where
  "stored v m fs \<longleftrightarrow> (\<forall>i e. m i = Some e \<longrightarrow> ex_id e = i \<and> plain_id i \<and> dates_ok (se_from_iso v) e \<and> exec_ok e
      \<and> map_option f_text (dict_get (fs_files fs) (execution_file_path v e)) = Some (Parsed (JObj (to_dict e))))
     \<and> (\<forall>p. is_file fs p \<longrightarrow> p \<in> {index_file v, se_dir v @ [''index.tmp'']} \<or> (\<exists>i e. m i = Some e \<and> p = execution_file_path v e))"

definition indexed :: "store_env \<Rightarrow> (string \<rightharpoonup> execution) \<Rightarrow> string list \<Rightarrow> file_sys \<Rightarrow> bool" where
  "indexed v m ids fs \<longleftrightarrow> load_index v fs = map (\<lambda>i. index_entry (the (m i))) ids
     \<and> distinct ids \<and> set ids \<subseteq> dom m \<and> length ids \<le> DEFAULT_INDEX_LIMIT"

definition store_inv :: "store_env \<Rightarrow> (string \<rightharpoonup> execution) \<Rightarrow> exec_store \<Rightarrow> bool" where
  "store_inv v m s \<longleftrightarrow> stored v m (xs_fs s) \<and> (\<exists>ids. indexed v m ids (xs_fs s))"

lemma plain_char_slash: "plain_char c \<Longrightarrow> c \<noteq> CHR ''/''"
  by (auto simp: plain_char_def Let_def)

lemma plain_one_component: "plain_id i \<Longrightarrow> one_component (i @ ''.json'')"
  by (auto simp: plain_id_def one_component_def list_all_iff dest: plain_char_slash)

lemma exec_path_plain:
  "plain_id (ex_id e) \<Longrightarrow> execution_file_path v e =
     se_dir v @ [dec (dt_year (ex_created_at e)), pad 2 (dt_month (ex_created_at e)), ex_id e @ ''.json'']"
  by (simp add: execution_file_path_def path_join_one_component plain_one_component execution_dir_def)

lemma exec_path_fresh:
  assumes "plain_id (ex_id e)"
  shows "execution_file_path v e \<noteq> index_file v" "execution_file_path v e \<noteq> se_dir v @ [''index.tmp'']"
    "strict_prefix (se_dir v) (execution_file_path v e)" "last (execution_file_path v e) = ex_id e @ ''.json''"
  by (simp_all add: exec_path_plain [OF assms] index_file_def strict_prefix_def)

lemma entry_get_index_entry [simp]:
  "entry_get (index_entry e) ''id'' = Inr (JStr (ex_id e))"
  "entry_get (index_entry e) ''created_at'' = Inr (JStr (dt_isoformat (ex_created_at e)))"
  "entry_get (index_entry e) ''recipe_name'' = Inr (JStr (ex_recipe_name e))"
  "entry_get (index_entry e) ''status'' = Inr (JStr (status_value (ex_status e)))"
  "entry_get (index_entry e) ''workflow_id'' = Inr (j_str (ex_workflow_id e))"
  by (simp_all add: entry_get_def index_entry_def get_or_def)

lemma dt_isoformat_ne [simp]: "dt_isoformat d \<noteq> []"
  by (simp add: dt_isoformat_def)

lemma file_path_from_index_entry:
  assumes "plain_id (ex_id e)" "dates_ok (se_from_iso v) e"
  shows "file_path_from_entry v (index_entry e) = Inr (Some (execution_file_path v e))"
  using assms by (simp add: file_path_from_entry_def dates_ok_def reads_back_def execution_file_path_def plain_id_def)

lemma storedD:
  assumes "stored v m fs" "m i = Some e"
  shows "ex_id e = i" "plain_id i" "plain_id (ex_id e)" "dates_ok (se_from_iso v) e" "is_file fs (execution_file_path v e)"
    "load_execution_file v (execution_file_path v e) fs = Inr (Some e)" "exec_ok e"
proof -
  have a: "ex_id e = i" "plain_id i" "dates_ok (se_from_iso v) e"
    "map_option f_text (dict_get (fs_files fs) (execution_file_path v e)) = Some (Parsed (JObj (to_dict e)))" "exec_ok e"
    using assms unfolding stored_def by blast+
  then show "ex_id e = i" "plain_id i" "plain_id (ex_id e)" "dates_ok (se_from_iso v) e" "exec_ok e" by simp_all
  from a(4) show "is_file fs (execution_file_path v e)" by (auto simp: is_file_def)
  from a(4) show "load_execution_file v (execution_file_path v e) fs = Inr (Some e)"
    by (auto simp: load_execution_file_def from_to_dict [OF a(3)])
qed

lemma load_entry_stored:
  "stored v m fs \<Longrightarrow> m i = Some e \<Longrightarrow> load_entry v (index_entry e) fs = Inr (Some e)"
  by (simp add: load_entry_def file_path_from_index_entry storedD)

lemma get_indexed_stored:
  assumes "stored v m fs" "set ids \<subseteq> dom m"
  shows "get_indexed v i (map (\<lambda>i. index_entry (the (m i))) ids) fs = Inr (if i \<in> set ids then Some (m i) else None)"
  using assms(2)
proof (induction ids)
  case (Cons k ids)
  then obtain e where e: "m k = Some e" by auto
  note f = storedD [OF assms(1) e]
  have "file_path_from_entry v (index_entry e) = Inr (Some (execution_file_path v e))"
    by (rule file_path_from_index_entry [OF f(3,4)])
  then show ?case using Cons f e by (cases "k = i") simp_all
qed simp

lemma rglob_stored:
  assumes "rglob_ok v" "stored v m fs" "plain_id i"
  shows "set (se_rglob v (i @ ''.json'') (map fst (fs_files fs))) = (case m i of None \<Rightarrow> {} | Some e \<Rightarrow> {execution_file_path v e})"
proof -
  have in_fs: "p \<in> set (map fst (fs_files fs)) \<longleftrightarrow> is_file fs p" for p
    by (auto simp: is_file_def map_of_eq_None_iff)
  have ni: "i @ ''.json'' \<noteq> ''index.json''" "i @ ''.json'' \<noteq> ''index.tmp''" using assms(3) by (auto simp: plain_id_def)
  have "p \<in> set (se_rglob v (i @ ''.json'') (map fst (fs_files fs))) \<longleftrightarrow> (\<exists>e. m i = Some e \<and> p = execution_file_path v e)" for p
  proof
    assume "p \<in> set (se_rglob v (i @ ''.json'') (map fst (fs_files fs)))"
    then have p: "is_file fs p" "last p = i @ ''.json''"
      using assms(1,3) in_fs by (auto simp: rglob_ok_def)
    then have "p \<noteq> index_file v" "p \<noteq> se_dir v @ [''index.tmp'']" using ni by (auto simp: index_file_def)
    then obtain k e where k: "m k = Some e" "p = execution_file_path v e"
      using p(1) assms(2) unfolding stored_def by blast
    have "ex_id e = i" using exec_path_fresh(4) [OF storedD(3) [OF assms(2) k(1)], of v] p(2) k(2) by simp
    then show "\<exists>e. m i = Some e \<and> p = execution_file_path v e" using k storedD(1) [OF assms(2) k(1)] by auto
  next
    assume "\<exists>e. m i = Some e \<and> p = execution_file_path v e"
    then obtain e where e: "m i = Some e" "p = execution_file_path v e" by blast
    note f = storedD [OF assms(2) e(1)]
    show "p \<in> set (se_rglob v (i @ ''.json'') (map fst (fs_files fs)))"
      using assms(1,3) in_fs f(5) exec_path_fresh [OF f(3), of v] e(2) f(1) by (auto simp: rglob_ok_def)
  qed
  then have "set (se_rglob v (i @ ''.json'') (map fst (fs_files fs))) = {p. \<exists>e. m i = Some e \<and> p = execution_file_path v e}"
    by blast
  then show ?thesis by (cases "m i") simp_all
qed

lemma get_stored:
  assumes "rglob_ok v" "store_inv v m s" "plain_id i"
  shows "get_execution v i s = Inr (m i)"
proof -
  obtain ids where ids: "indexed v m ids (xs_fs s)" and st: "stored v m (xs_fs s)" using assms(2) by (auto simp: store_inv_def)
  show ?thesis
  proof (cases "i \<in> set ids")
    case True
    then show ?thesis using ids get_indexed_stored [OF st, of ids i] by (simp add: get_execution_def indexed_def)
  next
    case False
    note g = rglob_stored [OF assms(1) st assms(3)]
    have "(case se_rglob v (i @ ''.json'') (map fst (fs_files (xs_fs s))) of [] \<Rightarrow> Inr None
        | p # _ \<Rightarrow> load_execution_file v p (xs_fs s)) = Inr (m i)"
    proof (cases "m i")
      case None
      then show ?thesis using g by simp
    next
      case (Some e)
      then obtain ps where "se_rglob v (i @ ''.json'') (map fst (fs_files (xs_fs s))) = execution_file_path v e # ps"
        using g by (cases "se_rglob v (i @ ''.json'') (map fst (fs_files (xs_fs s)))") auto
      then show ?thesis using storedD(6) [OF st Some] Some by simp
    qed
    then show ?thesis using False ids get_indexed_stored [OF st, of ids i] by (simp add: get_execution_def indexed_def)
  qed
qed

subsection \<open>Writing a record\<close>

lemma replace_entry_map:
  assumes "\<And>k. k \<in> set ids \<Longrightarrow> ex_id (f k) = k"
  shows "replace_entry i new (map (\<lambda>k. index_entry (f k)) ids) =
    Inr (if i \<in> set ids then Some (map (\<lambda>k. index_entry (f k)) (takeWhile (\<lambda>k. k \<noteq> i) ids) @ new #
      map (\<lambda>k. index_entry (f k)) (tl (dropWhile (\<lambda>k. k \<noteq> i) ids))) else None)"
  using assms by (induction ids) auto

lemma map_replaced:
  assumes "i \<in> set ids" "distinct ids"
  shows "map g (takeWhile (\<lambda>k. k \<noteq> i) ids) @ x # map g (tl (dropWhile (\<lambda>k. k \<noteq> i) ids)) = map (g(i := x)) ids"
  using assms
proof (induction ids)
  case (Cons k ids)
  show ?case
  proof (cases "k = i")
    case True
    then show ?thesis using Cons.prems by (auto intro: map_cong)
  next
    case False
    then show ?thesis using Cons by simp
  qed
qed simp

lemma dates_ok_simps:
  "reads_back f clock \<Longrightarrow> dates_ok f (create_execution clock hex n p src to wid si)"
  "transition_to clock st e = Inr e' \<Longrightarrow> dates_ok f e \<Longrightarrow> reads_back f clock \<Longrightarrow> dates_ok f e'"
  "dates_ok f e \<Longrightarrow> reads_back f clock \<Longrightarrow> dates_ok f (completed v clock r er ec du ru e)"
  by (auto simp: dates_ok_def create_execution_def completed_def dest: transition_to_facts split: if_splits)

lemma exec_ok_completed: "exec_ok e \<Longrightarrow> ex_status e \<noteq> PENDING \<Longrightarrow> exec_ok (completed v clock r er ec du ru e)"
  by (auto simp: exec_ok_def completed_def)

lemma save_execution_files:
  "good_tick v t \<Longrightarrow> dict_get (fs_files (save_execution v t e fs)) q =
     (if q = execution_file_path v e then Some \<lparr>f_mode = 420, f_text = Parsed (JObj (to_dict e))\<rparr> else dict_get (fs_files fs) q)"
  by (simp add: save_execution_def good_tick_def Let_def)

lemma save_index_files:
  "good_tick v t \<Longrightarrow> dict_get (fs_files (save_index v t l fs)) q =
     (if q = index_file v then Some \<lparr>f_mode = 420, f_text = Parsed (JList l)\<rparr>
      else if q = se_dir v @ [''index.tmp''] then None else dict_get (fs_files fs) q)"
  by (simp add: save_index_def good_tick_def Let_def)

text \<open>The index after the update: the entry of the record replaced in place, or put in front.\<close>

definition reindexed :: "string \<Rightarrow> string list \<Rightarrow> string list" where
  "reindexed i ids = take DEFAULT_INDEX_LIMIT (if i \<in> set ids then ids else i # ids)"

lemma reindexed_facts: "set (reindexed i ids) \<subseteq> insert i (set ids)" "distinct ids \<Longrightarrow> distinct (reindexed i ids)"
  using set_take_subset [of DEFAULT_INDEX_LIMIT "if i \<in> set ids then ids else i # ids"]
  by (auto simp: reindexed_def split: if_splits)

lemma update_index_map:
  assumes "load_index v fs = map (\<lambda>i. index_entry (the (m i))) ids" "distinct ids"
    and "\<And>k. k \<in> set ids \<Longrightarrow> ex_id (the (m k)) = k"
  shows "update_index v t e fs = Inr (save_index v t (map (\<lambda>i. index_entry (the ((m(ex_id e \<mapsto> e)) i))) (reindexed (ex_id e) ids)) fs)"
proof (cases "ex_id e \<in> set ids")
  case True
  have "(\<lambda>k. index_entry (the (m k)))(ex_id e := index_entry e) = (\<lambda>i. index_entry (the ((m(ex_id e \<mapsto> e)) i)))"
    by (rule ext) simp
  then show ?thesis
    using True map_replaced [OF True assms(2), of "\<lambda>k. index_entry (the (m k))" "index_entry e"]
    by (simp add: update_index_def Let_def assms(1) replace_entry_map [OF assms(3)] reindexed_def take_map del: fun_upd_apply)
next
  case False
  then have "map (\<lambda>i. index_entry (the (m i))) ids = map (\<lambda>i. index_entry (the ((m(ex_id e \<mapsto> e)) i))) ids" by (auto intro: map_cong)
  then have "index_entry e # map (\<lambda>i. index_entry (the (m i))) ids = map (\<lambda>i. index_entry (the ((m(ex_id e \<mapsto> e)) i))) (ex_id e # ids)" by simp
  then show ?thesis using False
    by (simp add: update_index_def Let_def assms(1) replace_entry_map [OF assms(3)] reindexed_def take_map del: fun_upd_apply list.map)
qed

lemma stored_update:
  assumes st: "stored v m fs" and e: "plain_id (ex_id e)" "dates_ok (se_from_iso v) e" "exec_ok e"
    and same: "\<And>e0. m (ex_id e) = Some e0 \<Longrightarrow> ex_created_at e0 = ex_created_at e"
    and content: "map_option f_text (dict_get (fs_files fs') (execution_file_path v e)) = Some (Parsed (JObj (to_dict e)))"
    and rest: "\<And>q. q \<notin> {index_file v, se_dir v @ [''index.tmp''], execution_file_path v e} \<Longrightarrow> dict_get (fs_files fs') q = dict_get (fs_files fs) q"
  shows "stored v (m(ex_id e \<mapsto> e)) fs'"
proof -
  let ?p = "execution_file_path v e" and ?m = "m(ex_id e \<mapsto> e)"
  have old: "execution_file_path v e0 \<notin> {index_file v, se_dir v @ [''index.tmp''], ?p}" if "m i = Some e0" "i \<noteq> ex_id e" for i e0
    using that storedD(1,3) [OF st that(1)] exec_path_fresh [of e0 v] exec_path_fresh(4) [OF e(1), of v] by auto
  have "p \<in> {index_file v, se_dir v @ [''index.tmp'']} \<or> (\<exists>i x. ?m i = Some x \<and> p = execution_file_path v x)" if "is_file fs' p" for p
  proof (cases "p \<in> {index_file v, se_dir v @ [''index.tmp''], ?p}")
    case False
    then have "is_file fs p" using that rest by (simp add: is_file_def)
    then obtain i x where x: "m i = Some x" "p = execution_file_path v x" using False st by (auto simp: stored_def)
    have "i \<noteq> ex_id e"
    proof
      assume "i = ex_id e"
      then have "p = ?p" using x same [of x] storedD(1) [OF st x(1)] by (simp add: execution_file_path_def)
      then show False using False by simp
    qed
    then show ?thesis using x by (metis fun_upd_other)
  qed auto
  moreover have "ex_id x = i \<and> plain_id i \<and> dates_ok (se_from_iso v) x \<and> exec_ok x
      \<and> map_option f_text (dict_get (fs_files fs') (execution_file_path v x)) = Some (Parsed (JObj (to_dict x)))" if "?m i = Some x" for i x
  proof (cases "i = ex_id e")
    case False
    then have mi: "m i = Some x" using that by simp
    show ?thesis using rest [OF old [OF mi False]] mi st by (simp add: stored_def)
  qed (use that e content in simp)
  ultimately show ?thesis unfolding stored_def by blast
qed

lemma save_and_index_stored:
  assumes "stored v m (xs_fs s)" "indexed v m ids (xs_fs s)" "good_tick v t" "plain_id (ex_id e)" "dates_ok (se_from_iso v) e" "exec_ok e"
    and "\<And>e0. m (ex_id e) = Some e0 \<Longrightarrow> ex_created_at e0 = ex_created_at e"
  obtains s' where "save_and_index v t e s = (Inr e, s')" "stored v (m(ex_id e \<mapsto> e)) (xs_fs s')"
    "indexed v (m(ex_id e \<mapsto> e)) (reindexed (ex_id e) ids) (xs_fs s')" "xs_count s' = xs_count s"
proof -
  let ?m = "m(ex_id e \<mapsto> e)"
  define fs1 where "fs1 = save_execution v t e (xs_fs s)"
  define fs2 where "fs2 = save_index v t (map (\<lambda>i. index_entry (the (?m i))) (reindexed (ex_id e) ids)) fs1"
  note fr = exec_path_fresh [OF assms(4), of v]
  have li: "load_index v fs1 = map (\<lambda>i. index_entry (the (m i))) ids"
    using assms(2) fr(1) [symmetric] by (simp add: load_index_def fs1_def save_execution_files [OF assms(3)] indexed_def)
  have idk: "k \<in> set ids \<Longrightarrow> ex_id (the (m k)) = k" for k
    using assms(2) storedD(1) [OF assms(1)] by (force simp: indexed_def)
  have up: "update_index v t e fs1 = Inr fs2"
    unfolding fs2_def by (rule update_index_map [OF li _ idk]) (use assms(2) in \<open>auto simp: indexed_def\<close>)
  have "set (reindexed (ex_id e) ids) \<subseteq> dom ?m" "distinct (reindexed (ex_id e) ids)"
    using assms(2) reindexed_facts(1) [of "ex_id e" ids] reindexed_facts(2) [of ids "ex_id e"] by (auto simp: indexed_def)
  then have "indexed v ?m (reindexed (ex_id e) ids) fs2"
    by (simp add: indexed_def load_index_def fs2_def save_index_files [OF assms(3)]) (simp add: reindexed_def)
  moreover have "stored v ?m fs2"
    by (rule stored_update [OF assms(1,4,5,6,7)])
      (use fr in \<open>auto simp: fs2_def fs1_def save_index_files [OF assms(3)] save_execution_files [OF assms(3)]\<close>)
  moreover have "save_and_index v t e s = (Inr e, s\<lparr>xs_fs := fs2\<rparr>)"
    using up by (simp add: save_and_index_def Let_def fs1_def)
  ultimately show ?thesis by (intro that [of "s\<lparr>xs_fs := fs2\<rparr>"]) simp_all
qed

subsection \<open>Automatic cleanup\<close>

text \<open>The index never grows past 200 entries, and the automatic cleanup keeps the first 1000.\<close>

lemma cleanup_idle: "indexed v m ids fs \<Longrightarrow> cleanup v t AUTO_CLEANUP_MAX_COUNT fs = Inr (0, fs)"
  by (simp add: cleanup_def indexed_def AUTO_CLEANUP_MAX_COUNT_def DEFAULT_INDEX_LIMIT_def)

lemma maybe_cleanup_idle: "indexed v m ids (xs_fs s) \<Longrightarrow> xs_fs (maybe_cleanup v t s) = xs_fs s"
  by (simp add: maybe_cleanup_def Let_def cleanup_idle)

subsection \<open>The operations on the abstract store\<close>

definition spec_transition :: "datetime \<Rightarrow> string \<Rightarrow> exec_status \<Rightarrow> (string \<rightharpoonup> execution) \<Rightarrow> exec_error + execution" where
  "spec_transition clock i st m = (case m i of None \<Rightarrow> Inl (NotFound i) | Some e \<Rightarrow> transition_to clock st e)"

lemma generated_plain: "list_all plain_char hex \<Longrightarrow> plain_id (generate_execution_id hex)"
  by (auto simp: plain_id_def generate_execution_id_def list_all_iff plain_char_def dest: in_set_takeD)

lemma create_stored:
  assumes "stored v m (xs_fs s)" "indexed v m ids (xs_fs s)" "good_tick v t" "m (generate_execution_id (xt_hex t)) = None"
    and e_def: "e = create_execution (xt_now t) (xt_hex t) n p src to wid si"
  obtains s' where "create v t n p src to wid si s = (Inr e, s')" "stored v (m(ex_id e \<mapsto> e)) (xs_fs s')"
    "indexed v (m(ex_id e \<mapsto> e)) (reindexed (ex_id e) ids) (xs_fs s')"
proof -
  have i: "ex_id e = generate_execution_id (xt_hex t)" by (simp add: e_def create_execution_def)
  have pl: "plain_id (ex_id e)" using assms(3) generated_plain by (simp add: i good_tick_def)
  have dt: "dates_ok (se_from_iso v) e" using assms(3) by (simp add: e_def good_tick_def dates_ok_simps(1))
  obtain s' where s': "save_and_index v t e s = (Inr e, s')" "stored v (m(ex_id e \<mapsto> e)) (xs_fs s')"
    "indexed v (m(ex_id e \<mapsto> e)) (reindexed (ex_id e) ids) (xs_fs s')"
    by (rule save_and_index_stored [OF assms(1-3) pl dt]) (use assms(4) i in \<open>auto simp: e_def\<close>)
  have "create v t n p src to wid si s = (Inr e, maybe_cleanup v t s')" using s'(1) by (simp add: create_def e_def)
  then show ?thesis using s' maybe_cleanup_idle [OF s'(3), of t] by (intro that [of "maybe_cleanup v t s'"]) simp_all
qed

lemma transition_stored:
  assumes "rglob_ok v" "stored v m (xs_fs s)" "indexed v m ids (xs_fs s)" "good_tick v t" "plain_id i"
  shows "spec_transition (xt_now t) i st m = Inl err \<Longrightarrow> transition v t i st s = (Inl err, s)"
    and "spec_transition (xt_now t) i st m = Inr e \<Longrightarrow>
      \<exists>s'. transition v t i st s = (Inr e, s') \<and> stored v (m(i \<mapsto> e)) (xs_fs s') \<and> indexed v (m(i \<mapsto> e)) (reindexed i ids) (xs_fs s')"
proof -
  have g: "get_execution v i s = Inr (m i)" by (rule get_stored [OF assms(1) _ assms(5)]) (use assms(2,3) in \<open>auto simp: store_inv_def\<close>)
  show "spec_transition (xt_now t) i st m = Inl err \<Longrightarrow> transition v t i st s = (Inl err, s)"
    by (auto simp: transition_def g spec_transition_def split: option.splits)
  assume "spec_transition (xt_now t) i st m = Inr e"
  then obtain e0 where e0: "m i = Some e0" "transition_to (xt_now t) st e0 = Inr e" by (auto simp: spec_transition_def split: option.splits)
  note f = transition_to_facts [OF e0(2)] storedD [OF assms(2) e0(1)]
  have i: "ex_id e = i" using f(3,9) by simp
  have dt: "dates_ok (se_from_iso v) e" by (rule dates_ok_simps(2) [OF e0(2) f(12)]) (use assms(4) in \<open>simp add: good_tick_def\<close>)
  obtain s' where "save_and_index v t e s = (Inr e, s')" "stored v (m(ex_id e \<mapsto> e)) (xs_fs s')"
    "indexed v (m(ex_id e \<mapsto> e)) (reindexed (ex_id e) ids) (xs_fs s')"
    by (rule save_and_index_stored [OF assms(2-4) _ dt exec_ok_transition(1) [OF e0(2) f(15)]]) (use e0 f i in auto)
  then show "\<exists>s'. transition v t i st s = (Inr e, s') \<and> stored v (m(i \<mapsto> e)) (xs_fs s') \<and> indexed v (m(i \<mapsto> e)) (reindexed i ids) (xs_fs s')"
    using e0 i by (auto simp: transition_def g)
qed

lemma complete_stored:
  assumes "rglob_ok v" "stored v m (xs_fs s)" "indexed v m ids (xs_fs s)" "good_tick v t" "plain_id i"
  shows "spec_transition (xt_now t) i st m = Inl err \<Longrightarrow> complete_execution v t i st res er ec du ru s = (Inl err, s)"
    and "spec_transition (xt_now t) i st m = Inr e0 \<Longrightarrow> e = completed v (xt_now t) res er ec du ru e0 \<Longrightarrow>
      \<exists>s'. complete_execution v t i st res er ec du ru s = (Inr e, s') \<and> stored v (m(i \<mapsto> e)) (xs_fs s')
        \<and> indexed v (m(i \<mapsto> e)) (reindexed i ids) (xs_fs s')"
proof -
  have g: "get_execution v i s = Inr (m i)" by (rule get_stored [OF assms(1) _ assms(5)]) (use assms(2,3) in \<open>auto simp: store_inv_def\<close>)
  show "spec_transition (xt_now t) i st m = Inl err \<Longrightarrow> complete_execution v t i st res er ec du ru s = (Inl err, s)"
    by (auto simp: complete_execution_def g spec_transition_def split: option.splits)
  assume sp: "spec_transition (xt_now t) i st m = Inr e0" and e: "e = completed v (xt_now t) res er ec du ru e0"
  obtain x where x: "m i = Some x" "transition_to (xt_now t) st x = Inr e0" using sp by (auto simp: spec_transition_def split: option.splits)
  note f = transition_to_facts [OF x(2)] storedD [OF assms(2) x(1)]
  have i: "ex_id e = i" "ex_created_at e = ex_created_at x" using f(3,4,9) by (simp_all add: e completed_def)
  have rb: "reads_back (se_from_iso v) (xt_now t)" using assms(4) by (simp add: good_tick_def)
  have ok: "exec_ok e" unfolding e by (rule exec_ok_completed) (use exec_ok_transition [OF x(2) f(15)] in auto)
  have dt: "dates_ok (se_from_iso v) e" unfolding e by (rule dates_ok_simps(3) [OF dates_ok_simps(2) [OF x(2) f(12) rb] rb])
  obtain s' where "save_and_index v t e s = (Inr e, s')" "stored v (m(ex_id e \<mapsto> e)) (xs_fs s')"
    "indexed v (m(ex_id e \<mapsto> e)) (reindexed (ex_id e) ids) (xs_fs s')"
    by (rule save_and_index_stored [OF assms(2-4) _ dt ok]) (use x f i in auto)
  then show "\<exists>s'. complete_execution v t i st res er ec du ru s = (Inr e, s') \<and> stored v (m(i \<mapsto> e)) (xs_fs s')
      \<and> indexed v (m(i \<mapsto> e)) (reindexed i ids) (xs_fs s')"
    using x i by (auto simp: complete_execution_def g e)
qed

subsection \<open>Any sequence of calls\<close>

definition empty_store :: exec_store where
  "empty_store = \<lparr>xs_fs = \<lparr>fs_files = [], fs_dirs = []\<rparr>, xs_count = 0\<rparr>"

text \<open>One call on the store; failing calls included. A new id is one that no record has. Another instance of
  the class on the same files starts its count anew.\<close>

inductive store_step :: "store_env \<Rightarrow> exec_store \<Rightarrow> exec_store \<Rightarrow> bool" for v where
  created: "good_tick v t \<Longrightarrow> get_execution v (generate_execution_id (xt_hex t)) s = Inr None \<Longrightarrow>
    store_step v s (snd (create v t n p src to wid si s))"
| moved: "good_tick v t \<Longrightarrow> plain_id i \<Longrightarrow> store_step v s (snd (transition v t i st s))"
| finished: "good_tick v t \<Longrightarrow> plain_id i \<Longrightarrow> store_step v s (snd (complete_execution v t i st res er ec du ru s))"
| reopened: "store_step v s (s\<lparr>xs_count := 0\<rparr>)"

text \<open>A record only advances: its state rises and what it was created with stays.\<close>

definition grown :: "execution \<Rightarrow> execution \<Rightarrow> bool" where
  "grown e e' \<longleftrightarrow> e' = e \<or> status_rank (ex_status e) < status_rank (ex_status e') \<and> ex_id e' = ex_id e
     \<and> ex_recipe_name e' = ex_recipe_name e \<and> ex_params e' = ex_params e \<and> ex_created_at e' = ex_created_at e
     \<and> ex_workflow_id e' = ex_workflow_id e"

lemma grown_refl [simp]: "grown e e"
  by (simp add: grown_def)

lemma grown_trans: "grown a b \<Longrightarrow> grown b c \<Longrightarrow> grown a c"
  by (auto simp: grown_def)

lemma grown_terminal: "grown e e' \<Longrightarrow> is_terminal e \<Longrightarrow> e' = e"
  by (cases "ex_status e'") (auto simp: grown_def is_terminal_def terminal_rank)

lemma transition_grown:
  assumes "transition_to clock st e = Inr e'"
  shows "grown e e'" "grown e (completed v clock res er ec du ru e')"
  using transition_to_facts [OF assms] transition_raises_rank [of st "ex_status e"] assms
  by (auto simp: grown_def completed_def transition_to_def Let_def split: if_splits)

definition evolves :: "(string \<rightharpoonup> execution) \<Rightarrow> (string \<rightharpoonup> execution) \<Rightarrow> bool" where
  "evolves m m' \<longleftrightarrow> (\<forall>i e. m i = Some e \<longrightarrow> (\<exists>e'. m' i = Some e' \<and> grown e e'))"

lemma evolves_refl [simp]: "evolves m m"
  by (auto simp: evolves_def)

lemma evolves_trans: "evolves a b \<Longrightarrow> evolves b c \<Longrightarrow> evolves a c"
  unfolding evolves_def by (meson grown_trans)

lemma evolves_upd: "(\<And>e0. m i = Some e0 \<Longrightarrow> grown e0 e) \<Longrightarrow> evolves m (m(i \<mapsto> e))"
  by (auto simp: evolves_def)

definition repr :: "store_env \<Rightarrow> exec_store \<Rightarrow> (string \<rightharpoonup> execution) \<Rightarrow> string list \<Rightarrow> bool" where
  "repr v s m ids \<longleftrightarrow> stored v m (xs_fs s) \<and> indexed v m ids (xs_fs s)"

lemma reprD: "repr v s m ids \<Longrightarrow> stored v m (xs_fs s)" "repr v s m ids \<Longrightarrow> indexed v m ids (xs_fs s)"
  by (simp_all add: repr_def)

lemma repr_empty: "repr v empty_store Map.empty []"
  by (simp add: repr_def empty_store_def stored_def indexed_def is_file_def load_index_def)

lemma repr_get: "rglob_ok v \<Longrightarrow> repr v s m ids \<Longrightarrow> plain_id i \<Longrightarrow> get_execution v i s = Inr (m i)"
  by (rule get_stored) (auto simp: repr_def store_inv_def)

lemma spec_transition_Inr:
  assumes "spec_transition clock i st m = Inr e"
  obtains e0 where "m i = Some e0" "transition_to clock st e0 = Inr e"
  using assms by (auto simp: spec_transition_def split: option.splits)

lemma step_repr:
  assumes "rglob_ok v" "repr v s m ids" "store_step v s s'"
  shows "\<exists>m' ids'. repr v s' m' ids' \<and> evolves m m'"
  using assms(3)
proof cases
  case (created t n p src to wid si)
  let ?e = "create_execution (xt_now t) (xt_hex t) n p src to wid si"
  have none: "m (generate_execution_id (xt_hex t)) = None"
    using repr_get [OF assms(1,2) generated_plain] created(2,3) by (simp add: good_tick_def)
  obtain s1 where "create v t n p src to wid si s = (Inr ?e, s1)" "repr v s1 (m(ex_id ?e \<mapsto> ?e)) (reindexed (ex_id ?e) ids)"
    by (rule create_stored [OF reprD [OF assms(2)] created(2), where e = ?e]) (use none in \<open>auto simp: repr_def\<close>)
  moreover have "evolves m (m(ex_id ?e \<mapsto> ?e))" using none by (intro evolves_upd) (simp add: create_execution_def)
  ultimately show ?thesis using created(1) by auto
next
  case (moved t i st)
  note r = transition_stored [OF assms(1) reprD [OF assms(2)] moved(2,3)]
  show ?thesis
  proof (cases "spec_transition (xt_now t) i st m")
    case (Inl err)
    then show ?thesis using r(1) [OF Inl] moved(1) assms(2) by (intro exI [of _ m] exI [of _ ids]) simp
  next
    case (Inr e)
    then obtain e0 where "m i = Some e0" "transition_to (xt_now t) st e0 = Inr e" by (rule spec_transition_Inr)
    then have "evolves m (m(i \<mapsto> e))" using transition_grown(1) by (intro evolves_upd) auto
    moreover obtain s1 where "transition v t i st s = (Inr e, s1)" "repr v s1 (m(i \<mapsto> e)) (reindexed i ids)"
      using r(2) [OF Inr] by (auto simp: repr_def)
    ultimately show ?thesis using moved(1) by auto
  qed
next
  case (finished t i st res er ec du ru)
  note r = complete_stored [OF assms(1) reprD [OF assms(2)] finished(2,3)]
  show ?thesis
  proof (cases "spec_transition (xt_now t) i st m")
    case (Inl err)
    then show ?thesis using r(1) [OF Inl] finished(1) assms(2) by (intro exI [of _ m] exI [of _ ids]) simp
  next
    case (Inr e)
    let ?e = "completed v (xt_now t) res er ec du ru e"
    obtain e0 where "m i = Some e0" "transition_to (xt_now t) st e0 = Inr e" using Inr by (rule spec_transition_Inr)
    then have "evolves m (m(i \<mapsto> ?e))" using transition_grown(2) by (intro evolves_upd) auto
    moreover obtain s1 where "complete_execution v t i st res er ec du ru s = (Inr ?e, s1)" "repr v s1 (m(i \<mapsto> ?e)) (reindexed i ids)"
      using r(2) [OF Inr refl, of res er ec du ru] by (auto simp: repr_def)
    ultimately show ?thesis using finished(1) by auto
  qed
next
  case reopened
  then show ?thesis using assms(2) by (intro exI [of _ m] exI [of _ ids]) (simp add: repr_def)
qed

lemma steps_repr:
  assumes "rglob_ok v" "(store_step v)\<^sup>*\<^sup>* s s'" "repr v s m ids"
  shows "\<exists>m' ids'. repr v s' m' ids' \<and> evolves m m'"
  using assms(2)
proof (induction rule: rtranclp_induct)
  case base
  then show ?case using assms(3) evolves_refl by blast
next
  case (step y z)
  then obtain m1 ids1 where "repr v y m1 ids1" "evolves m m1" by blast
  then show ?case using step_repr [OF assms(1) _ step(2)] evolves_trans by blast
qed

text \<open>The abstraction: what \<open>get\<close> finds under each plain id.\<close>

definition table :: "store_env \<Rightarrow> exec_store \<Rightarrow> string \<rightharpoonup> execution" where
  "table v s i = (if plain_id i then (case get_execution v i s of Inr x \<Rightarrow> x | Inl _ \<Rightarrow> None) else None)"

lemma repr_table:
  assumes "rglob_ok v" "repr v s m ids"
  shows "table v s = m"
proof
  fix i
  show "table v s i = m i"
  proof (cases "plain_id i")
    case True
    then show ?thesis using repr_get [OF assms] by (simp add: table_def)
  next
    case False
    then have "m i = None" using storedD(2) [OF reprD(1) [OF assms(2)], of i] by (cases "m i") auto
    then show ?thesis using False by (simp add: table_def)
  qed
qed

lemma reach_repr:
  assumes "rglob_ok v" "(store_step v)\<^sup>*\<^sup>* empty_store s"
  obtains ids where "repr v s (table v s) ids"
proof -
  obtain m ids where r: "repr v s m ids" using steps_repr [OF assms repr_empty] by blast
  then show ?thesis using that repr_table [OF assms(1) r] by simp
qed

subsection \<open>Listing a reachable store\<close>

definition wanted :: "string option \<Rightarrow> exec_status option \<Rightarrow> execution \<Rightarrow> bool" where
  "wanted name st e \<longleftrightarrow> (case name of Some m \<Rightarrow> m = [] \<or> ex_recipe_name e = m | None \<Rightarrow> True)
     \<and> (case st of Some y \<Rightarrow> ex_status e = y | None \<Rightarrow> True)"

lemma status_value_inj [simp]: "status_value x = status_value y \<longleftrightarrow> x = y"
  by (metis option.inject status_of_value)

lemma filters_index_entry:
  "\<exists>a b. other_name name (index_entry e) = Inr a \<and> other_status st (index_entry e) = Inr b \<and> (wanted name st e \<longleftrightarrow> \<not> a \<and> \<not> b)"
  by (auto simp: other_name_def other_status_def wanted_def split: option.split)

lemma select_entries_map:
  "int (length acc) < max 1 limit \<Longrightarrow>
   select_entries name st limit acc (map index_entry es) =
     Inr (acc @ map index_entry (take (nat (max 1 limit) - length acc) (filter (wanted name st) es)))"
proof (induction es arbitrary: acc)
  case (Cons e es)
  obtain a b where ab: "other_name name (index_entry e) = Inr a" "other_status st (index_entry e) = Inr b"
    "wanted name st e \<longleftrightarrow> \<not> a \<and> \<not> b" using filters_index_entry by blast
  show ?case
  proof (cases "wanted name st e")
    case False
    then show ?thesis using ab Cons.IH [OF Cons.prems] by (cases a; cases b; simp)
  next
    case w: True
    have "0 < nat (max 1 limit) - length acc" using Cons.prems by auto
    then obtain k where k: "nat (max 1 limit) - length acc = Suc k" by (cases "nat (max 1 limit) - length acc") auto
    show ?thesis
    proof (cases "int (length (acc @ [index_entry e])) \<ge> limit")
      case True
      then have "k = 0" using k Cons.prems by auto
      then show ?thesis using w ab k True by simp
    next
      case False
      then have "int (length (acc @ [index_entry e])) < max 1 limit" "nat (max 1 limit) - length (acc @ [index_entry e]) = k"
        using k by auto
      then show ?thesis using w ab k False Cons.IH [of "acc @ [index_entry e]"] by simp
    qed
  qed
qed simp

lemma load_entries_stored:
  "stored v m fs \<Longrightarrow> (\<And>e. e \<in> set es \<Longrightarrow> m (ex_id e) = Some e) \<Longrightarrow> load_entries v (map index_entry es) fs = Inr es"
proof (induction es)
  case (Cons e es)
  then show ?case using load_entry_stored [OF Cons.prems(1) Cons.prems(2) [of e]] by simp
qed simp

lemma load_workflow_stored:
  "stored v m fs \<Longrightarrow> (\<And>e. e \<in> set es \<Longrightarrow> m (ex_id e) = Some e) \<Longrightarrow>
   load_workflow v w_id (map index_entry es) fs = Inr (filter (\<lambda>e. ex_workflow_id e = Some w_id) es)"
proof (induction es)
  case (Cons e es)
  then show ?case using load_entry_stored [OF Cons.prems(1) Cons.prems(2) [of e]]
    by (cases "ex_workflow_id e") (simp_all add: j_str_def)
qed simp

subsection \<open>A store with one finished and one pending run\<close>

definition demo_env :: store_env where
  "demo_env = \<lparr>se_dir = [''/'', ''x''], se_from_iso = demo_from_iso, se_dumps_len = (\<lambda>_. 10), se_str = (\<lambda>_. []),
     se_rglob = (\<lambda>n. filter (\<lambda>p. strict_prefix [''/'', ''x''] p \<and> last p = n))\<rparr>"

definition demo_at :: "string \<Rightarrow> store_tick" where
  "demo_at hex = \<lparr>xt_now = demo_now, xt_hex = hex, xt_save = Written, xt_index = Written, xt_unlink = (\<lambda>_. True)\<rparr>"

lemma demo_env_ok: "rglob_ok demo_env"
  by (simp add: rglob_ok_def demo_env_def)

lemma demo_at_ok: "list_all plain_char hex \<Longrightarrow> good_tick demo_env (demo_at hex)"
  using demo_reads_back by (simp add: good_tick_def demo_env_def demo_at_def)

definition demo_created :: exec_store where
  "demo_created = snd (create demo_env (demo_at ''0123456789ab'') ''board'' (JObj [(''day'', JNum 9)]) (Some ''User'') (Some 300) None None empty_store)"

lemma demo_created_reach: "(store_step demo_env)\<^sup>*\<^sup>* empty_store demo_created"
proof -
  have g: "get_execution demo_env (generate_execution_id ''0123456789ab'') empty_store = Inr None" by code_simp
  have h: "good_tick demo_env (demo_at ''0123456789ab'')" by (rule demo_at_ok) code_simp
  have "store_step demo_env empty_store demo_created"
    unfolding demo_created_def by (rule created [OF h]) (use g in \<open>simp add: demo_at_def\<close>)
  then show ?thesis by blast
qed

lemma demo_created_table: "table demo_env demo_created ''exec_0123456789ab'' = Some demo_execution"
  by code_simp

subsection \<open>Properties\<close>

text \<open>C30: the store is a map from ids to records. After any calls at which the disk accepted the writes,
  \<open>get\<close> returns what the map holds, for every id and without raising; \<open>create\<close> adds one pending record under the
  new id; \<open>transition\<close> and \<open>complete\<close> do on the files what the checked transition does on the map, and a call that
  raises changes nothing. This does not depend on whether the record is still in the index.\<close>

theorem store_refines_map:
  assumes "rglob_ok v" "(store_step v)\<^sup>*\<^sup>* empty_store s" "good_tick v t" "plain_id i"
    and "e = create_execution (xt_now t) (xt_hex t) n p src to wid si" "table v s (ex_id e) = None"
  shows "get_execution v i s = Inr (table v s i)
    \<and> fst (create v t n p src to wid si s) = Inr e \<and> table v (snd (create v t n p src to wid si s)) = (table v s)(ex_id e \<mapsto> e)
    \<and> (case spec_transition (xt_now t) i st (table v s) of
          Inl err \<Rightarrow> transition v t i st s = (Inl err, s) \<and> complete_execution v t i st res er ec du ru s = (Inl err, s)
        | Inr e' \<Rightarrow> fst (transition v t i st s) = Inr e' \<and> table v (snd (transition v t i st s)) = (table v s)(i \<mapsto> e')
            \<and> fst (complete_execution v t i st res er ec du ru s) = Inr (completed v (xt_now t) res er ec du ru e')
            \<and> table v (snd (complete_execution v t i st res er ec du ru s)) = (table v s)(i \<mapsto> completed v (xt_now t) res er ec du ru e'))"
proof (intro conjI)
  obtain ids where r: "repr v s (table v s) ids" by (rule reach_repr [OF assms(1,2)])
  note rp = reprD [OF r]
  show "get_execution v i s = Inr (table v s i)" by (rule repr_get [OF assms(1) r assms(4)])
  have "table v s (generate_execution_id (xt_hex t)) = None" using assms(5,6) by (simp add: create_execution_def)
  then obtain s1 where s1: "create v t n p src to wid si s = (Inr e, s1)" "repr v s1 ((table v s)(ex_id e \<mapsto> e)) (reindexed (ex_id e) ids)"
    by (rule create_stored [OF rp assms(3) _ assms(5)]) (auto simp: repr_def)
  show "fst (create v t n p src to wid si s) = Inr e" "table v (snd (create v t n p src to wid si s)) = (table v s)(ex_id e \<mapsto> e)"
    using s1(1) repr_table [OF assms(1) s1(2)] by simp_all
  note tr = transition_stored [OF assms(1) rp assms(3,4)] and co = complete_stored [OF assms(1) rp assms(3,4)]
  show "case spec_transition (xt_now t) i st (table v s) of
          Inl err \<Rightarrow> transition v t i st s = (Inl err, s) \<and> complete_execution v t i st res er ec du ru s = (Inl err, s)
        | Inr e' \<Rightarrow> fst (transition v t i st s) = Inr e' \<and> table v (snd (transition v t i st s)) = (table v s)(i \<mapsto> e')
            \<and> fst (complete_execution v t i st res er ec du ru s) = Inr (completed v (xt_now t) res er ec du ru e')
            \<and> table v (snd (complete_execution v t i st res er ec du ru s)) = (table v s)(i \<mapsto> completed v (xt_now t) res er ec du ru e')"
  proof (cases "spec_transition (xt_now t) i st (table v s)")
    case (Inl err)
    then show ?thesis using tr(1) [OF Inl] co(1) [OF Inl] by simp
  next
    case (Inr e')
    obtain s2 where s2: "transition v t i st s = (Inr e', s2)" "repr v s2 ((table v s)(i \<mapsto> e')) (reindexed i ids)"
      using tr(2) [OF Inr] by (auto simp: repr_def)
    obtain s3 where s3: "complete_execution v t i st res er ec du ru s = (Inr (completed v (xt_now t) res er ec du ru e'), s3)"
      "repr v s3 ((table v s)(i \<mapsto> completed v (xt_now t) res er ec du ru e')) (reindexed i ids)"
      using co(2) [OF Inr refl, of res er ec du ru] by (auto simp: repr_def)
    show ?thesis using Inr s2(1) s3(1) repr_table [OF assms(1) s2(2)] repr_table [OF assms(1) s3(2)] by simp
  qed
qed

theorem store_refines_map_witness:
  "get_execution demo_env ''exec_0123456789ab'' demo_created = Inr (Some demo_execution)
   \<and> map_option ex_status (table demo_env (snd (transition demo_env (demo_at ''cd'') ''exec_0123456789ab'' RUNNING demo_created)) ''exec_0123456789ab'')
       = Some RUNNING"
proof -
  have t: "good_tick demo_env (demo_at ''cd'')" by (rule demo_at_ok) code_simp
  have i: "plain_id ''exec_0123456789ab''" by code_simp
  have n: "table demo_env demo_created (ex_id (create_execution (xt_now (demo_at ''cd'')) (xt_hex (demo_at ''cd'')) [] JNull None None None None)) = None"
    by code_simp
  have sp: "spec_transition (xt_now (demo_at ''cd'')) ''exec_0123456789ab'' RUNNING (table demo_env demo_created)
      = Inr (demo_execution\<lparr>ex_status := RUNNING, ex_started_at := Some demo_now\<rparr>)"
    by (simp add: spec_transition_def demo_created_table transition_to_def demo_at_def demo_execution_def create_execution_def)
  note r = store_refines_map [OF demo_env_ok demo_created_reach t i refl n, of RUNNING, unfolded sp demo_created_table]
  show ?thesis using r by simp
qed







text \<open>what the two listings return. Over the records of the index, in its order: \<open>list_recent\<close> gives the
  first ones that match both filters, as many as asked for but at least one if any matches, and \<open>list_by_workflow\<close>
  gives the steps of that workflow sorted by step, those without a step last. Neither raises.\<close>

theorem listings_exact:
  assumes "rglob_ok v" "(store_step v)\<^sup>*\<^sup>* empty_store s"
  shows "\<exists>es. load_index v (xs_fs s) = map index_entry es
    \<and> list_recent v name limit st s = Inr (take (nat (max 1 limit)) (filter (wanted name st) es))
    \<and> list_by_workflow v w_id s = Inr (sort_key step_key (filter (\<lambda>e. ex_workflow_id e = Some w_id) es))"
proof -
  obtain ids where r: "repr v s (table v s) ids" by (rule reach_repr [OF assms])
  define es where "es = map (\<lambda>i. the (table v s i)) ids"
  have li: "load_index v (xs_fs s) = map index_entry es" using reprD(2) [OF r] by (simp add: indexed_def es_def)
  have m: "table v s (ex_id e) = Some e" if "e \<in> set es" for e
  proof -
    obtain i where "i \<in> set ids" "e = the (table v s i)" using \<open>e \<in> set es\<close> by (auto simp: es_def)
    then have "table v s i = Some e" using reprD(2) [OF r] by (auto simp: indexed_def)
    then show ?thesis using storedD(1) [OF reprD(1) [OF r]] by blast
  qed
  have "load_entries v (map index_entry (take (nat (max 1 limit)) (filter (wanted name st) es))) (xs_fs s)
      = Inr (take (nat (max 1 limit)) (filter (wanted name st) es))"
    by (rule load_entries_stored [OF reprD(1) [OF r]]) (use m in \<open>auto dest: in_set_takeD\<close>)
  then have "list_recent v name limit st s = Inr (take (nat (max 1 limit)) (filter (wanted name st) es))"
    using select_entries_map [of "[]" limit name st es] by (simp add: list_recent_def li)
  moreover have "list_by_workflow v w_id s = Inr (sort_key step_key (filter (\<lambda>e. ex_workflow_id e = Some w_id) es))"
    using load_workflow_stored [OF reprD(1) [OF r], of es] m by (simp add: list_by_workflow_def li)
  ultimately show ?thesis using li by blast
qed

theorem listings_exact_witness:
  "\<exists>es. load_index demo_env (xs_fs demo_created) = map index_entry es
     \<and> list_recent demo_env (Some ''board'') 20 None demo_created = Inr (take 20 (filter (wanted (Some ''board'') None) es))"
  using listings_exact [OF demo_env_ok demo_created_reach, of "Some ''board''" 20 None] by auto

text \<open>A record that fell out of the index and is changed again is put in front of newer ones: the order of the
  index is not the order of creation.\<close>

theorem reentry_goes_first:
  assumes "repr v s m ids" "m (ex_id e) = Some e0" "ex_id e \<notin> set ids"
  shows "\<exists>rest. update_index v t e (xs_fs s) = Inr (save_index v t (index_entry e # rest) (xs_fs s))"
proof -
  have "update_index v t e (xs_fs s) = Inr (save_index v t (map (\<lambda>i. index_entry (the ((m(ex_id e \<mapsto> e)) i))) (reindexed (ex_id e) ids)) (xs_fs s))"
    by (rule update_index_map) (use reprD [OF assms(1)] storedD(1) in \<open>force simp: indexed_def\<close>)+
  moreover have "reindexed (ex_id e) ids = ex_id e # take 199 ids"
    using assms(3) by (simp add: reindexed_def DEFAULT_INDEX_LIMIT_def)
  ultimately show ?thesis by (simp del: fun_upd_apply) (simp, blast)
qed

end
