(* ===== verification/Tmux_Session.thy ===== *)
theory Tmux_Session
  imports Py_Path
begin

text \<open>
  \<open>agent_driver/tmux_session.py\<close>: one agent kept alive in a tmux session. What tmux and the agent do during a
  turn is an input: the screen at the i-th reading, the clock, what the completion probe says. A loop
  that may poll forever returns an option, None for a loop that never ends.
\<close>

subsection \<open>Names and texts\<close>

text \<open>\<open>str.isalnum\<close> of one character up to 255: letters, digits, and the superscripts and fractions that count
  as numbers.\<close>

definition is_alnum :: "char \<Rightarrow> bool" where
  "is_alnum c = (let n = (of_char c :: nat) in
     48 \<le> n \<and> n \<le> 57 \<or> 65 \<le> n \<and> n \<le> 90 \<or> 97 \<le> n \<and> n \<le> 122
     \<or> n \<in> {170, 178, 179, 181, 185, 186, 188, 189, 190} \<or> 192 \<le> n \<and> n \<noteq> 215 \<and> n \<noteq> 247)"

definition safe_char :: "char \<Rightarrow> bool" where
  "safe_char c = (is_alnum c \<or> c = CHR ''_'' \<or> c = CHR ''-'')"

definition tmux_name_for :: "string \<Rightarrow> string" where
  "tmux_name_for session_id = ''frago-agent-'' @ map (\<lambda>c. if safe_char c then c else CHR ''_'') session_id"

text \<open>\<open>str.splitlines\<close>: every line boundary ends a line; CR LF is one boundary; no empty last line.\<close>

definition is_line_end :: "char \<Rightarrow> bool" where
  "is_line_end c = (let n = (of_char c :: nat) in 10 \<le> n \<and> n \<le> 13 \<or> 28 \<le> n \<and> n \<le> 30 \<or> n = 133)"

fun lines_from :: "string \<Rightarrow> string \<Rightarrow> string list" where
  "lines_from acc [] = (if acc = [] then [] else [acc])"
| "lines_from acc (c # cs) =
     (if is_line_end c
      then acc # lines_from [] (if c = CHR 0x0D \<and> cs \<noteq> [] \<and> hd cs = newline then tl cs else cs)
      else lines_from (acc @ [c]) cs)"

definition splitlines :: "string \<Rightarrow> string list" where
  "splitlines s = lines_from [] s"

definition last_n :: "nat \<Rightarrow> 'a list \<Rightarrow> 'a list" where
  "last_n k xs = drop (length xs - k) xs"

definition pane_tail :: "string \<Rightarrow> string" where
  "pane_tail pane = intercalate [newline] (last_n 20 (filter (\<lambda>ln. strip ln \<noteq> []) (splitlines pane)))"

text \<open>\<open>_compute_delta\<close>. For one anchor the inner loop finds its last occurrence and stops there, whether or not
  anything follows.\<close>

definition after_last :: "string \<Rightarrow> string list \<Rightarrow> string list" where
  "after_last anchor ls = rev (takeWhile (\<lambda>l. l \<noteq> anchor) (rev ls))"

fun delta_from :: "string list \<Rightarrow> string list \<Rightarrow> string option" where
  "delta_from sb [] = None"
| "delta_from sb (anchor # rest) =
     (if anchor \<in> set sb \<and> after_last anchor sb \<noteq> [] then Some (intercalate [newline] (after_last anchor sb))
      else delta_from sb rest)"

definition compute_delta :: "string \<Rightarrow> string \<Rightarrow> string" where
  "compute_delta pre_snapshot scrollback =
     (let pre_lines = filter (\<lambda>ln. strip ln \<noteq> []) (splitlines pre_snapshot)
      in if pre_lines = [] then scrollback
         else case delta_from (splitlines scrollback) (rev pre_lines) of Some d \<Rightarrow> d | None \<Rightarrow> scrollback)"

subsection \<open>Sending text\<close>

definition SEND_TEXT_CHUNK :: nat where "SEND_TEXT_CHUNK = 1000"

function chunks_from :: "string \<Rightarrow> string list" where
  "chunks_from s = (if s = [] then [] else take SEND_TEXT_CHUNK s # chunks_from (drop SEND_TEXT_CHUNK s))"
  by pat_completeness auto
termination
  by (relation "measure length") (auto simp: SEND_TEXT_CHUNK_def)

declare chunks_from.simps [simp del]

text \<open>The chunks handed to \<open>send-keys -l --\<close>; an empty text is one empty chunk.\<close>

definition send_text :: "string \<Rightarrow> string list" where
  "send_text s = (if s = [] then [[]] else chunks_from s)"

lemma chunks_from_props:
  "concat (chunks_from s) = s \<and> (\<forall>c \<in> set (chunks_from s). c \<noteq> [] \<and> length c \<le> 1000)
     \<and> length (chunks_from s) = (length s + 999) div 1000"
proof (induction s rule: chunks_from.induct)
  case (1 s)
  show ?case
  proof (cases "s = []")
    case True
    then show ?thesis by (simp add: chunks_from.simps [of "[]"])
  next
    case False
    have "(length s - 1000 + 999) div 1000 + 1 = (length s + 999) div 1000"
    proof (cases "1000 \<le> length s")
      case True
      then have "length s + 999 = (length s - 1000 + 999) + 1000" by simp
      then show ?thesis by (metis Suc_eq_plus1 div_add_self2 zero_neq_numeral)
    next
      case small: False
      have "length s + 999 = 1000 + (length s - 1)" using False by (cases s) simp_all
      then show ?thesis using small by (simp add: div_add_self1)
    qed
    then show ?thesis using "1.IH" [OF False] False by (simp add: chunks_from.simps [of s] SEND_TEXT_CHUNK_def)
  qed
qed

subsection \<open>The session and one turn of it\<close>

record tsession =
  ts_id :: string
  ts_agent :: string
  ts_status :: string
  ts_last_pane :: "string option"
  ts_last_active :: "rat option"

definition ts_name :: "tsession \<Rightarrow> string" where
  "ts_name x = tmux_name_for (ts_id x)"

text \<open>The arguments of the other two calls of tmux.\<close>

definition send_keys :: "tsession \<Rightarrow> string list \<Rightarrow> string list" where
  "send_keys x keys = [''send-keys'', ''-t'', ts_name x] @ keys"

definition capture_pane :: "tsession \<Rightarrow> bool \<Rightarrow> string list" where
  "capture_pane x full = [''capture-pane'', ''-p'', ''-t'', ts_name x] @ (if full then [''-S'', ''-''] else [])"

text \<open>Reading the screen: the text, or a failing \<open>capture-pane\<close> with the answer of the check that follows it.\<close>

datatype capture = Pane string | CaptureFails bool

record verdict =
  vd_done :: bool
  vd_text :: "string option"
  vd_marker :: "string option"
  vd_status :: string

datatype submit_outcome = SubmitOk | SubmitFails bool

text \<open>What happens around the i-th reading of the screen: its result, the clock after it, and what the probe says
  (None if it raises or has no answer). Reading 0 is before the prompt is submitted.\<close>

record turn_world =
  tw_capture :: "nat \<Rightarrow> capture"
  tw_clock :: "nat \<Rightarrow> rat"
  tw_probe :: "nat \<Rightarrow> verdict option"
  tw_submit :: submit_outcome
  tw_start :: rat
  tw_end :: rat
  tw_wall :: rat

record driver_spec =
  dr_ready :: "string \<Rightarrow> bool"
  dr_done :: "string \<Rightarrow> bool"
  dr_needs_input :: "(string \<Rightarrow> bool) option"
  dr_read_answer :: "(string \<Rightarrow> string \<Rightarrow> string) option"
  dr_extract :: "string \<Rightarrow> string"
  dr_has_probe :: bool

record turn_result =
  tr_text :: string
  tr_raw_delta :: string
  tr_status :: string
  tr_duration_ms :: int

text \<open>\<open>_capture_resilient\<close>: None is \<open>_SessionVanished\<close>; the second component is the last screen seen.\<close>

definition capture_resilient :: "bool \<Rightarrow> capture \<Rightarrow> string option \<Rightarrow> string option \<times> string option" where
  "capture_resilient full c last_pane =
     (case c of
        Pane p \<Rightarrow> (Some p, if full then last_pane else Some p)
      | CaptureFails alive \<Rightarrow> (if alive then Some (case last_pane of Some p \<Rightarrow> p | None \<Rightarrow> []) else None, last_pane))"

definition deadline_of :: "rat option \<Rightarrow> rat \<Rightarrow> rat option" where
  "deadline_of timeout_s clock =
     (case timeout_s of None \<Rightarrow> None | Some t \<Rightarrow> if t \<le> 0 then None else Some (clock + t))"

datatype wait_end = Hit string nat | TimedOut nat | Vanished

partial_function (option) wait_loop ::
    "(string \<times> (nat \<Rightarrow> string \<Rightarrow> bool)) list \<Rightarrow> rat option \<Rightarrow> turn_world \<Rightarrow> nat \<Rightarrow> string option \<Rightarrow> (wait_end \<times> string option) option" where
  "wait_loop preds deadline tw i last_pane =
     (case capture_resilient False (tw_capture tw i) last_pane of
        (None, l) \<Rightarrow> Some (Vanished, l)
      | (Some pane, l) \<Rightarrow>
          (case find (\<lambda>(k, p). p i pane) preds of
             Some (k, p) \<Rightarrow> Some (Hit k i, l)
           | None \<Rightarrow>
               if (case deadline of Some d \<Rightarrow> tw_clock tw i \<ge> d | None \<Rightarrow> False) then Some (TimedOut i, l)
               else wait_loop preds deadline tw (Suc i) l))"

definition wait_for_any ::
    "(string \<times> (nat \<Rightarrow> string \<Rightarrow> bool)) list \<Rightarrow> rat option \<Rightarrow> rat \<Rightarrow> turn_world \<Rightarrow> nat \<Rightarrow> string option \<Rightarrow> (wait_end \<times> string option) option" where
  "wait_for_any preds timeout_s clock tw i last_pane = wait_loop preds (deadline_of timeout_s clock) tw i last_pane"

text \<open>\<open>_ok\<close>: with a probe that answers, its verdict decides, and only with another marker than before the
  prompt; otherwise the screen does.\<close>

definition baseline_marker :: "driver_spec \<Rightarrow> turn_world \<Rightarrow> string option" where
  "baseline_marker dr tw = (if dr_has_probe dr then Option.bind (tw_probe tw 0) vd_marker else None)"

definition turn_ok :: "driver_spec \<Rightarrow> turn_world \<Rightarrow> nat \<Rightarrow> string \<Rightarrow> bool" where
  "turn_ok dr tw i pane =
     (if \<not> dr_has_probe dr then dr_done dr pane
      else case tw_probe tw i of
             None \<Rightarrow> dr_done dr pane
           | Some v \<Rightarrow> vd_done v \<and> vd_marker v \<noteq> baseline_marker dr tw)"

datatype turn_stop = SubmitRaised | SessionVanished

definition turn_preds :: "driver_spec \<Rightarrow> turn_world \<Rightarrow> (string \<times> (nat \<Rightarrow> string \<Rightarrow> bool)) list" where
  "turn_preds dr tw = (''ok'', turn_ok dr tw) # (case dr_needs_input dr of Some p \<Rightarrow> [(''needs_input'', \<lambda>i. p)] | None \<Rightarrow> [])"

text \<open>From the end of the polling to the result: which text, which status.\<close>

definition finish_turn ::
    "driver_spec \<Rightarrow> turn_world \<Rightarrow> string \<Rightarrow> string \<Rightarrow> string option \<Rightarrow> nat \<Rightarrow> string option \<Rightarrow> (turn_stop + turn_result) \<times> string option" where
  "finish_turn dr tw prompt pre_snapshot outcome i last_pane =
     (let v = (if outcome = Some ''ok'' \<and> dr_has_probe dr then tw_probe tw i else None);
          status = (case outcome of None \<Rightarrow> ''timeout''
                    | Some k \<Rightarrow> (case v of Some x \<Rightarrow> if vd_status x \<noteq> ''ok'' then vd_status x else k | None \<Rightarrow> k));
          result = (\<lambda>t raw. \<lparr>tr_text = t, tr_raw_delta = raw, tr_status = status, tr_duration_ms = \<lfloor>(tw_end tw - tw_start tw) * 1000\<rfloor>\<rparr>)
      in case Option.bind v vd_text of
           Some t \<Rightarrow> (Inr (result t t), last_pane)
         | None \<Rightarrow>
             (case dr_read_answer dr of
                Some rd \<Rightarrow>
                  (case capture_resilient False (tw_capture tw (Suc i)) last_pane of
                     (None, l) \<Rightarrow> (Inl SessionVanished, l)
                   | (Some pane, l) \<Rightarrow> (Inr (result (rd pane prompt) pane), l))
              | None \<Rightarrow>
                  (case capture_resilient True (tw_capture tw (Suc i)) last_pane of
                     (None, l) \<Rightarrow> (Inl SessionVanished, l)
                   | (Some sb, l) \<Rightarrow>
                       (let raw = compute_delta pre_snapshot sb in (Inr (result (dr_extract dr raw) raw), l)))))"

definition send_turn ::
    "driver_spec \<Rightarrow> turn_world \<Rightarrow> string \<Rightarrow> rat option \<Rightarrow> string option \<Rightarrow> ((turn_stop + turn_result) \<times> string option) option" where
  "send_turn dr tw prompt timeout_s last_pane =
     (case capture_resilient False (tw_capture tw 0) last_pane of
        (None, l) \<Rightarrow> Some (Inl SessionVanished, l)
      | (Some pre_snapshot, l) \<Rightarrow>
          (case tw_submit tw of
             SubmitFails alive \<Rightarrow> Some (Inl (if alive then SubmitRaised else SessionVanished), l)
           | SubmitOk \<Rightarrow>
               (case wait_for_any (turn_preds dr tw) timeout_s (tw_clock tw 0) tw 1 l of
                  None \<Rightarrow> None
                | Some (Vanished, l') \<Rightarrow> Some (Inl SessionVanished, l')
                | Some (Hit k i, l') \<Rightarrow> Some (finish_turn dr tw prompt pre_snapshot (Some k) i l')
                | Some (TimedOut i, l') \<Rightarrow> Some (finish_turn dr tw prompt pre_snapshot None i l'))))"

definition vanished_note :: "tsession \<Rightarrow> string option \<Rightarrow> string" where
  "vanished_note x last_pane =
     (let tail = intercalate [newline] (last_n 20 (splitlines (case last_pane of Some p \<Rightarrow> p | None \<Rightarrow> [])));
          note = ''tmux session '' @ CHR 0x27 # ts_name x @ CHR 0x27 # '' disappeared mid-turn; the agent process is gone and this turn produced no answer.''
      in if tail \<noteq> [] then note @ newline # ''--- last pane ---'' @ newline # tail else note)"

text \<open>\<open>send\<close>: Inl is the exception of a failing submit in a living session; None a turn that never ends.\<close>

definition send_prompt ::
    "driver_spec \<Rightarrow> turn_world \<Rightarrow> string \<Rightarrow> rat option \<Rightarrow> tsession \<Rightarrow> ((unit + turn_result) \<times> tsession) option" where
  "send_prompt dr tw prompt timeout_s x =
     (case send_turn dr tw prompt timeout_s (ts_last_pane x) of
        None \<Rightarrow> None
      | Some (Inl SubmitRaised, l) \<Rightarrow> Some (Inl (), x\<lparr>ts_status := ''busy'', ts_last_pane := l\<rparr>)
      | Some (Inl SessionVanished, l) \<Rightarrow>
          Some (Inr \<lparr>tr_text = vanished_note x l, tr_raw_delta = (case l of Some p \<Rightarrow> p | None \<Rightarrow> []), tr_status = ''error'',
                     tr_duration_ms = \<lfloor>(tw_end tw - tw_start tw) * 1000\<rfloor>\<rparr>,
                x\<lparr>ts_status := ''dead'', ts_last_pane := l, ts_last_active := Some (tw_wall tw)\<rparr>)
      | Some (Inr r, l) \<Rightarrow> Some (Inr r, x\<lparr>ts_status := ''idle'', ts_last_pane := l, ts_last_active := Some (tw_wall tw)\<rparr>))"

subsection \<open>tmux and starting a session\<close>

text \<open>The sessions tmux has, by name, and how it finds the session that \<open>-t\<close> names: an operation of tmux, which
  also accepts the start of a name.\<close>

record tmux_env =
  tx_target :: "string \<Rightarrow> string list \<Rightarrow> string option"

definition has_session :: "tmux_env \<Rightarrow> string \<Rightarrow> string list \<Rightarrow> bool" where
  "has_session te n live = (tx_target te n live \<noteq> None)"

definition kill_session :: "tmux_env \<Rightarrow> string \<Rightarrow> string list \<Rightarrow> bool \<times> string list" where
  "kill_session te n live = (case tx_target te n live of None \<Rightarrow> (False, live) | Some m \<Rightarrow> (True, remove1 m live))"

definition close_session :: "tmux_env \<Rightarrow> tsession \<Rightarrow> string list \<Rightarrow> bool \<times> string list \<times> tsession" where
  "close_session te x live =
     (let (ok, live') = kill_session te (ts_name x) live in (ok, live', if ok then x\<lparr>ts_status := ''dead''\<rparr> else x))"

definition is_alive :: "tmux_env \<Rightarrow> tsession \<Rightarrow> string list \<Rightarrow> bool" where
  "is_alive te x live = has_session te (ts_name x) live"

text \<open>The arguments of \<open>new-session\<close>: the caller's variables override those of the driver.\<close>

definition session_args ::
    "tsession \<Rightarrow> string \<Rightarrow> string option \<Rightarrow> (string, string) dict option \<Rightarrow> (string, string) dict \<Rightarrow> string list" where
  "session_args x cwd conv_key driver_env caller_env =
     (let merged = fold (\<lambda>(k, v). dict_set k v) caller_env (case driver_env of Some d \<Rightarrow> fold (\<lambda>(k, v). dict_set k v) d [] | None \<Rightarrow> [])
      in [''new-session'', ''-d'', ''-s'', ts_name x, ''-x'', ''200'', ''-y'', ''50'', ''-c'', cwd]
         @ (case conv_key of Some c \<Rightarrow> if c \<noteq> [] then [''-e'', ''FRAGO_CONV_KEY='' @ c] else [] | None \<Rightarrow> [])
         @ concat (map (\<lambda>(k, v). [''-e'', k @ ''='' @ v]) merged))"

text \<open>A start that fails carries the name and the end of the screen; None stands for the fixed notice that the
  session vanished before it showed anything.\<close>

datatype open_error = TmuxFailed | TmuxStartupError string "string option"

record open_world =
  ow_new :: bool
  ow_keys :: bool
  ow_turn :: turn_world
  ow_screen :: "string option"
  ow_handlers :: bool

definition fail_startup :: "tmux_env \<Rightarrow> string option \<Rightarrow> tsession \<Rightarrow> string list \<Rightarrow> (open_error + unit) \<times> string list \<times> tsession" where
  "fail_startup te tail x live =
     (case close_session te x live of (ok, live', x') \<Rightarrow> (Inl (TmuxStartupError (ts_name x) tail), live', x'\<lparr>ts_status := ''dead''\<rparr>))"

text \<open>\<open>open\<close>. A session that vanishes while it is awaited is gone from tmux as well. \<open>ow_handlers\<close> says whether the
  start-up handlers returned; their keys only reach the agent.\<close>

definition open_session ::
    "tmux_env \<Rightarrow> driver_spec \<Rightarrow> open_world \<Rightarrow> tsession \<Rightarrow> string list \<Rightarrow> ((open_error + unit) \<times> string list \<times> tsession) option" where
  "open_session te dr ow x live =
     (if \<not> ow_new ow \<or> ts_name x \<in> set live then Some (Inl TmuxFailed, live, x)
      else let live1 = live @ [ts_name x]
           in if \<not> ow_keys ow then Some (Inl TmuxFailed, live1, x)
              else case wait_for_any [(''hit'', \<lambda>i. dr_ready dr)] (Some 30) (tw_start (ow_turn ow)) (ow_turn ow) 0 (ts_last_pane x) of
                     None \<Rightarrow> None
                   | Some (Vanished, l) \<Rightarrow>
                       (let tail = pane_tail (case l of Some p \<Rightarrow> p | None \<Rightarrow> [])
                        in Some (fail_startup te (if tail \<noteq> [] then Some tail else None) (x\<lparr>ts_last_pane := l\<rparr>) (removeAll (ts_name x) live1)))
                   | Some (TimedOut i, l) \<Rightarrow>
                       Some (fail_startup te (Some (case ow_screen ow of Some p \<Rightarrow> pane_tail p | None \<Rightarrow> [])) (x\<lparr>ts_last_pane := l\<rparr>) live1)
                   | Some (Hit k i, l) \<Rightarrow>
                       if \<not> ow_handlers ow then Some (Inl TmuxFailed, live1, x\<lparr>ts_last_pane := l\<rparr>)
                       else Some (Inr (), live1, x\<lparr>ts_last_pane := l, ts_status := ''ready'', ts_last_active := Some (tw_wall (ow_turn ow))\<rparr>))"

subsection \<open>Polling\<close>

text \<open>An event that ends the polling at reading k.\<close>

definition stops_at :: "(string \<times> (nat \<Rightarrow> string \<Rightarrow> bool)) list \<Rightarrow> rat option \<Rightarrow> turn_world \<Rightarrow> nat \<Rightarrow> bool" where
  "stops_at preds deadline tw k \<longleftrightarrow> tw_capture tw k = CaptureFails False
     \<or> (\<exists>p. tw_capture tw k = Pane p \<and> (\<exists>(n, q) \<in> set preds. q k p))
     \<or> (\<exists>d. deadline = Some d \<and> d \<le> tw_clock tw k)"

lemma wait_loop_returns:
  assumes "stops_at preds deadline tw k" "i \<le> k"
  shows "\<exists>r. wait_loop preds deadline tw i l = Some r"
  using assms(2)
proof (induction "k - i" arbitrary: i l)
  case 0
  then have ik: "i = k" by simp
  show ?case
  proof (cases "capture_resilient False (tw_capture tw k) l")
    case (Pair a b)
    then show ?thesis
      using assms(1) unfolding ik wait_loop.simps [of preds deadline tw k l] stops_at_def
      by (auto simp: capture_resilient_def find_None_iff split: option.split prod.splits capture.splits if_splits)
        blast+
  qed
next
  case (Suc n)
  then have "\<exists>r. wait_loop preds deadline tw (Suc i) l' = Some r" for l' by (intro Suc.hyps(1)) auto
  then show ?case
    by (subst wait_loop.simps) (auto split: option.split prod.split)
qed

text \<open>What the end of the polling means: the hit is the first predicate that holds of the screen read then, and a
  timeout comes only after the deadline with no predicate holding.\<close>

definition wait_post :: "(string \<times> (nat \<Rightarrow> string \<Rightarrow> bool)) list \<Rightarrow> rat option \<Rightarrow> turn_world \<Rightarrow> nat \<Rightarrow> wait_end \<Rightarrow> bool" where
  "wait_post preds deadline tw i r \<longleftrightarrow>
     (case r of
        Hit k j \<Rightarrow> i \<le> j \<and> (\<exists>pane q. tw_capture tw j \<in> {Pane pane, CaptureFails True} \<and> find (\<lambda>(n, p). p j pane) preds = Some (k, q))
      | TimedOut j \<Rightarrow> i \<le> j \<and> (\<exists>d. deadline = Some d \<and> d \<le> tw_clock tw j) \<and> (\<exists>pane. find (\<lambda>(n, p). p j pane) preds = None)
      | Vanished \<Rightarrow> \<exists>j \<ge> i. tw_capture tw j = CaptureFails False)"

lemma wait_loop_post:
  assumes "wait_loop preds deadline tw i l = Some r"
  shows "wait_post preds deadline tw i (fst r)"
proof (rule wait_loop.raw_induct [OF _ assms, where P = "\<lambda>preds deadline tw i l r. wait_post preds deadline tw i (fst r)"])
  fix wl preds deadline tw i l and r :: "wait_end \<times> string option"
  assume ih: "\<And>preds deadline tw i l r. wl preds deadline tw i l = Some r \<Longrightarrow> wait_post preds deadline tw i (fst r)"
    and eq: "(case capture_resilient False (tw_capture tw i) l of
        (None, l) \<Rightarrow> Some (Vanished, l)
      | (Some pane, l) \<Rightarrow>
          (case find (\<lambda>(k, p). p i pane) preds of
             Some (k, p) \<Rightarrow> Some (Hit k i, l)
           | None \<Rightarrow>
               if (case deadline of Some d \<Rightarrow> tw_clock tw i \<ge> d | None \<Rightarrow> False) then Some (TimedOut i, l)
               else wl preds deadline tw (Suc i) l)) = Some r"
  obtain c l1 where c: "capture_resilient False (tw_capture tw i) l = (c, l1)" by fastforce
  show "wait_post preds deadline tw i (fst r)"
  proof (cases c)
    case None
    then have "tw_capture tw i = CaptureFails False"
      using c by (auto simp: capture_resilient_def split: capture.splits if_splits)
    then show ?thesis using eq c None by (auto simp: wait_post_def)
  next
    case (Some pane)
    then have cap: "tw_capture tw i \<in> {Pane pane, CaptureFails True}"
      using c by (auto simp: capture_resilient_def split: capture.splits if_splits)
    show ?thesis
    proof (cases "find (\<lambda>(k, p). p i pane) preds")
      case f: (Some kp)
      then show ?thesis using eq c Some cap by (cases kp) (auto simp: wait_post_def intro!: exI [of _ pane])
    next
      case f: None
      show ?thesis
      proof (cases "case deadline of Some d \<Rightarrow> tw_clock tw i \<ge> d | None \<Rightarrow> False")
        case True
        then show ?thesis using eq c Some f by (auto simp: wait_post_def split: option.splits intro!: exI [of _ pane])
      next
        case False
        then have "wl preds deadline tw (Suc i) l1 = Some r" using eq c Some f by simp
        then have "wait_post preds deadline tw (Suc i) (fst r)" by (rule ih)
        then show ?thesis by (auto simp: wait_post_def split: wait_end.splits intro: Suc_leD)
      qed
    qed
  qed
qed

subsection \<open>Properties\<close>

text \<open>text reaches the agent whole. The chunks sent are the text cut in order, none longer than 1000
  characters, none empty unless the text is, and no more of them than needed.\<close>

theorem send_text_whole:
  "concat (send_text s) = s \<and> (\<forall>c \<in> set (send_text s). length c \<le> 1000)
    \<and> (s \<noteq> [] \<longrightarrow> [] \<notin> set (send_text s) \<and> length (send_text s) = (length s + 999) div 1000)"
  using chunks_from_props [of s] by (auto simp: send_text_def)

theorem send_text_whole_witness: "concat (send_text ''hi'') = ''hi'' \<and> [] \<notin> set (send_text ''hi'')"
  using send_text_whole [of "''hi''"] by simp

text \<open>C32: a turn with a time limit ends. If the clock gets past the limit at some reading, or the session
  dies at some reading, \<open>send\<close> returns.\<close>

theorem bounded_turn_returns:
  assumes "0 < k" "tw_capture tw k = CaptureFails False \<or> (\<exists>t. timeout_s = Some t \<and> 0 < t \<and> tw_clock tw 0 + t \<le> tw_clock tw k)"
  shows "\<exists>r x'. send_prompt dr tw prompt timeout_s x = Some (r, x')"
proof -
  have "stops_at preds (deadline_of timeout_s (tw_clock tw 0)) tw k" for preds
    using assms(2) by (auto simp: stops_at_def deadline_of_def)
  then have "\<exists>r. wait_for_any (turn_preds dr tw) timeout_s (tw_clock tw 0) tw 1 l = Some r" for l
    unfolding wait_for_any_def using assms(1) by (intro wait_loop_returns [where k = k]) auto
  then have w: "wait_for_any (turn_preds dr tw) timeout_s (tw_clock tw 0) tw (Suc 0) l \<noteq> None" for l
    unfolding One_nat_def by (metis option.distinct(1))
  have "\<exists>r. send_turn dr tw prompt timeout_s l = Some r" for l
    unfolding send_turn_def by (auto simp: w split: prod.split option.split submit_outcome.split wait_end.split)
  then obtain r where "send_turn dr tw prompt timeout_s (ts_last_pane x) = Some r" by blast
  then show ?thesis by (auto simp: send_prompt_def split: prod.split sum.split turn_stop.split)
qed

definition demo_world :: turn_world where
  "demo_world = \<lparr>tw_capture = (\<lambda>i. Pane (if i < 2 then ''>'' else ''42'')), tw_clock = of_nat,
     tw_probe = (\<lambda>i. Some \<lparr>vd_done = True, vd_text = Some (if i < 2 then ''old'' else ''42''), vd_marker = Some (if i < 2 then ''a'' else ''b''),
                 vd_status = ''ok''\<rparr>),
     tw_submit = SubmitOk, tw_start = 0, tw_end = 3, tw_wall = 3\<rparr>"

definition demo_driver :: driver_spec where
  "demo_driver = \<lparr>dr_ready = (\<lambda>p. p = ''>''), dr_done = (\<lambda>p. True), dr_needs_input = None, dr_read_answer = None, dr_extract = id,
     dr_has_probe = True\<rparr>"

definition demo_session :: "string \<Rightarrow> tsession" where
  "demo_session i = \<lparr>ts_id = i, ts_agent = ''claude'', ts_status = ''starting'', ts_last_pane = None, ts_last_active = None\<rparr>"

theorem bounded_turn_returns_witness:
  "\<exists>r x'. send_prompt demo_driver demo_world ''6 * 7'' (Some 2) (demo_session ''s1'') = Some (r, x')"
  by (rule bounded_turn_returns [of 2]) (simp_all add: demo_world_def)

text \<open>C31: an answer reported as \<open>ok\<close> is the answer to this prompt. There is a reading after the prompt was
  submitted at which either the completion probe reported a finished turn with another marker than before the
  prompt and nothing wrong with it, or the probe had no answer and the screen showed the done signal; if the
  probe gave a text, that is the text. A turn that ends \<open>ok\<close>, \<open>timeout\<close> or \<open>needs_input\<close> leaves the session idle.\<close>

theorem ok_is_this_turn:
  assumes "send_prompt dr tw prompt timeout_s x = Some (Inr r, x')" "tr_status r = ''ok''"
  shows "ts_status x' = ''idle'' \<and> (\<exists>i \<ge> 1.
    (\<exists>v. dr_has_probe dr \<and> tw_probe tw i = Some v \<and> vd_done v \<and> vd_status v = ''ok''
       \<and> vd_marker v \<noteq> Option.bind (tw_probe tw 0) vd_marker \<and> (\<forall>t. vd_text v = Some t \<longrightarrow> tr_text r = t))
    \<or> ((\<not> dr_has_probe dr \<or> tw_probe tw i = None) \<and> (\<exists>pane. tw_capture tw i \<in> {Pane pane, CaptureFails True} \<and> dr_done dr pane)))"
proof -
  obtain l where st: "send_turn dr tw prompt timeout_s (ts_last_pane x) = Some (Inr r, l)" and idle: "ts_status x' = ''idle''"
    using assms by (auto simp: send_prompt_def split: option.splits prod.splits sum.splits turn_stop.splits)
  obtain pre l0 e l1 where e: "wait_for_any (turn_preds dr tw) timeout_s (tw_clock tw 0) tw 1 l0 = Some (e, l1)"
    "(\<exists>k i. e = Hit k i \<and> finish_turn dr tw prompt pre (Some k) i l1 = (Inr r, l))
     \<or> (\<exists>i. e = TimedOut i \<and> finish_turn dr tw prompt pre None i l1 = (Inr r, l))"
    using st by (auto simp: send_turn_def split: option.splits prod.splits submit_outcome.splits wait_end.splits if_splits)
  have no_timeout: "tr_status r' = ''timeout''" if "finish_turn dr tw prompt pre None i l1 = (Inr r', l)" for i r'
    using that by (auto simp: finish_turn_def Let_def split: option.splits prod.splits)
  obtain k i where f: "e = Hit k i" "finish_turn dr tw prompt pre (Some k) i l1 = (Inr r, l)"
    using e(2) no_timeout assms(2) by fastforce
  note p = wait_loop_post [OF e(1) [unfolded wait_for_any_def]]
  obtain pane q where q: "1 \<le> i" "tw_capture tw i \<in> {Pane pane, CaptureFails True}"
    "find (\<lambda>(n, p). p i pane) (turn_preds dr tw) = Some (k, q)"
    using p by (auto simp: wait_post_def f(1))
  have "k = ''ok''"
    using f(2) assms(2) q(3)
    by (auto simp: finish_turn_def turn_preds_def Let_def split: option.splits prod.splits if_splits)
  moreover from this have "turn_ok dr tw i pane"
    using q(3) by (auto simp: turn_preds_def split: option.splits if_splits)
  ultimately show ?thesis
    using f(2) assms(2) q(1,2) idle
    by (cases "dr_has_probe dr"; cases "tw_probe tw i")
      (auto simp: turn_ok_def baseline_marker_def finish_turn_def Let_def split: option.splits prod.splits if_splits)
qed

theorem ok_is_this_turn_witness:
  "\<exists>r x'. send_prompt demo_driver demo_world ''6 * 7'' (Some 5) (demo_session ''s1'') = Some (Inr r, x')
     \<and> tr_status r = ''ok'' \<and> ts_status x' = ''idle''"
proof -
  have c: "capture_resilient False (tw_capture demo_world 1) l = (Some ''>'', Some ''>'')"
    "capture_resilient False (tw_capture demo_world 2) l = (Some ''42'', Some ''42'')" for l
    by (simp_all add: capture_resilient_def demo_world_def)
  have p: "turn_preds demo_driver demo_world = [(''ok'', turn_ok demo_driver demo_world)]"
    by (simp add: turn_preds_def demo_driver_def)
  have t: "\<not> turn_ok demo_driver demo_world 1 ''>''" "turn_ok demo_driver demo_world 2 ''42''"
    by (simp_all add: turn_ok_def baseline_marker_def demo_driver_def demo_world_def)
  have "wait_loop (turn_preds demo_driver demo_world) (Some 5) demo_world 2 (Some ''>'') = Some (Hit ''ok'' 2, Some ''42'')"
    by (subst wait_loop.simps) (simp add: c p t)
  moreover have "tw_clock demo_world 1 < 5" by (simp add: demo_world_def)
  ultimately have w: "wait_loop (turn_preds demo_driver demo_world) (Some 5) demo_world 1 (Some ''>'') = Some (Hit ''ok'' 2, Some ''42'')"
    by (subst wait_loop.simps) (simp add: c p t numeral_2_eq_2 del: One_nat_def)
  have "capture_resilient False (tw_capture demo_world 0) None = (Some ''>'', Some ''>'')" "tw_submit demo_world = SubmitOk"
    "tw_clock demo_world 0 = 0" by (simp_all add: capture_resilient_def demo_world_def)
  then have "send_turn demo_driver demo_world ''6 * 7'' (Some 5) None
      = Some (finish_turn demo_driver demo_world ''6 * 7'' ''>'' (Some ''ok'') 2 (Some ''42''))"
    using w by (simp add: send_turn_def wait_for_any_def deadline_of_def del: One_nat_def)
  moreover have "\<exists>r. finish_turn demo_driver demo_world ''6 * 7'' ''>'' (Some ''ok'') 2 (Some ''42'') = (Inr r, Some ''42'') \<and> tr_status r = ''ok''"
    by (simp add: finish_turn_def demo_driver_def) (simp add: demo_world_def)
  ultimately have "\<exists>r x'. send_prompt demo_driver demo_world ''6 * 7'' (Some 5) (demo_session ''s1'') = Some (Inr r, x') \<and> tr_status r = ''ok''"
    by (auto simp: send_prompt_def demo_session_def)
  then show ?thesis using ok_is_this_turn by blast
qed

end
