(* ===== verification/Session_Pool.thy ===== *)
theory Session_Pool
  imports Tmux_Session
begin

text \<open>
  \<open>agent_driver/pool.py\<close>: a bounded set of agent sessions kept warm, in the order of their last use. The pool
  is modelled together with the sessions tmux has. The abstract pool is a list of ids, the least recently used
  one first.
\<close>

record pool =
  po_max :: nat
  po_sessions :: "(string, tsession) dict"
  po_live :: "string list"

datatype acquire_error = DriverUnknown | OpenFailed open_error | HookRaised

text \<open>The driver registry of \<open>driver.py\<close>; None is the \<open>KeyError\<close>.\<close>

definition register_driver :: "string \<Rightarrow> driver_spec \<Rightarrow> (string, driver_spec) dict \<Rightarrow> (string, driver_spec) dict" where
  "register_driver agent_type dr registry = dict_set agent_type dr registry"

definition load_driver :: "(string, driver_spec) dict \<Rightarrow> string \<Rightarrow> driver_spec option" where
  "load_driver registry agent_type = dict_get registry agent_type"

text \<open>None is the \<open>ValueError\<close> of the constructor.\<close>

definition new_pool :: "int \<Rightarrow> string list \<Rightarrow> pool option" where
  "new_pool max_size live = (if max_size < 1 then None else Some \<lparr>po_max = nat max_size, po_sessions = [], po_live = live\<rparr>)"

definition has :: "pool \<Rightarrow> string \<Rightarrow> bool" where
  "has p i = (dict_get (po_sessions p) i \<noteq> None)"

definition peek :: "pool \<Rightarrow> string \<Rightarrow> tsession option" where
  "peek p i = dict_get (po_sessions p) i"

definition active_ids :: "pool \<Rightarrow> string list" where
  "active_ids p = map fst (po_sessions p)"

definition move_to_end :: "string \<Rightarrow> (string, tsession) dict \<Rightarrow> (string, tsession) dict" where
  "move_to_end i d = (case dict_get d i of Some x \<Rightarrow> dict_del i d @ [(i, x)] | None \<Rightarrow> d)"

text \<open>\<open>_safe_close\<close>: whatever \<open>close\<close> raises is dropped.\<close>

definition safe_close :: "tmux_env \<Rightarrow> tsession \<Rightarrow> string list \<Rightarrow> string list" where
  "safe_close te x live = fst (snd (close_session te x live))"

lemma dict_del_hd: "length ss > n \<Longrightarrow> length (dict_del (fst (hd ss)) ss) < length ss"
  by (cases ss) (auto simp: AList.delete_eq intro: le_imp_less_Suc)

function evict_if_needed ::
    "tmux_env \<Rightarrow> nat \<Rightarrow> (string, tsession) dict \<Rightarrow> string list \<Rightarrow> (string, tsession) dict \<times> string list" where
  "evict_if_needed te max_size ss live =
     (if length ss > max_size
      then evict_if_needed te max_size (dict_del (fst (hd ss)) ss) (safe_close te (snd (hd ss)) live)
      else (ss, live))"
  by pat_completeness auto

termination
  by (relation "measure (\<lambda>(te, n, ss, live). length ss)") (use dict_del_hd in auto)

declare evict_if_needed.simps [simp del]

text \<open>\<open>acquire\<close>: \<open>hook\<close> is None without a resume hook, else whether it returned. None is a start that is awaited
  forever.\<close>

definition start_fresh ::
    "tmux_env \<Rightarrow> (string, driver_spec) dict \<Rightarrow> open_world \<Rightarrow> bool option \<Rightarrow> string \<Rightarrow> string \<Rightarrow> pool \<Rightarrow>
     ((acquire_error + tsession) \<times> pool) option" where
  "start_fresh te registry ow hook agent_type i p =
     (case load_driver registry agent_type of
        None \<Rightarrow> Some (Inl DriverUnknown, p)
      | Some dr \<Rightarrow>
          (let x = \<lparr>ts_id = i, ts_agent = agent_type, ts_status = ''starting'', ts_last_pane = None, ts_last_active = None\<rparr>;
               live1 = (if is_alive te x (po_live p) then safe_close te x (po_live p) else po_live p)
           in case open_session te dr ow x live1 of
                None \<Rightarrow> None
              | Some (Inl e, live2, _) \<Rightarrow> Some (Inl (OpenFailed e), p\<lparr>po_live := live2\<rparr>)
              | Some (Inr _, live2, x2) \<Rightarrow>
                  if hook = Some False then Some (Inl HookRaised, p\<lparr>po_live := live2\<rparr>)
                  else (case evict_if_needed te (po_max p) (move_to_end i (dict_set i x2 (po_sessions p))) live2 of
                          (ss, live3) \<Rightarrow> Some (Inr x2, p\<lparr>po_sessions := ss, po_live := live3\<rparr>))))"

definition acquire ::
    "tmux_env \<Rightarrow> (string, driver_spec) dict \<Rightarrow> open_world \<Rightarrow> bool option \<Rightarrow> string \<Rightarrow> string \<Rightarrow> pool \<Rightarrow>
     ((acquire_error + tsession) \<times> pool) option" where
  "acquire te registry ow hook agent_type i p =
     (case dict_get (po_sessions p) i of
        Some x \<Rightarrow>
          if is_alive te x (po_live p) then Some (Inr x, p\<lparr>po_sessions := move_to_end i (po_sessions p)\<rparr>)
          else start_fresh te registry ow hook agent_type i (p\<lparr>po_sessions := dict_del i (po_sessions p)\<rparr>)
      | None \<Rightarrow> start_fresh te registry ow hook agent_type i p)"

text \<open>\<open>run\<close>: the turn is fed to the session in the pool, which is the same object.\<close>

definition pool_run ::
    "tmux_env \<Rightarrow> (string, driver_spec) dict \<Rightarrow> open_world \<Rightarrow> bool option \<Rightarrow> turn_world \<Rightarrow> string \<Rightarrow> rat option \<Rightarrow> string \<Rightarrow> string \<Rightarrow> pool \<Rightarrow>
     ((acquire_error + unit + turn_result) \<times> pool) option" where
  "pool_run te registry ow hook tw prompt timeout_s agent_type i p =
     (case acquire te registry ow hook agent_type i p of
        None \<Rightarrow> None
      | Some (Inl e, p1) \<Rightarrow> Some (Inl e, p1)
      | Some (Inr x, p1) \<Rightarrow>
          (case load_driver registry (ts_agent x) of
             None \<Rightarrow> Some (Inl DriverUnknown, p1)
           | Some dr \<Rightarrow>
               (case send_prompt dr tw prompt timeout_s x of
                  None \<Rightarrow> None
                | Some (r, x') \<Rightarrow>
                    Some (Inr r, if has p1 i then p1\<lparr>po_sessions := dict_set i x' (po_sessions p1)\<rparr> else p1))))"

definition evict_one :: "tmux_env \<Rightarrow> string \<Rightarrow> pool \<Rightarrow> bool \<times> pool" where
  "evict_one te i p =
     (case dict_get (po_sessions p) i of
        None \<Rightarrow> (False, p)
      | Some x \<Rightarrow> (True, p\<lparr>po_sessions := dict_del i (po_sessions p), po_live := safe_close te x (po_live p)\<rparr>))"

fun evict_idle_from ::
    "tmux_env \<Rightarrow> (tsession \<Rightarrow> rat option) \<Rightarrow> rat \<Rightarrow> (string \<times> tsession) list \<Rightarrow> pool \<Rightarrow> string list \<times> pool" where
  "evict_idle_from te age timeout_s [] p = ([], p)"
| "evict_idle_from te age timeout_s ((i, x) # rest) p =
     (if (case age x of Some a \<Rightarrow> a > timeout_s | None \<Rightarrow> False)
      then (case evict_one te i p of
              (hit, p1) \<Rightarrow> (case evict_idle_from te age timeout_s rest p1 of (l, p2) \<Rightarrow> (if hit then i # l else l, p2)))
      else evict_idle_from te age timeout_s rest p)"

definition evict_idle :: "tmux_env \<Rightarrow> (tsession \<Rightarrow> rat option) \<Rightarrow> rat \<Rightarrow> pool \<Rightarrow> string list \<times> pool" where
  "evict_idle te age timeout_s p = evict_idle_from te age timeout_s (po_sessions p) p"

definition shutdown :: "tmux_env \<Rightarrow> pool \<Rightarrow> pool" where
  "shutdown te p = p\<lparr>po_sessions := [], po_live := fold (\<lambda>(i, x). safe_close te x) (po_sessions p) (po_live p)\<rparr>"

subsection \<open>One turn without a pool\<close>

text \<open>\<open>SessionLauncher\<close> of \<open>tmux_session.py\<close>.\<close>

definition launcher_open ::
    "tmux_env \<Rightarrow> (string, driver_spec) dict \<Rightarrow> open_world \<Rightarrow> string \<Rightarrow> string \<Rightarrow> string list \<Rightarrow>
     ((acquire_error + tsession) \<times> string list) option" where
  "launcher_open te registry ow agent_type i live =
     (case load_driver registry agent_type of
        None \<Rightarrow> Some (Inl DriverUnknown, live)
      | Some dr \<Rightarrow>
          (let x = \<lparr>ts_id = i, ts_agent = agent_type, ts_status = ''starting'', ts_last_pane = None, ts_last_active = None\<rparr>
           in case open_session te dr ow x live of
                None \<Rightarrow> None
              | Some (Inl e, live', _) \<Rightarrow> Some (Inl (OpenFailed e), live')
              | Some (Inr _, live', x') \<Rightarrow> Some (Inr x', live')))"

definition launcher_run ::
    "tmux_env \<Rightarrow> (string, driver_spec) dict \<Rightarrow> open_world \<Rightarrow> turn_world \<Rightarrow> string \<Rightarrow> string \<Rightarrow> string \<Rightarrow> bool \<Rightarrow> rat option \<Rightarrow> string list \<Rightarrow>
     ((acquire_error + unit + turn_result) \<times> string list) option" where
  "launcher_run te registry ow tw prompt agent_type i keep_alive timeout_s live =
     (case launcher_open te registry ow agent_type i live of
        None \<Rightarrow> None
      | Some (Inl e, live') \<Rightarrow> Some (Inl e, live')
      | Some (Inr x, live') \<Rightarrow>
          (case load_driver registry agent_type of
             None \<Rightarrow> Some (Inl DriverUnknown, live')
           | Some dr \<Rightarrow>
               (case send_prompt dr tw prompt timeout_s x of
                  None \<Rightarrow> None
                | Some (r, x') \<Rightarrow> Some (Inr r, if keep_alive then live' else safe_close te x' live'))))"

subsection \<open>The abstract pool\<close>

definition lru_touch :: "nat \<Rightarrow> string \<Rightarrow> string list \<Rightarrow> string list" where
  "lru_touch n i ids = (let l = filter (\<lambda>k. k \<noteq> i) ids @ [i] in drop (length l - n) l)"

lemma keys_del: "map fst (dict_del i d) = filter (\<lambda>k. k \<noteq> i) (map fst d)"
  by (induction d) (auto simp: AList.delete_eq)

lemma keys_move_to_end: "dict_get d i \<noteq> None \<Longrightarrow> map fst (move_to_end i d) = filter (\<lambda>k. k \<noteq> i) (map fst d) @ [i]"
  by (auto simp: move_to_end_def keys_del)

lemma keys_set_filter: "filter (\<lambda>k. k \<noteq> i) (map fst (dict_set i x d)) = filter (\<lambda>k. k \<noteq> i) (map fst d)"
  by (induction d) auto

lemma move_to_end_set: "dict_ok d \<Longrightarrow> move_to_end i (dict_set i x d) = dict_del i d @ [(i, x)]"
proof -
  assume "dict_ok d"
  have "dict_del i (dict_set i x d) = dict_del i d" by (induction d) (auto simp: AList.delete_eq)
  then show ?thesis by (simp add: move_to_end_def)
qed

lemma evict_if_needed_eq:
  "dict_ok ss \<Longrightarrow> evict_if_needed te n ss live =
     (drop (length ss - n) ss, fold (\<lambda>(i, x). safe_close te x) (take (length ss - n) ss) live)"
proof (induction te n ss live rule: evict_if_needed.induct)
  case (1 te n ss live)
  show ?case
  proof (cases "length ss > n")
    case True
    then obtain k x rest where ss: "ss = (k, x) # rest" by (cases ss) auto
    have ok: "dict_ok rest" "dict_del k ss = rest"
      using "1.prems" by (auto simp: ss dict_ok_def AList.delete_eq filter_id_conv rev_image_eqI)
    have "length ss - n = Suc (length rest - n)" using True by (simp add: ss Suc_diff_le)
    then show ?thesis using "1.IH" True ok by (simp add: evict_if_needed.simps [of te n "(k, x) # rest" live] ss)
  next
    case False
    then show ?thesis by (simp add: evict_if_needed.simps [of te n ss live])
  qed
qed

subsection \<open>Finding and killing the right session\<close>

text \<open>Documented behaviour of \<open>-t\<close> for a name without pattern characters: the session of exactly that name if
  there is one, and otherwise at most one whose name starts like that.\<close>

definition target_ok :: "tmux_env \<Rightarrow> bool" where
  "target_ok te \<longleftrightarrow> (\<forall>n live. list_all safe_char n \<longrightarrow>
     (n \<in> set live \<longrightarrow> tx_target te n live = Some n) \<and> (\<forall>m. tx_target te n live = Some m \<longrightarrow> m \<in> set live \<and> prefix n m))"

abbreviation agent_name :: "string \<Rightarrow> bool" where
  "agent_name n \<equiv> prefix ''frago-agent-'' n"

text \<open>Ids of one length made of safe characters, as uuids are; the agent sessions of tmux have such ids.\<close>

definition id_ok :: "nat \<Rightarrow> string \<Rightarrow> bool" where
  "id_ok L i \<longleftrightarrow> length i = L \<and> list_all safe_char i"

definition live_ok :: "nat \<Rightarrow> string list \<Rightarrow> bool" where
  "live_ok L live \<longleftrightarrow> distinct live \<and> (\<forall>n \<in> set live. agent_name n \<longrightarrow> length n = L + 12)"

lemma name_facts:
  assumes "id_ok L i"
  shows "tmux_name_for i = ''frago-agent-'' @ i" "agent_name (tmux_name_for i)" "length (tmux_name_for i) = L + 12"
    "list_all safe_char (tmux_name_for i)"
proof -
  have "map (\<lambda>c. if safe_char c then c else CHR ''_'') i = i"
    using assms by (auto simp: id_ok_def list_all_iff intro: map_idI)
  then show n: "tmux_name_for i = ''frago-agent-'' @ i" by (simp add: tmux_name_for_def)
  show "agent_name (tmux_name_for i)" "length (tmux_name_for i) = L + 12" using assms by (simp_all add: n id_ok_def)
  have "list_all safe_char ''frago-agent-''" by code_simp
  then show "list_all safe_char (tmux_name_for i)" using assms unfolding n list_all_append id_ok_def by blast
qed

lemma name_inj: "id_ok L i \<Longrightarrow> id_ok L j \<Longrightarrow> tmux_name_for i = tmux_name_for j \<longleftrightarrow> i = j"
  by (auto simp: name_facts)

lemma target_exact:
  assumes "target_ok te" "id_ok L i" "live_ok L live"
  shows "tx_target te (tmux_name_for i) live = (if tmux_name_for i \<in> set live then Some (tmux_name_for i) else None)"
proof (cases "tmux_name_for i \<in> set live")
  case False
  have "m = tmux_name_for i \<and> m \<in> set live" if "tx_target te (tmux_name_for i) live = Some m" for m
  proof -
    have m: "m \<in> set live" "prefix (tmux_name_for i) m" using assms(1) that name_facts(4) [OF assms(2)] by (auto simp: target_ok_def)
    have "agent_name m" using m(2) name_facts(2) [OF assms(2)] prefix_order.order_trans by blast
    then have "length m = length (tmux_name_for i)" using m(1) assms(3) name_facts(3) [OF assms(2)] by (auto simp: live_ok_def)
    then show ?thesis using m by (auto simp: prefix_def)
  qed
  then show ?thesis using False by (cases "tx_target te (tmux_name_for i) live") auto
qed (use assms(1) name_facts(4) [OF assms(2)] in \<open>auto simp: target_ok_def\<close>)

lemma alive_exact:
  "target_ok te \<Longrightarrow> id_ok L (ts_id x) \<Longrightarrow> live_ok L live \<Longrightarrow> is_alive te x live \<longleftrightarrow> ts_name x \<in> set live"
  by (simp add: is_alive_def has_session_def ts_name_def target_exact)

lemma close_exact:
  assumes "target_ok te" "id_ok L (ts_id x)" "live_ok L live"
  shows "safe_close te x live = remove1 (ts_name x) live"
  by (simp add: safe_close_def close_session_def kill_session_def ts_name_def target_exact [OF assms] case_prod_unfold remove1_idem)

lemma live_ok_remove1 [simp]: "live_ok L live \<Longrightarrow> live_ok L (remove1 n live)"
  by (auto simp: live_ok_def dest: notin_set_remove1)

lemma set_remove1_ok: "live_ok L live \<Longrightarrow> set (remove1 n live) = set live - {n}"
  by (simp add: live_ok_def set_remove1_eq)

definition entries_ok :: "nat \<Rightarrow> (string, tsession) dict \<Rightarrow> bool" where
  "entries_ok L ss \<longleftrightarrow> (\<forall>(i, x) \<in> set ss. ts_id x = i \<and> id_ok L i)"

lemma entries_ok_simps [simp]:
  "entries_ok L []" "entries_ok L ((i, x) # ss) \<longleftrightarrow> ts_id x = i \<and> id_ok L i \<and> entries_ok L ss"
  "entries_ok L (a @ b) \<longleftrightarrow> entries_ok L a \<and> entries_ok L b" "entries_ok L ss \<Longrightarrow> entries_ok L (dict_del k ss)"
  "entries_ok L ss \<Longrightarrow> entries_ok L (take n ss)" "entries_ok L ss \<Longrightarrow> entries_ok L (drop n ss)"
  by (auto simp: entries_ok_def AList.delete_eq dest: in_set_takeD in_set_dropD)

lemma entries_okD: "entries_ok L ss \<Longrightarrow> dict_get ss i = Some x \<Longrightarrow> ts_id x = i \<and> id_ok L i"
  by (auto simp: entries_ok_def dest: map_of_SomeD)

lemma fold_close_exact:
  assumes "target_ok te" "entries_ok L ss" "live_ok L live"
  shows "live_ok L (fold (\<lambda>(i, x). safe_close te x) ss live)
    \<and> set (fold (\<lambda>(i, x). safe_close te x) ss live) = set live - tmux_name_for ` fst ` set ss"
  using assms(2,3)
proof (induction ss arbitrary: live)
  case (Cons a ss)
  obtain i x where a: "a = (i, x)" by (cases a)
  have i: "ts_id x = i" "id_ok L i" "entries_ok L ss" using Cons.prems(1) by (simp_all add: a)
  then have c: "safe_close te x live = remove1 (tmux_name_for i) live"
    using close_exact [OF assms(1) _ Cons.prems(2), of x] by (simp add: ts_name_def)
  have "live_ok L (fold (\<lambda>(i, x). safe_close te x) ss (remove1 (tmux_name_for i) live))
      \<and> set (fold (\<lambda>(i, x). safe_close te x) ss (remove1 (tmux_name_for i) live))
          = set (remove1 (tmux_name_for i) live) - tmux_name_for ` fst ` set ss"
    by (rule Cons.IH) (use Cons.prems i in simp_all)
  then show ?case by (auto simp: a c set_remove1_ok [OF Cons.prems(2)])
qed simp

subsection \<open>Starting a session\<close>

lemma fail_startup_exact:
  assumes "fail_startup te tail y v = (r, live', x')" "target_ok te" "id_ok L (ts_id y)" "live_ok L v"
  shows "(\<exists>e. r = Inl e) \<and> live' = remove1 (ts_name y) v \<and> ts_id x' = ts_id y"
  using assms(1) close_exact [OF assms(2-4)]
  by (auto simp: fail_startup_def safe_close_def close_session_def case_prod_unfold Let_def split: if_splits)

lemma open_session_exact:
  assumes "target_ok te" "id_ok L (ts_id x)" "live_ok L live" "ts_name x \<notin> set live"
    and "ow_keys ow" "ow_handlers ow" "open_session te dr ow x live = Some (r, live', x')"
  shows "ts_id x' = ts_id x \<and> live' = (case r of Inr _ \<Rightarrow> live @ [ts_name x] | Inl _ \<Rightarrow> live)"
proof -
  let ?n = "ts_name x"
  have l1: "live_ok L (live @ [?n])"
    using assms(2,3,4) name_facts(3) [OF assms(2)] by (auto simp: live_ok_def ts_name_def)
  have f: "fail_startup te tail (x\<lparr>ts_last_pane := l\<rparr>) v = (r, live', x') \<Longrightarrow> v \<in> {live, live @ [?n]} \<Longrightarrow>
      ts_id x' = ts_id x \<and> live' = (case r of Inr _ \<Rightarrow> live @ [?n] | Inl _ \<Rightarrow> live)" for tail l v
    using fail_startup_exact [of te tail "x\<lparr>ts_last_pane := l\<rparr>" v r live' x' L] assms(1-4) l1
    by (auto simp: ts_name_def remove1_append remove1_idem)
  have rm: "removeAll ?n (live @ [?n]) = live" using assms(4) by simp
  show ?thesis
    using assms(4-7)
    by (auto simp: open_session_def Let_def rm split: if_splits option.splits prod.splits wait_end.splits dest!: f)
qed

subsection \<open>The invariant\<close>

text \<open>\<open>orphans\<close> are the agent sessions tmux had before the pool existed.\<close>

definition pool_ok :: "nat \<Rightarrow> string set \<Rightarrow> pool \<Rightarrow> bool" where
  "pool_ok L orphans p \<longleftrightarrow> 1 \<le> po_max p \<and> dict_ok (po_sessions p) \<and> length (po_sessions p) \<le> po_max p \<and> entries_ok L (po_sessions p)
     \<and> live_ok L (po_live p)
     \<and> (\<forall>n \<in> set (po_live p). agent_name n \<longrightarrow> n \<in> orphans \<union> tmux_name_for ` fst ` set (po_sessions p))"

lemma dict_del_absent: "dict_get d i = None \<Longrightarrow> dict_del i d = d"
  by (simp add: delete_idem map_of_eq_None_iff)

lemma filter_absent: "dict_get d i = None \<Longrightarrow> filter (\<lambda>k. k \<noteq> i) (map fst d) = map fst d"
  by (auto simp: filter_id_conv map_of_eq_None_iff)

definition acquired_ok :: "string \<Rightarrow> pool \<Rightarrow> acquire_error + tsession \<Rightarrow> pool \<Rightarrow> bool" where
  "acquired_ok i p r p' \<longleftrightarrow> po_max p' = po_max p \<and>
     (case r of
        Inr x \<Rightarrow> active_ids p' = lru_touch (po_max p) i (active_ids p) \<and> peek p' i = Some x \<and> ts_id x = i \<and> ts_name x \<in> set (po_live p')
      | Inl _ \<Rightarrow> active_ids p' = filter (\<lambda>k. k \<noteq> i) (active_ids p))"

lemma start_fresh_ok:
  assumes "target_ok te" "pool_ok L orphans p" "id_ok L i" "dict_get (po_sessions p) i = None"
    and "ow_keys ow" "ow_handlers ow" "hook \<noteq> Some False" "start_fresh te registry ow hook agent_type i p = Some (r, p')"
  shows "pool_ok L orphans p' \<and> acquired_ok i p r p'"
proof (cases "load_driver registry agent_type")
  case None
  then show ?thesis using assms(2,4,8) by (auto simp: start_fresh_def acquired_ok_def active_ids_def filter_absent)
next
  case (Some dr)
  define x where "x = \<lparr>ts_id = i, ts_agent = agent_type, ts_status = ''starting'', ts_last_pane = None, ts_last_active = None\<rparr>"
  define live1 where "live1 = (if is_alive te x (po_live p) then safe_close te x (po_live p) else po_live p)"
  let ?n = "tmux_name_for i" and ?ss = "po_sessions p"
  have x: "ts_id x = i" "ts_name x = ?n" by (simp_all add: x_def ts_name_def)
  have pk: "1 \<le> po_max p" "dict_ok ?ss" "entries_ok L ?ss" "live_ok L (po_live p)" "length ?ss \<le> po_max p"
    "\<And>n. n \<in> set (po_live p) \<Longrightarrow> agent_name n \<Longrightarrow> n \<in> orphans \<union> tmux_name_for ` fst ` set ?ss"
    using assms(2) by (auto simp: pool_ok_def)
  have l1: "live_ok L live1" "set live1 = set (po_live p) - {?n}"
    using alive_exact [OF assms(1) _ pk(4), of x] close_exact [OF assms(1) _ pk(4), of x] assms(3) x pk(4)
    by (auto simp: live1_def set_remove1_ok)
  note eq = assms(8) [unfolded start_fresh_def Some option.case Let_def, folded x_def, folded live1_def]
  obtain r1 live2 x2 where o: "open_session te dr ow x live1 = Some (r1, live2, x2)"
  proof (cases "open_session te dr ow x live1")
    case None
    then show ?thesis using eq by simp
  next
    case (Some a)
    then show ?thesis using that by (cases a) blast
  qed
  have o2: "ts_id x2 = i" "live2 = (case r1 of Inr _ \<Rightarrow> live1 @ [?n] | Inl _ \<Rightarrow> live1)"
    using open_session_exact [OF assms(1) _ l1(1) _ assms(5,6) o] x assms(3) l1(2) by (simp_all split: sum.split)
  show ?thesis
  proof (cases r1)
    case (Inl e)
    then have "r = Inl (OpenFailed e)" "p' = p\<lparr>po_live := live1\<rparr>"
      using eq o o2(2) by simp_all
    then show ?thesis using assms(2,4) l1 pk by (auto simp: pool_ok_def acquired_ok_def active_ids_def filter_absent)
  next
    case (Inr u)
    define ss2 where "ss2 = ?ss @ [(i, x2)]"
    have d2: "dict_ok ss2" using pk(2) assms(4) by (auto simp: ss2_def dict_ok_def map_of_eq_None_iff)
    have e2: "entries_ok L ss2" using pk(3) o2(1) assms(3) by (simp add: ss2_def)
    let ?k = "length ss2 - po_max p"
    have k: "?k \<le> length ?ss" using pk(1) by (auto simp: ss2_def)
    have lv: "live_ok L live2" "set live2 = insert ?n (set live1)"
      using o2(2) Inr l1 name_facts(3) [OF assms(3)] by (auto simp: live_ok_def)
    define live3 where "live3 = fold (\<lambda>(i, x). safe_close te x) (take ?k ss2) live2"
    have "r = Inr x2 \<and> p' = p\<lparr>po_sessions := drop ?k ss2, po_live := live3\<rparr>"
      using assms(7) eq o Inr d2
      by (simp add: move_to_end_set [OF pk(2)] dict_del_absent [OF assms(4)] evict_if_needed_eq ss2_def [symmetric] live3_def)
    then have r: "r = Inr x2" and p': "p' = p\<lparr>po_sessions := drop ?k ss2, po_live := live3\<rparr>" by simp_all
    have l3: "live_ok L live3" "set live3 = set live2 - tmux_name_for ` fst ` set (take ?k ss2)"
      using fold_close_exact [OF assms(1) _ lv(1), of "take ?k ss2"] e2 by (simp_all add: live3_def)
    have dr: "drop ?k ss2 = drop ?k ?ss @ [(i, x2)]" "take ?k ss2 = take ?k ?ss" using k by (simp_all add: ss2_def)
    have fresh: "?n \<notin> tmux_name_for ` fst ` set (take ?k ss2)"
    proof
      assume "?n \<in> tmux_name_for ` fst ` set (take ?k ss2)"
      then obtain j y where j: "(j, y) \<in> set ?ss" "tmux_name_for j = ?n" unfolding dr(2) by (auto dest: in_set_takeD)
      then have "j = i" using pk(3) name_inj [OF _ assms(3), of j] by (auto simp: entries_ok_def)
      then show False using j(1) assms(4) by (force simp: map_of_eq_None_iff)
    qed
    have in_live: "?n \<in> set live3" using fresh l3(2) lv(2) by simp
    have own: "n \<in> orphans \<union> tmux_name_for ` fst ` set (drop ?k ss2)" if "n \<in> set live3" "agent_name n" for n
    proof (cases "n = ?n")
      case False
      have n: "n \<in> set (po_live p)" "n \<notin> tmux_name_for ` fst ` set (take ?k ?ss)"
        using False that(1) l3(2) lv(2) l1(2) dr(2) by simp_all
      have "set ?ss = set (take ?k ?ss) \<union> set (drop ?k ?ss)" by (metis append_take_drop_id set_append)
      then have "tmux_name_for ` fst ` set ?ss = tmux_name_for ` fst ` set (take ?k ?ss) \<union> tmux_name_for ` fst ` set (drop ?k ?ss)"
        by (metis image_Un)
      then show ?thesis using pk(6) [OF n(1) that(2)] n(2) by (simp add: dr)
    qed (simp add: dr)
    have "length (drop ?k ss2) \<le> po_max p" by simp
    moreover have "dict_ok (drop ?k ss2)" using d2 by (simp add: dict_ok_def drop_map [symmetric] distinct_drop)
    ultimately have "pool_ok L orphans p'" using pk(1) e2 l3(1) own by (simp add: p' pool_ok_def)
    moreover have "active_ids p' = lru_touch (po_max p) i (active_ids p)"
      using pk(1) by (simp add: active_ids_def p' lru_touch_def filter_absent [OF assms(4)] drop_map ss2_def)
    moreover have "dict_get (drop ?k ?ss) i = None"
      using assms(4) set_drop_subset [of ?k ?ss] by (auto simp: map_of_eq_None_iff)
    then have "peek p' i = Some x2" by (simp add: peek_def p' dr map_add_def)
    ultimately show ?thesis using in_live o2(1) by (simp add: r p' acquired_ok_def ts_name_def)
  qed
qed

lemma acquire_ok:
  assumes "target_ok te" "pool_ok L orphans p" "id_ok L i"
    and "ow_keys ow" "ow_handlers ow" "hook \<noteq> Some False" "acquire te registry ow hook agent_type i p = Some (r, p')"
  shows "pool_ok L orphans p' \<and> acquired_ok i p r p'"
proof (cases "dict_get (po_sessions p) i")
  case None
  then show ?thesis using assms start_fresh_ok [OF assms(1-3) None assms(4-6)] by (simp add: acquire_def)
next
  case (Some x)
  note pk = assms(2) [unfolded pool_ok_def]
  have x: "ts_id x = i" using entries_okD [OF _ Some] pk by blast
  have al: "is_alive te x (po_live p) \<longleftrightarrow> tmux_name_for i \<in> set (po_live p)"
    using alive_exact [OF assms(1), of L x "po_live p"] assms(3) pk x by (simp add: ts_name_def)
  show ?thesis
  proof (cases "is_alive te x (po_live p)")
    case True
    define d where "d = dict_del i (po_sessions p) @ [(i, x)]"
    have p': "r = Inr x" "p' = p\<lparr>po_sessions := d\<rparr>" using assms(7) Some True by (simp_all add: acquire_def move_to_end_def d_def)
    have ks: "set d = set (po_sessions p)"
      using Some pk by (auto simp: d_def AList.delete_eq dict_ok_def dest: map_of_SomeD eq_key_imp_eq_value)
    have dk: "dict_ok d" using pk by (auto simp: d_def dict_ok_def keys_del distinct_delete)
    then have len: "length d = length (po_sessions p)"
      using ks pk by (metis dict_ok_def distinct_card distinct_map)
    have "pool_ok L orphans p'" using pk len dk by (simp add: p' pool_ok_def ks entries_ok_def)
    moreover have k: "map fst d = filter (\<lambda>k. k \<noteq> i) (map fst (po_sessions p)) @ [i]" by (simp add: d_def keys_del)
    then have "length (filter (\<lambda>k. k \<noteq> i) (map fst (po_sessions p)) @ [i]) \<le> po_max p" using len pk by (metis length_map)
    then have "active_ids p' = lru_touch (po_max p) i (active_ids p)" by (simp add: active_ids_def p' lru_touch_def k)
    moreover have "peek p' i = Some x" by (simp add: p' peek_def d_def map_add_def)
    ultimately show ?thesis using True al x by (simp add: acquired_ok_def p' ts_name_def)
  next
    case False
    let ?p = "p\<lparr>po_sessions := dict_del i (po_sessions p)\<rparr>"
    have "n \<in> orphans \<union> tmux_name_for ` fst ` set (dict_del i (po_sessions p))" if "n \<in> set (po_live p)" "agent_name n" for n
    proof -
      have "n \<noteq> tmux_name_for i" using that(1) False al by auto
      then show ?thesis using pk that by (fastforce simp: AList.delete_eq)
    qed
    then have ok: "pool_ok L orphans ?p" using pk length_dict_del_le [of i "po_sessions p"] by (auto simp: pool_ok_def intro: le_trans)
    have "start_fresh te registry ow hook agent_type i ?p = Some (r, p')" using assms(7) Some False by (simp add: acquire_def)
    from start_fresh_ok [OF assms(1) ok assms(3) _ assms(4-6) this] show ?thesis
      by (simp add: acquired_ok_def active_ids_def keys_del lru_touch_def split: sum.splits)
  qed
qed

lemma evict_one_ok:
  assumes "target_ok te" "pool_ok L orphans p"
  shows "pool_ok L orphans (snd (evict_one te i p)) \<and> po_max (snd (evict_one te i p)) = po_max p
    \<and> po_sessions (snd (evict_one te i p)) = dict_del i (po_sessions p)"
proof (cases "dict_get (po_sessions p) i")
  case None
  then show ?thesis using assms(2) by (simp add: evict_one_def dict_del_absent)
next
  case (Some x)
  note pk = assms(2) [unfolded pool_ok_def]
  have x: "ts_id x = i" "id_ok L i" using entries_okD [OF _ Some] pk by blast+
  have c: "safe_close te x (po_live p) = remove1 (tmux_name_for i) (po_live p)"
    using close_exact [OF assms(1), of L x] pk x by (simp add: ts_name_def)
  have "n \<in> orphans \<union> tmux_name_for ` fst ` set (dict_del i (po_sessions p))"
    if "n \<in> set (remove1 (tmux_name_for i) (po_live p))" "agent_name n" for n
  proof -
    have "n \<in> set (po_live p)" "n \<noteq> tmux_name_for i" using that(1) set_remove1_ok pk by auto
    then show ?thesis using pk that(2) by (fastforce simp: AList.delete_eq)
  qed
  then show ?thesis
    using pk length_dict_del_le [of i "po_sessions p"] by (auto simp: evict_one_def Some c pool_ok_def intro: le_trans)
qed

lemma evict_idle_from_ok:
  assumes "target_ok te" "pool_ok L orphans p"
  shows "pool_ok L orphans (snd (evict_idle_from te age t l p)) \<and> po_max (snd (evict_idle_from te age t l p)) = po_max p"
  using assms(2)
proof (induction l arbitrary: p)
  case (Cons a l)
  obtain i x where a: "a = (i, x)" by (cases a)
  show ?case
    using Cons.IH [OF Cons.prems] Cons.IH [of "snd (evict_one te i p)"] evict_one_ok [OF assms(1) Cons.prems, of i]
    by (auto simp: a case_prod_unfold)
qed simp

lemma pool_ok_live:
  "pool_ok L orphans p \<Longrightarrow> pool_ok L orphans (p\<lparr>po_live := remove1 n (po_live p)\<rparr>)"
  by (auto simp: pool_ok_def dest: notin_set_remove1)

lemma dict_set_present:
  "dict_get d i \<noteq> None \<Longrightarrow> map fst (dict_set i x d) = map fst d"
  "dict_get d i \<noteq> None \<Longrightarrow> entries_ok L d \<Longrightarrow> ts_id x = i \<Longrightarrow> entries_ok L (dict_set i x d)"
  by (induction d) (auto simp: entries_ok_def split: if_splits)

lemma pool_ok_update:
  assumes "pool_ok L orphans p" "ts_id x = i" "dict_get (po_sessions p) i \<noteq> None"
  shows "pool_ok L orphans (p\<lparr>po_sessions := dict_set i x (po_sessions p)\<rparr>)"
proof -
  note k = dict_set_present(1) [OF assms(3), of x]
  have "fst ` set (dict_set i x (po_sessions p)) = fst ` set (po_sessions p)" by (metis k list.set_map)
  moreover have "length (dict_set i x (po_sessions p)) = length (po_sessions p)" by (metis k length_map)
  ultimately show ?thesis
    using assms dict_set_present(2) [OF assms(3) _ assms(2), of L] k by (simp add: pool_ok_def dict_ok_def)
qed

subsection \<open>Any sequence of uses\<close>

text \<open>Uses of the pool by ids of one length, with agents dying at any time between them. A start may fail or time
  out; what is left out is an exception in the middle of a start (a lost keystroke, a handler or a resume hook that
  raises), after which the session is left to the next use of its id.\<close>

inductive pool_reach :: "tmux_env \<Rightarrow> nat \<Rightarrow> string set \<Rightarrow> pool \<Rightarrow> bool" for te L orphans where
  start: "new_pool n live = Some p \<Longrightarrow> live_ok L live \<Longrightarrow> (\<And>m. m \<in> set live \<Longrightarrow> agent_name m \<Longrightarrow> m \<in> orphans) \<Longrightarrow> pool_reach te L orphans p"
| acquired: "pool_reach te L orphans p \<Longrightarrow> id_ok L i \<Longrightarrow> ow_keys ow \<Longrightarrow> ow_handlers ow \<Longrightarrow> hook \<noteq> Some False \<Longrightarrow>
    acquire te registry ow hook agent_type i p = Some (r, p') \<Longrightarrow> pool_reach te L orphans p'"
| ran: "pool_reach te L orphans p \<Longrightarrow> id_ok L i \<Longrightarrow> ow_keys ow \<Longrightarrow> ow_handlers ow \<Longrightarrow> hook \<noteq> Some False \<Longrightarrow>
    pool_run te registry ow hook tw prompt timeout_s agent_type i p = Some (q, p') \<Longrightarrow> pool_reach te L orphans p'"
| evicted: "pool_reach te L orphans p \<Longrightarrow> pool_reach te L orphans (snd (evict_one te i p))"
| idled: "pool_reach te L orphans p \<Longrightarrow> pool_reach te L orphans (snd (evict_idle te age timeout p))"
| died: "pool_reach te L orphans p \<Longrightarrow> pool_reach te L orphans (p\<lparr>po_live := remove1 n (po_live p)\<rparr>)"

lemma send_prompt_id: "send_prompt dr tw prompt t x = Some (r, x') \<Longrightarrow> ts_id x' = ts_id x"
  by (auto simp: send_prompt_def split: option.splits prod.splits sum.splits turn_stop.splits)

lemma pool_run_ok:
  assumes "target_ok te" "pool_ok L orphans p" "id_ok L i" "ow_keys ow" "ow_handlers ow" "hook \<noteq> Some False"
    and "pool_run te registry ow hook tw prompt timeout_s agent_type i p = Some (q, p')"
  shows "pool_ok L orphans p'"
proof -
  obtain r p1 where a: "acquire te registry ow hook agent_type i p = Some (r, p1)"
    using assms(7) by (cases "acquire te registry ow hook agent_type i p") (auto simp: pool_run_def)
  note ok = acquire_ok [OF assms(1-6) a]
  show ?thesis
  proof (cases r)
    case (Inl e)
    then show ?thesis using assms(7) a ok by (simp add: pool_run_def)
  next
    case (Inr x)
    show ?thesis
    proof (cases "load_driver registry (ts_agent x)")
      case None
      then show ?thesis using assms(7) a ok Inr by (simp add: pool_run_def)
    next
      case (Some dr)
      obtain y x' where s: "send_prompt dr tw prompt timeout_s x = Some (y, x')"
        using assms(7) a Inr Some by (cases "send_prompt dr tw prompt timeout_s x") (auto simp: pool_run_def)
      have "p' = (if has p1 i then p1\<lparr>po_sessions := dict_set i x' (po_sessions p1)\<rparr> else p1)"
        using assms(7) a Inr Some s by (simp add: pool_run_def)
      moreover have "ts_id x' = i" using send_prompt_id [OF s] ok Inr by (simp add: acquired_ok_def)
      ultimately show ?thesis using ok pool_ok_update [of L orphans p1 x' i] by (simp add: has_def)
    qed
  qed
qed

lemma pool_reach_ok:
  assumes "target_ok te" "pool_reach te L orphans p"
  shows "pool_ok L orphans p"
  using assms(2)
proof (induction rule: pool_reach.induct)
  case (start n live p)
  then show ?case by (auto simp: new_pool_def pool_ok_def split: if_splits)
next
  case (acquired p i ow hook registry agent_type r p')
  then show ?case using acquire_ok [OF assms(1)] by blast
next
  case (ran p i ow hook registry tw prompt timeout_s agent_type q p')
  then show ?case using pool_run_ok [OF assms(1)] by blast
next
  case (evicted p i)
  then show ?case using evict_one_ok [OF assms(1)] by blast
next
  case (idled p age timeout)
  then show ?case using evict_idle_from_ok [OF assms(1)] by (simp add: evict_idle_def)
next
  case (died p n)
  from died.IH show ?case by (rule pool_ok_live)
qed

text \<open>A turn outside the pool leaves no agent behind, whether it ends with an answer or an exception.\<close>

lemma launcher_run_clean:
  assumes "target_ok te" "id_ok L i" "live_ok L live" "tmux_name_for i \<notin> set live" "ow_keys ow" "ow_handlers ow"
    and "launcher_run te registry ow tw prompt agent_type i False timeout_s live = Some (q, live')"
  shows "live' = live"
proof (cases "load_driver registry agent_type")
  case None
  then show ?thesis using assms(7) by (simp add: launcher_run_def launcher_open_def)
next
  case (Some dr)
  define x :: tsession where "x = \<lparr>ts_id = i, ts_agent = agent_type, ts_status = ''starting'', ts_last_pane = None, ts_last_active = None\<rparr>"
  have x: "ts_id x = i" "ts_name x = tmux_name_for i" by (simp_all add: x_def ts_name_def)
  obtain r live1 x1 where o: "open_session te dr ow x live = Some (r, live1, x1)"
    using assms(7) Some by (cases "open_session te dr ow x live") (auto simp: launcher_run_def launcher_open_def x_def)
  have e: "ts_id x1 = i" "live1 = (case r of Inr _ \<Rightarrow> live @ [tmux_name_for i] | Inl _ \<Rightarrow> live)"
    using open_session_exact [OF assms(1) _ assms(3) _ assms(5,6) o] assms(2,4) by (simp_all add: x split: sum.splits)
  show ?thesis
  proof (cases r)
    case (Inl err)
    then show ?thesis using assms(7) Some o e by (simp add: launcher_run_def launcher_open_def x_def [symmetric])
  next
    case (Inr u)
    obtain y x' where t: "send_prompt dr tw prompt timeout_s x1 = Some (y, x')"
      using assms(7) Some o Inr
      by (cases "send_prompt dr tw prompt timeout_s x1") (auto simp: launcher_run_def launcher_open_def x_def [symmetric])
    have "ts_id x' = i" using send_prompt_id [OF t] e by simp
    then have i: "id_ok L (ts_id x')" "ts_name x' = tmux_name_for i" using assms(2) by (simp_all add: ts_name_def)
    have "live_ok L (live @ [tmux_name_for i])"
      using assms(3,4) name_facts(3) [OF assms(2)] by (auto simp: live_ok_def)
    then have "safe_close te x' (live @ [tmux_name_for i]) = live"
      using close_exact [OF assms(1) i(1)] assms(4) by (simp add: i(2) remove1_append)
    then show ?thesis using assms(7) Some o Inr t e by (simp add: launcher_run_def launcher_open_def x_def [symmetric])
  qed
qed

subsection \<open>Properties\<close>

text \<open>A tmux that picks the first session whose name starts as asked, and a driver whose agent is ready at once.\<close>

definition demo_tmux :: tmux_env where
  "demo_tmux = \<lparr>tx_target = (\<lambda>n live. if n \<in> set live then Some n else find (prefix n) live)\<rparr>"

definition demo_open :: open_world where
  "demo_open = \<lparr>ow_new = True, ow_keys = True, ow_turn = demo_world, ow_screen = None, ow_handlers = True\<rparr>"

definition demo_load :: "(string, driver_spec) dict" where
  "demo_load = register_driver ''claude'' demo_driver []"

definition demo_opened :: "string \<Rightarrow> tsession" where
  "demo_opened i = (demo_session i)\<lparr>ts_last_pane := Some ''>'', ts_status := ''ready'', ts_last_active := Some 3\<rparr>"

lemma demo_target_ok: "target_ok demo_tmux"
  by (auto simp: target_ok_def demo_tmux_def find_Some_iff)

lemma demo_open_session:
  assumes "tmux_name_for i \<notin> set live"
  shows "open_session demo_tmux demo_driver demo_open (demo_session i) live = Some (Inr (), live @ [tmux_name_for i], demo_opened i)"
proof -
  have c: "capture_resilient False (tw_capture demo_world 0) None = (Some ''>'', Some ''>'')"
    by (simp add: capture_resilient_def demo_world_def)
  have "wait_loop [(''hit'', \<lambda>i. dr_ready demo_driver)] d demo_world 0 None = Some (Hit ''hit'' 0, Some ''>'')" for d
    by (subst wait_loop.simps) (simp add: c, simp add: demo_driver_def)
  moreover have "tw_wall demo_world = 3" by (simp add: demo_world_def)
  ultimately show ?thesis
    using assms by (simp add: open_session_def demo_open_def demo_session_def demo_opened_def ts_name_def wait_for_any_def Let_def)
qed

lemma demo_acquire:
  assumes "dict_ok (po_sessions p)" "dict_get (po_sessions p) i = None" "tx_target demo_tmux (tmux_name_for i) (po_live p) = None"
  shows "acquire demo_tmux demo_load demo_open None ''claude'' i p =
    (let l = po_sessions p @ [(i, demo_opened i)]; k = length l - po_max p
     in Some (Inr (demo_opened i), p\<lparr>po_sessions := drop k l,
          po_live := fold (\<lambda>(i, x). safe_close demo_tmux x) (take k l) (po_live p @ [tmux_name_for i])\<rparr>))"
proof -
  have n: "tmux_name_for i \<notin> set (po_live p)" using assms(3) by (auto simp: demo_tmux_def)
  have l: "move_to_end i (dict_set i (demo_opened i) (po_sessions p)) = po_sessions p @ [(i, demo_opened i)]"
    using assms(1,2) by (simp add: move_to_end_set dict_del_absent)
  have "i \<notin> fst ` set (po_sessions p)" using assms(2) by (simp add: map_of_eq_None_iff)
  then have "dict_ok (po_sessions p @ [(i, demo_opened i)])" using assms(1) by (simp add: dict_ok_def)
  note e = evict_if_needed_eq [OF this, of demo_tmux "po_max p" "po_live p @ [tmux_name_for i]"]
  have "\<not> is_alive demo_tmux (demo_session i) (po_live p)"
    using assms(3) by (simp add: is_alive_def has_session_def ts_name_def demo_session_def)
  then show ?thesis
    using demo_open_session [OF n] assms(2)
    by (simp add: acquire_def start_fresh_def demo_load_def register_driver_def load_driver_def Let_def l e demo_session_def [symmetric])
qed

definition demo_pool :: "(string, tsession) dict \<Rightarrow> string list \<Rightarrow> pool" where
  "demo_pool ss live = \<lparr>po_max = 1, po_sessions = ss, po_live = live\<rparr>"

lemma demo_pool_first:
  "acquire demo_tmux demo_load demo_open None ''claude'' ''s1'' (demo_pool [] [''main''])
     = Some (Inr (demo_opened ''s1''), demo_pool [(''s1'', demo_opened ''s1'')] [''main'', ''frago-agent-s1''])"
  by (subst demo_acquire) (simp_all add: demo_pool_def dict_ok_def demo_tmux_def tmux_name_for_def safe_char_def is_alnum_def Let_def)

lemma demo_pool_second:
  "acquire demo_tmux demo_load demo_open None ''claude'' ''s2'' (demo_pool [(''s1'', demo_opened ''s1'')] [''main'', ''frago-agent-s1''])
     = Some (Inr (demo_opened ''s2''), demo_pool [(''s2'', demo_opened ''s2'')] [''main'', ''frago-agent-s2''])"
  by (subst demo_acquire) (simp_all add: demo_pool_def dict_ok_def demo_tmux_def tmux_name_for_def safe_char_def is_alnum_def Let_def
      safe_close_def close_session_def kill_session_def ts_name_def demo_opened_def demo_session_def)

lemma demo_ids: "id_ok 2 ''s1''" "id_ok 2 ''s2''"
  by code_simp+

lemma demo_flags: "ow_keys demo_open" "ow_handlers demo_open"
  by (simp_all add: demo_open_def)

lemma demo_pool_reach: "pool_reach demo_tmux 2 {} (demo_pool [(''s1'', demo_opened ''s1'')] [''main'', ''frago-agent-s1''])"
proof -
  have "pool_reach demo_tmux 2 {} (demo_pool [] [''main''])"
    by (rule pool_reach.start [of 1 "[''main'']"]) (auto simp: new_pool_def demo_pool_def live_ok_def)
  from pool_reach.acquired [OF this demo_ids(1) demo_flags _ demo_pool_first] show ?thesis by simp
qed





subsection \<open>Names that tmux takes for others\<close>

text \<open>\<open>tmux_name_for\<close> promises a unique name for every id; ids that differ in an unsafe character share one.\<close>

theorem tmux_names_collide: "tmux_name_for ''feishu:oc'' = tmux_name_for ''feishu.oc''"
  by code_simp

text \<open>Starting a session whose name is the beginning of another one's kills the other one, which the pool goes on
  listing.\<close>

theorem prefix_kills_other:
  "acquire demo_tmux demo_load demo_open None ''claude'' ''s''
       \<lparr>po_max = 2, po_sessions = [(''s1'', demo_opened ''s1'')], po_live = [''frago-agent-s1'']\<rparr>
     = Some (Inr (demo_opened ''s''),
         \<lparr>po_max = 2, po_sessions = [(''s1'', demo_opened ''s1''), (''s'', demo_opened ''s'')], po_live = [''frago-agent-s'']\<rparr>)"
proof -
  have n: "tmux_name_for ''s'' = ''frago-agent-s''" by code_simp
  have a: "is_alive demo_tmux (demo_session ''s'') [''frago-agent-s1'']" "safe_close demo_tmux (demo_session ''s'') [''frago-agent-s1''] = []"
    by (simp_all add: is_alive_def has_session_def safe_close_def close_session_def kill_session_def ts_name_def demo_session_def
        demo_tmux_def n)
  have o: "open_session demo_tmux demo_driver demo_open (demo_session ''s'') [] = Some (Inr (), [''frago-agent-s''], demo_opened ''s'')"
    using demo_open_session [of "''s''" "[]"] by (simp add: n)
  show ?thesis
    using a o by (simp add: acquire_def start_fresh_def demo_load_def register_driver_def load_driver_def Let_def demo_session_def [symmetric] move_to_end_def
        evict_if_needed.simps)
qed

end
