(* ===== verification/Schedule_Executor.thy ===== *)
theory Schedule_Executor
  imports Passwords
begin

text \<open>
  \<open>server/services/schedule_executor.py\<close>: how a scheduled command or recipe is run, whether its result is worth a
  notice, and where the notice goes. A schedule is a JSON object. Whatever the processes, the recipe runner and the
  channels answer is part of the world; the fixed Chinese phrases of the messages lie outside the modelled characters
  and are looked up under an English name.
\<close>

text \<open>Exceptions, as far as the callers tell them apart: \<open>ValueError\<close> and \<open>KeyError\<close>, and all others.\<close>

datatype py_raise = ValueErr | OtherErr

datatype proc_result = ProcTimeout | ProcRaised string | ProcDone int string string

datatype recipe_result = RecipeRaised string | RecipeReturned json

record sched_env =
  sx_sha256 :: "string \<Rightarrow> string"
  sx_dumps :: "json \<Rightarrow> string"
  sx_loads :: "string \<Rightarrow> json option"
  sx_str :: "json \<Rightarrow> string"
  sx_phrase :: "string \<Rightarrow> string"
  sx_iso :: "rat \<Rightarrow> string"
  sx_from_iso :: "string \<Rightarrow> rat option"
  sx_cron :: "json \<Rightarrow> rat \<Rightarrow> py_raise + rat"

record sched_world =
  sw_which :: "string \<Rightarrow> string option"
  sw_home :: string
  sw_run :: "string list \<Rightarrow> string \<Rightarrow> int \<Rightarrow> proc_result \<times> int"
  sw_recipe :: "string \<Rightarrow> json \<Rightarrow> int \<Rightarrow> recipe_result \<times> int"
  sw_config :: "file_text option"
  sw_desktop :: "string \<Rightarrow> string \<Rightarrow> bool"
  sw_channel :: "string \<Rightarrow> string \<Rightarrow> json \<Rightarrow> string option"
  sw_exc_text :: "py_raise \<Rightarrow> string"

definition NOTIFY_EXCERPT_LIMIT :: nat where "NOTIFY_EXCERPT_LIMIT = 600"
definition FAILURE_ESCALATION_POINTS :: "int list" where "FAILURE_ESCALATION_POINTS = [1, 2, 5, 10, 20, 50, 100]"
definition STALENESS_PERIODS :: int where "STALENESS_PERIODS = 3"

record run_outcome =
  ro_ok :: bool
  ro_kind :: string
  ro_exit_code :: "int option"
  ro_stdout :: string
  ro_stderr :: string
  ro_duration_ms :: int
  ro_error :: string
  ro_notify_text :: "string option"
  ro_digest :: string
  ro_payload :: entry

text \<open>A \<open>RunOutcome\<close> with its defaults.\<close>

definition failed_outcome :: "string \<Rightarrow> string \<Rightarrow> int \<Rightarrow> run_outcome" where
  "failed_outcome kind err duration =
     \<lparr>ro_ok = False, ro_kind = kind, ro_exit_code = None, ro_stdout = [], ro_stderr = [], ro_duration_ms = duration, ro_error = err,
      ro_notify_text = None, ro_digest = [], ro_payload = []\<rparr>"

subsection \<open>Python values\<close>

text \<open>\<open>str(x)\<close>, \<open>int(x)\<close>, a default for a missing key, and \<open>a or b\<close>.\<close>

definition text_of :: "sched_env \<Rightarrow> json \<Rightarrow> string" where
  "text_of E j = (case j of JStr s \<Rightarrow> s | _ \<Rightarrow> sx_str E j)"

fun int_of :: "json \<Rightarrow> py_raise + int" where
  "int_of (JNum n) = Inr n"
| "int_of (JBool b) = Inr (if b then 1 else 0)"
| "int_of (JFloat q) = Inr (if 0 \<le> q then \<lfloor>q\<rfloor> else \<lceil>q\<rceil>)"
| "int_of (JStr s) = (case py_int s of Some n \<Rightarrow> Inr n | None \<Rightarrow> Inl ValueErr)"
| "int_of _ = Inl OtherErr"

definition get_def :: "entry \<Rightarrow> string \<Rightarrow> json \<Rightarrow> json" where
  "get_def d k v = (case dict_get d k of Some j \<Rightarrow> j | None \<Rightarrow> v)"

abbreviation get_none :: "entry \<Rightarrow> string \<Rightarrow> json" where
  "get_none d k \<equiv> get_def d k JNull"

definition or_else :: "json \<Rightarrow> json \<Rightarrow> json" where
  "or_else a b = (if truthy a then a else b)"

text \<open>\<open>(x or {}).get(...)\<close>: an object, or an attribute error.\<close>

definition as_obj :: "json \<Rightarrow> py_raise + entry" where
  "as_obj j = (case or_else j (JObj []) of JObj d \<Rightarrow> Inr d | _ \<Rightarrow> Inl OtherErr)"

subsection \<open>Running\<close>

definition digest :: "sched_env \<Rightarrow> string \<Rightarrow> string" where
  "digest E s = take 16 (sx_sha256 E (utf8 s))"

definition coerce_payload :: "sched_env \<Rightarrow> json \<Rightarrow> json" where
  "coerce_payload E result =
     (case result of
        JObj d \<Rightarrow>
          (case dict_get d ''output'' of
             Some (JObj inner) \<Rightarrow> JObj inner
           | Some (JStr inner) \<Rightarrow> (case sx_loads E inner of Some j \<Rightarrow> j | None \<Rightarrow> result)
           | _ \<Rightarrow> result)
      | JStr s \<Rightarrow> (case sx_loads E s of Some j \<Rightarrow> j | None \<Rightarrow> JObj [(''raw'', result)])
      | _ \<Rightarrow> JObj [(''raw'', JStr (sx_str E result))])"

definition extract_notify_field :: "json \<Rightarrow> string option" where
  "extract_notify_field payload =
     (case payload of
        JObj d \<Rightarrow>
          map_option strip
            (find (\<lambda>v. strip v \<noteq> [])
               (List.map_filter (\<lambda>k. case dict_get d k of Some (JStr v) \<Rightarrow> Some v | _ \<Rightarrow> None) [''notify'', ''summary'', ''notify_text'']))
      | _ \<Rightarrow> None)"

definition VOLATILE_KEYS :: "string list" where
  "VOLATILE_KEYS =
     [''generated_at'', ''created_at'', ''at'', ''at_local'', ''timestamp'', ''elapsed_sec'', ''duration_ms'', ''last_run_at'',
      ''last_run_local'', ''rate_remaining'', ''api_cost'', ''pages_fetched'', ''stopped_reason'', ''url'', ''data_dir'']"

text \<open>\<open>sort_keys=True\<close> orders the keys of every object on the way to the text.\<close>

fun sorted_keys :: "json \<Rightarrow> json" where
  "sorted_keys (JObj d) = JObj (sort_key fst (map (\<lambda>(k, v). (k, sorted_keys v)) d))"
| "sorted_keys (JList l) = JList (map sorted_keys l)"
| "sorted_keys j = j"

definition stable_for_digest :: "sched_env \<Rightarrow> json \<Rightarrow> string \<Rightarrow> string" where
  "stable_for_digest E payload fallback =
     (case payload of
        JObj d \<Rightarrow> sx_dumps E (sorted_keys (JObj (filter (\<lambda>(k, v). k \<notin> set VOLATILE_KEYS) d)))
      | _ \<Rightarrow> fallback)"

definition execute_recipe :: "sched_env \<Rightarrow> sched_world \<Rightarrow> string \<Rightarrow> json \<Rightarrow> int \<Rightarrow> run_outcome" where
  "execute_recipe E W recipe params timeout =
     (case sw_recipe W recipe (or_else params (JObj [])) timeout of
        (RecipeRaised e, duration) \<Rightarrow> failed_outcome ''recipe'' e duration
      | (RecipeReturned result, duration) \<Rightarrow>
          (let payload = coerce_payload E result;
               stdout = (if truthy payload then sx_dumps E (sorted_keys payload) else text_of E result);
               fields = obj_of payload;
               ok = (\<not> is_JObj payload \<or> dict_get fields ''success'' \<noteq> Some (JBool False))
           in \<lparr>ro_ok = ok, ro_kind = ''recipe'', ro_exit_code = Some (if ok then 0 else 1), ro_stdout = stdout, ro_stderr = [],
               ro_duration_ms = duration,
               ro_error = (if ok then [] else text_of E (or_else (get_none fields ''error'') (JStr (sx_phrase E ''recipe returned success=false'')))),
               ro_notify_text = extract_notify_field payload, ro_digest = digest E (stable_for_digest E payload stdout),
               ro_payload = fields\<rparr>))"

text \<open>\<open>shutil.which("bash") or shutil.which("sh") or "/bin/sh"\<close>.\<close>

definition login_shell :: "sched_world \<Rightarrow> string" where
  "login_shell W = (case sw_which W ''bash'' of Some p \<Rightarrow> p | None \<Rightarrow> (case sw_which W ''sh'' of Some p \<Rightarrow> p | None \<Rightarrow> ''/bin/sh''))"

definition int_text :: "int \<Rightarrow> string" where
  "int_text n = (if n < 0 then CHR ''-'' # dec (nat (- n)) else dec (nat n))"

definition execute_command :: "sched_env \<Rightarrow> sched_world \<Rightarrow> string \<Rightarrow> int \<Rightarrow> string option \<Rightarrow> run_outcome" where
  "execute_command E W command timeout cwd =
     (case sw_run W [login_shell W, ''-lc'', command] (case cwd of Some d \<Rightarrow> if d \<noteq> [] then d else sw_home W | None \<Rightarrow> sw_home W) timeout of
        (ProcTimeout, duration) \<Rightarrow>
          failed_outcome ''command''
            (sx_phrase E ''command timed out ('' @ int_text timeout @ sx_phrase E ''s not finished)'') duration
      | (ProcRaised e, duration) \<Rightarrow> failed_outcome ''command'' e duration
      | (ProcDone code out err, duration) \<Rightarrow>
          (let stdout = strip out; stderr = strip err; ok = (code = 0)
           in \<lparr>ro_ok = ok, ro_kind = ''command'', ro_exit_code = Some code, ro_stdout = stdout, ro_stderr = stderr,
               ro_duration_ms = duration,
               ro_error = (if ok then []
                           else take NOTIFY_EXCERPT_LIMIT
                                  (if stderr \<noteq> [] then stderr else if stdout \<noteq> [] then stdout
                                   else sx_phrase E ''exit code '' @ int_text code)),
               ro_notify_text = None, ro_digest = digest E stdout, ro_payload = []\<rparr>))"

definition kind_of :: "entry \<Rightarrow> json" where
  "kind_of s = or_else (get_none s ''kind'') (JStr (if truthy (get_none s ''recipe'') then ''recipe'' else ''prompt''))"

text \<open>A command, directory or recipe that is not text makes the call raise, and the run fails.\<close>

definition as_text :: "json \<Rightarrow> py_raise + string" where
  "as_text j = (case j of JStr s \<Rightarrow> Inr s | _ \<Rightarrow> Inl OtherErr)"

definition run_scheduled :: "sched_env \<Rightarrow> sched_world \<Rightarrow> entry \<Rightarrow> py_raise + run_outcome" where
  "run_scheduled E W s =
     bindE (int_of (or_else (get_none s ''timeout'') (JNum 300))) (\<lambda>timeout.
       if kind_of s = JStr ''command''
       then bindE (as_text (or_else (get_none s ''command'') (JStr []))) (\<lambda>command.
              bindE (as_text (or_else (get_none s ''cwd'') (JStr []))) (\<lambda>cwd.
                Inr (execute_command E W command timeout (Some cwd))))
       else if kind_of s = JStr ''recipe''
       then bindE (as_text (or_else (get_none s ''recipe'') (JStr []))) (\<lambda>recipe.
              Inr (execute_recipe E W recipe (or_else (get_none s ''params'') (JObj [])) timeout))
       else Inl ValueErr)"

subsection \<open>Is it worth a notice?\<close>

record notify_decision =
  nd_should :: bool
  nd_text :: string
  nd_reason :: string

definition silent :: "string \<Rightarrow> notify_decision" where
  "silent reason = \<lparr>nd_should = False, nd_text = [], nd_reason = reason\<rparr>"

definition say :: "string \<Rightarrow> string \<Rightarrow> notify_decision" where
  "say s reason = \<lparr>nd_should = True, nd_text = s, nd_reason = reason\<rparr>"

definition success_text :: "sched_env \<Rightarrow> string \<Rightarrow> run_outcome \<Rightarrow> bool \<Rightarrow> string" where
  "success_text E name out always =
     (let head = sx_phrase E ''['' @ name @ sx_phrase E '']'' @ sx_phrase E (if always then ''run finished'' else ''output changed'');
          body0 = (case ro_notify_text out of Some t \<Rightarrow> if t \<noteq> [] then t else ro_stdout out | None \<Rightarrow> ro_stdout out);
          body1 = (if body0 \<noteq> [] then body0 else sx_phrase E ''(no output)'');
          body = (if length body1 > NOTIFY_EXCERPT_LIMIT
                  then take NOTIFY_EXCERPT_LIMIT body1 @ sx_phrase E ''...(truncated)'' else body1)
      in head @ [newline] @ body)"

text \<open>The state the round before left: its digest and its count of failures in a row.\<close>

record prev_state =
  pv_digest :: json
  pv_failures :: json

definition schedule_name :: "sched_env \<Rightarrow> entry \<Rightarrow> string" where
  "schedule_name E s = text_of E (or_else (get_none s ''name'') (get_def s ''id'' (JStr [])))"

definition failure_notice :: "sched_env \<Rightarrow> string \<Rightarrow> run_outcome \<Rightarrow> int \<Rightarrow> notify_decision" where
  "failure_notice E name out fails =
     (if fails \<in> set FAILURE_ESCALATION_POINTS
      then let detail = take NOTIFY_EXCERPT_LIMIT
                          (if ro_error out \<noteq> [] then ro_error out else if ro_stderr out \<noteq> [] then ro_stderr out
                           else sx_phrase E ''(no error message)'');
               times = (if fails = 1 then [] else sx_phrase E ''(failed '' @ int_text fails @ sx_phrase E '' times in a row)'')
           in say (sx_phrase E ''failed: ['' @ name @ sx_phrase E ''] failed'' @ times @ [newline] @ detail) (''failure #'' @ int_text fails)
      else silent (''failure #'' @ int_text fails @ sx_phrase E '' converging''))"

definition recovery_notice :: "sched_env \<Rightarrow> string \<Rightarrow> run_outcome \<Rightarrow> json \<Rightarrow> notify_decision" where
  "recovery_notice E name out prior =
     say (sx_phrase E ''recovered: ['' @ name @ sx_phrase E ''] works again (failed '' @ text_of E prior @ sx_phrase E '' times before)''
            @ [newline]
            @ (case ro_notify_text out of Some t \<Rightarrow> if t \<noteq> [] then t else sx_phrase E ''finished normally'' | None \<Rightarrow> sx_phrase E ''finished normally''))
       ''recovered''"

definition change_notice :: "sched_env \<Rightarrow> string \<Rightarrow> run_outcome \<Rightarrow> json \<Rightarrow> notify_decision" where
  "change_notice E name out prev_digest =
     (if ro_kind out = ''recipe''
      then (case ro_notify_text out of
              Some t \<Rightarrow> if t \<noteq> [] then say (sx_phrase E ''['' @ name @ sx_phrase E '']'' @ t) (sx_phrase E ''recipe reported notify'')
                        else silent (sx_phrase E ''recipe reported nothing'')
            | None \<Rightarrow> silent (sx_phrase E ''recipe reported nothing''))
      else if \<not> truthy prev_digest then silent (sx_phrase E ''first round'')
      else if JStr (ro_digest out) \<noteq> prev_digest then say (success_text E name out False) (sx_phrase E ''output differs'')
      else silent (sx_phrase E ''output unchanged''))"

definition decide_notification :: "sched_env \<Rightarrow> entry \<Rightarrow> run_outcome \<Rightarrow> prev_state \<Rightarrow> py_raise + notify_decision" where
  "decide_notification E s out prev =
     bindE (as_obj (get_none s ''notify'')) (\<lambda>cfg.
       let on = get_def cfg ''on'' (JStr ''change''); name = schedule_name E s
       in if on = JStr ''never'' then Inr (silent ''notify.on=never'')
          else if \<not> ro_ok out then bindE (int_of (pv_failures prev)) (\<lambda>n. Inr (failure_notice E name out (n + 1)))
          else bindE (int_of (pv_failures prev)) (\<lambda>n.
                 if n > 0 \<and> on \<noteq> JStr ''failure'' then Inr (recovery_notice E name out (pv_failures prev))
                 else if on = JStr ''failure'' then Inr (silent (''notify.on=failure'' @ sx_phrase E '' and it succeeded''))
                 else if on = JStr ''always'' then Inr (say (success_text E name out True) ''notify.on=always'')
                 else Inr (change_notice E name out (pv_digest prev))))"

subsection \<open>Runs that did not happen\<close>

text \<open>\<open>is_stale\<close>: how long a schedule is overdue. A time in the record that is not text raises; text that is no time
  counts as missing.\<close>

definition time_or_none :: "sched_env \<Rightarrow> json \<Rightarrow> py_raise + rat option" where
  "time_or_none E j = (case j of JStr t \<Rightarrow> Inr (sx_from_iso E t) | _ \<Rightarrow> Inl OtherErr)"

definition is_stale :: "sched_env \<Rightarrow> entry \<Rightarrow> rat \<Rightarrow> int option \<Rightarrow> py_raise + rat option" where
  "is_stale E s clock period =
     (case period of
        None \<Rightarrow> Inr None
      | Some p \<Rightarrow>
          if p \<le> 0 then Inr None
          else bindE (if truthy (get_none s ''last_success_at'') then time_or_none E (get_none s ''last_success_at'') else Inr None) (\<lambda>last_ok.
               bindE (case last_ok of
                        Some t \<Rightarrow> Inr (Some t)
                      | None \<Rightarrow> (case dict_get s ''created_at'' of Some j \<Rightarrow> time_or_none E j | None \<Rightarrow> Inr None)) (\<lambda>ref.
                 case ref of
                   None \<Rightarrow> Inr None
                 | Some t \<Rightarrow> (let overdue = clock - t - of_int (p * STALENESS_PERIODS) in Inr (if overdue > 0 then Some overdue else None)))))"

text \<open>\<open>f"{x:.0f}"\<close> of a non-negative number: to the nearest integer, ties to even.\<close>

definition fixed0 :: "rat \<Rightarrow> string" where
  "fixed0 x =
     (let n = \<lfloor>x\<rfloor>; r = x - of_int n
      in int_text (if r < 1/2 then n else if r > 1/2 then n + 1 else if even n then n else n + 1))"

definition staleness_text :: "sched_env \<Rightarrow> entry \<Rightarrow> rat \<Rightarrow> string" where
  "staleness_text E s overdue =
     (let hours = overdue / 3600;
          span = (if hours \<ge> 1 then fixed0 hours @ sx_phrase E '' hours'' else fixed0 (overdue / 60) @ sx_phrase E '' minutes'')
      in sx_phrase E ''overdue: ['' @ schedule_name E s @ sx_phrase E ''] has not succeeded for '' @ span @ sx_phrase E ''.'' @ [newline]
         @ sx_phrase E ''last success: ''
         @ text_of E (or_else (get_none s ''last_success_at'') (JStr (sx_phrase E ''never succeeded''))) @ sx_phrase E ''.'' @ [newline]
         @ sx_phrase E ''the scheduler is alive; see '' @ ''frago schedule history '' @ text_of E (get_none s ''id'') @ sx_phrase E ''.'')"

subsection \<open>Sending a notice\<close>

datatype delivery =
    Queued
  | Delivered string string
  | Refused "string option"

text \<open>A list comprehension over what should be a list of objects.\<close>

fun names_of :: "json list \<Rightarrow> py_raise + json list" where
  "names_of [] = Inr []"
| "names_of (JObj c # cs) =
     bindE (names_of cs) (\<lambda>l. Inr (if truthy (get_none c ''name'') then get_none c ''name'' # l else l))"
| "names_of (_ # cs) = Inl OtherErr"

definition resolve_channel_names :: "sched_world \<Rightarrow> py_raise + json list" where
  "resolve_channel_names W =
     (case sw_config W of
        None \<Rightarrow> Inr []
      | Some Unparsable \<Rightarrow> Inr []
      | Some (Parsed (JObj raw)) \<Rightarrow>
          bindE (as_obj (get_none raw ''task_ingestion'')) (\<lambda>ti.
            case or_else (get_none ti ''channels'') (JList []) of JList cs \<Rightarrow> names_of cs | _ \<Rightarrow> Inl OtherErr)
      | Some (Parsed _) \<Rightarrow> Inl OtherErr)"

text \<open>The local notification gets one line of at most 240 characters.\<close>

definition deliver_desktop :: "sched_env \<Rightarrow> sched_world \<Rightarrow> entry \<Rightarrow> string \<Rightarrow> delivery" where
  "deliver_desktop E W s message =
     (let title = sx_phrase E ''frago - '' @ text_of E (or_else (get_none s ''name'') (JStr (sx_phrase E ''scheduled task'')));
          body = take 240 (map (\<lambda>c. if c = newline then CHR '' '' else c) message)
      in if sw_desktop W title body then Delivered ''ok'' ''desktop'' else Refused (Some ''desktop''))"

definition deliver :: "sched_env \<Rightarrow> sched_world \<Rightarrow> entry \<Rightarrow> string \<Rightarrow> bool \<Rightarrow> py_raise + delivery" where
  "deliver E W s message pa =
     bindE (as_obj (get_none s ''notify'')) (\<lambda>cfg.
       let target = or_else (get_none cfg ''to'') (JStr ''desktop''); context = or_else (get_none cfg ''context'') (JObj [])
       in if target = JStr ''pa'' then Inr (if pa then Queued else Refused None)
          else if target = JStr ''desktop'' then Inr (deliver_desktop E W s message)
          else bindE (resolve_channel_names W) (\<lambda>names.
                 Inr (case target of
                        JStr t \<Rightarrow>
                          if target \<in> set names
                          then (case sw_channel W t message context of Some status \<Rightarrow> Delivered status t | None \<Rightarrow> Refused (Some t))
                          else Refused (Some t)
                      | _ \<Rightarrow> Refused None)))"

fun delivery_status :: "delivery \<Rightarrow> string" where
  "delivery_status Queued = ''queued''"
| "delivery_status (Delivered status target) = status"
| "delivery_status (Refused target) = ''error''"

subsection \<open>When the scheduler speaks\<close>

text \<open>The decision in one formula.\<close>

lemma decide_failure:
  assumes "as_obj (get_none s ''notify'') = Inr cfg" "get_def cfg ''on'' (JStr ''change'') \<noteq> JStr ''never''" "\<not> ro_ok out"
    "int_of (pv_failures prev) = Inr n"
  shows "decide_notification E s out prev = Inr (failure_notice E (schedule_name E s) out (n + 1))"
  using assms by (simp add: decide_notification_def Let_def)

lemma failure_notice_should: "nd_should (failure_notice E name out k) \<longleftrightarrow> k \<in> set FAILURE_ESCALATION_POINTS"
  by (simp add: failure_notice_def say_def silent_def Let_def)

end
