(* ===== verification/Scheduler.thy ===== *)
theory Scheduler
  imports Schedule_Executor
begin

text \<open>
  \<open>server/services/scheduler_service.py\<close>: the schedules in \<open>schedules.json\<close>, which of them are due, and one pass of
  the loop over them. The records the loop goes through are the list that was current when the pass began; every
  reload binds a new list, so the model keeps both lists and whether they are still the same one. Between two
  operations other processes may change the file; within one pass they may do so while a command or recipe runs.
\<close>

record sched =
  sd_list :: "entry list"
  sd_file :: "file_text option"
  sd_active :: "json list"
  sd_pa :: bool
  sd_queue :: "entry list"
  sd_notices :: "(delivery \<times> string) list"
  sd_running :: bool
  sd_last_check :: rat

text \<open>What a pass meets: the clock, the random part of ids, whether the queue of the resident agent takes a message,
  and what others do to the file while a task runs.\<close>

record sched_tick =
  tk_clock :: rat
  tk_uuid :: string
  tk_pa_ok :: bool
  tk_meanwhile :: "file_text option \<Rightarrow> file_text option"
  tk_mono :: rat

definition new_sched :: "file_text option \<Rightarrow> sched" where
  "new_sched f = \<lparr>sd_list = [], sd_file = f, sd_active = [], sd_pa = False, sd_queue = [], sd_notices = [], sd_running = False, sd_last_check = 0\<rparr>"

subsection \<open>Times and intervals\<close>

definition sched_parse_dt :: "sched_env \<Rightarrow> json \<Rightarrow> py_raise + rat option" where
  "sched_parse_dt E j =
     (if \<not> truthy j then Inr None
      else case j of
             JStr t \<Rightarrow> (case sx_from_iso E t of Some c \<Rightarrow> Inr (Some c) | None \<Rightarrow> Inl ValueErr)
           | _ \<Rightarrow> Inl OtherErr)"

definition parse_interval :: "string \<Rightarrow> int option" where
  "parse_interval spec =
     (let t = lower (strip spec)
      in if t \<noteq> [] \<and> last t = CHR ''s'' then py_int (butlast t)
         else if t \<noteq> [] \<and> last t = CHR ''m'' then map_option (\<lambda>n. n * 60) (py_int (butlast t))
         else if t \<noteq> [] \<and> last t = CHR ''h'' then map_option (\<lambda>n. n * 3600) (py_int (butlast t))
         else py_int t)"

text \<open>The argument of \<open>timedelta(seconds=...)\<close>.\<close>

fun seconds_of :: "json \<Rightarrow> py_raise + rat" where
  "seconds_of (JNum n) = Inr (of_int n)"
| "seconds_of (JFloat q) = Inr q"
| "seconds_of (JBool b) = Inr (if b then 1 else 0)"
| "seconds_of _ = Inl OtherErr"

subsection \<open>The file\<close>

definition setdefault :: "string \<Rightarrow> json \<Rightarrow> entry \<Rightarrow> entry" where
  "setdefault k v s = (case dict_get s k of None \<Rightarrow> dict_set k v s | Some _ \<Rightarrow> s)"

definition no_notify :: json where
  "no_notify = JObj [(''on'', JStr ''never''), (''to'', JNull), (''context'', JObj [])]"

definition prompt_for :: "sched_env \<Rightarrow> json \<Rightarrow> json" where
  "prompt_for E recipe = JStr (if truthy recipe then sx_phrase E ''run recipe '' @ text_of E recipe else [])"

definition migrate_schedule :: "sched_env \<Rightarrow> entry \<Rightarrow> entry" where
  "migrate_schedule E s0 =
     (let s1 = setdefault ''name'' (get_def s0 ''recipe_name'' (JStr ''unnamed'')) s0;
          s2 = setdefault ''prompt'' (prompt_for E (get_def s1 ''recipe_name'' (JStr []))) s1;
          s3 = (case dict_get s2 ''recipe_name'' of Some r \<Rightarrow> setdefault ''recipe'' r s2 | None \<Rightarrow> s2);
          s4 = setdefault ''cron'' JNull s3;
          s5 = setdefault ''overlap'' (JStr ''skip'') s4;
          s6 = setdefault ''timeout'' (JNum 300) s5;
          s7 = setdefault ''history'' (JList []) s6;
          s8 = setdefault ''reply_channel'' JNull s7;
          s9 = setdefault ''reply_context'' (JObj []) s8;
          s10 = setdefault ''kind'' (JStr (if truthy (get_none s9 ''recipe'') \<or> truthy (get_none s9 ''recipe_name'') then ''recipe'' else ''prompt'')) s9;
          s11 = setdefault ''command'' JNull s10;
          s12 = setdefault ''cwd'' JNull s11;
          s13 = setdefault ''notify'' no_notify s12
      in setdefault ''staleness_notified_at'' JNull
          (setdefault ''consecutive_failures'' (JNum 0)
          (setdefault ''last_digest'' JNull
          (setdefault ''last_success_at'' JNull s13))))"

text \<open>The comprehension of \<open>_load\<close>: an element that is no object raises, and so does a value that is neither a list
  nor empty.\<close>

fun migrate_all :: "sched_env \<Rightarrow> json list \<Rightarrow> py_raise + entry list" where
  "migrate_all E [] = Inr []"
| "migrate_all E (JObj s # l) = bindE (migrate_all E l) (\<lambda>r. Inr (migrate_schedule E s # r))"
| "migrate_all E (_ # l) = Inl OtherErr"

definition read_schedules :: "sched_env \<Rightarrow> file_text option \<Rightarrow> py_raise + entry list" where
  "read_schedules E f =
     (case f of
        None \<Rightarrow> Inr []
      | Some Unparsable \<Rightarrow> Inr []
      | Some (Parsed (JObj d)) \<Rightarrow>
          (case get_def d ''schedules'' (JList []) of
             JList l \<Rightarrow> migrate_all E l
           | JStr t \<Rightarrow> if t = [] then Inr [] else Inl OtherErr
           | JObj o' \<Rightarrow> if o' = [] then Inr [] else Inl OtherErr
           | _ \<Rightarrow> Inl OtherErr)
      | Some (Parsed _) \<Rightarrow> Inl OtherErr)"

definition load_sched :: "sched_env \<Rightarrow> sched \<Rightarrow> py_raise + sched" where
  "load_sched E d = bindE (read_schedules E (sd_file d)) (\<lambda>l. Inr (d\<lparr>sd_list := l\<rparr>))"

definition file_of :: "entry list \<Rightarrow> file_text" where
  "file_of l = Parsed (JObj [(''schedules'', JList (map JObj l))])"

definition save_sched :: "sched \<Rightarrow> sched" where
  "save_sched d = d\<lparr>sd_file := Some (file_of (sd_list d))\<rparr>"

subsection \<open>Results\<close>

definition HISTORY_LIMIT :: nat where "HISTORY_LIMIT = 50"

text \<open>\<open>s.setdefault("history", [])\<close>, the append and the trim.\<close>

definition add_history :: "json \<Rightarrow> entry \<Rightarrow> py_raise + entry" where
  "add_history item s =
     (case get_def s ''history'' (JList []) of
        JList h \<Rightarrow> (let h' = h @ [item] in Inr (dict_set ''history'' (JList (drop (length h' - HISTORY_LIMIT) h')) s))
      | _ \<Rightarrow> Inl OtherErr)"

text \<open>The first record with an id: \<open>s["id"]\<close> of a record before it that has none raises.\<close>

fun change_first :: "json \<Rightarrow> (entry \<Rightarrow> py_raise + entry) \<Rightarrow> entry list \<Rightarrow> py_raise + entry list option" where
  "change_first i f [] = Inr None"
| "change_first i f (s # l) =
     (case dict_get s ''id'' of
        None \<Rightarrow> Inl ValueErr
      | Some j \<Rightarrow>
          if j = i then bindE (f s) (\<lambda>s'. Inr (Some (s' # l)))
          else bindE (change_first i f l) (\<lambda>r. Inr (map_option (\<lambda>l'. s # l') r)))"

definition result_entry :: "sched_env \<Rightarrow> rat \<Rightarrow> string \<Rightarrow> json \<Rightarrow> entry \<Rightarrow> json" where
  "result_entry E clock status task_id s =
     JObj [(''triggered_at'', get_def s ''last_run_at'' (JStr (sx_iso E clock))), (''status'', JStr status), (''msg_id'', JStr []),
           (''task_id'', task_id)]"

definition update_schedule_result ::
    "sched_env \<Rightarrow> rat \<Rightarrow> json \<Rightarrow> string \<Rightarrow> json \<Rightarrow> sched \<Rightarrow> py_raise + sched" where
  "update_schedule_result E clock i status task_id d =
     bindE (load_sched E d) (\<lambda>d1.
       bindE (change_first i
                (\<lambda>s. let s1 = dict_set ''last_status'' (JStr status) s in add_history (result_entry E clock status task_id s1) s1)
                (sd_list d1)) (\<lambda>r.
         Inr (case r of
                Some l \<Rightarrow> (save_sched (d1\<lparr>sd_list := l\<rparr>))\<lparr>sd_active := removeAll i (sd_active d1)\<rparr>
              | None \<Rightarrow> d1)))"

subsection \<open>Adding, removing, switching\<close>

record sched_request =
  rq_recipe_name :: "string option"
  rq_interval :: "int option"
  rq_params :: "entry option"
  rq_start_at :: "string option"
  rq_end_at :: "string option"
  rq_name :: "string option"
  rq_prompt :: "string option"
  rq_cron :: "string option"
  rq_overlap :: string
  rq_timeout :: int
  rq_reply_channel :: "string option"
  rq_reply_context :: "entry option"
  rq_command :: "string option"
  rq_cwd :: "string option"
  rq_notify :: "entry option"

definition j_opt :: "string option \<Rightarrow> json" where
  "j_opt x = (case x of Some t \<Rightarrow> JStr t | None \<Rightarrow> JNull)"

definition or_text :: "string option \<Rightarrow> string \<Rightarrow> string" where
  "or_text x y = (case x of Some t \<Rightarrow> if t \<noteq> [] then t else y | None \<Rightarrow> y)"

definition schedule_of :: "sched_env \<Rightarrow> rat \<Rightarrow> string \<Rightarrow> sched_request \<Rightarrow> entry" where
  "schedule_of E clock uuid rq =
     (let kind = (if or_text (rq_command rq) [] \<noteq> [] then ''command'' else if or_text (rq_recipe_name rq) [] \<noteq> [] then ''recipe'' else ''prompt'');
          cut = take 40 (or_text (rq_command rq) []);
          name = or_text (rq_name rq) (or_text (rq_recipe_name rq) (if cut \<noteq> [] then cut else ''unnamed''));
          prompt = or_text (rq_prompt rq)
                     (case rq_recipe_name rq of
                        Some r \<Rightarrow> if r \<noteq> [] then sx_phrase E ''run recipe '' @ r else []
                      | None \<Rightarrow> [])
      in [(''id'', JStr (''sch_'' @ take 8 uuid)), (''name'', JStr name), (''kind'', JStr kind), (''prompt'', JStr prompt),
          (''recipe'', j_opt (rq_recipe_name rq)), (''recipe_name'', j_opt (rq_recipe_name rq)), (''command'', j_opt (rq_command rq)),
          (''cwd'', j_opt (rq_cwd rq)),
          (''notify'', case rq_notify rq of
                         Some n \<Rightarrow> if n \<noteq> [] then JObj n else JObj [(''on'', JStr ''change''), (''to'', JNull), (''context'', JObj [])]
                       | None \<Rightarrow> JObj [(''on'', JStr ''change''), (''to'', JNull), (''context'', JObj [])]),
          (''params'', JObj (case rq_params rq of Some p \<Rightarrow> p | None \<Rightarrow> [])),
          (''interval_seconds'', case rq_interval rq of Some n \<Rightarrow> JNum n | None \<Rightarrow> JNull), (''cron'', j_opt (rq_cron rq)),
          (''overlap'', JStr (rq_overlap rq)), (''timeout'', JNum (rq_timeout rq)), (''start_at'', j_opt (rq_start_at rq)),
          (''end_at'', j_opt (rq_end_at rq)), (''reply_channel'', j_opt (rq_reply_channel rq)),
          (''reply_context'', JObj (case rq_reply_context rq of Some c \<Rightarrow> c | None \<Rightarrow> [])), (''enabled'', JBool True),
          (''created_at'', JStr (sx_iso E clock)), (''last_run_at'', JNull), (''last_status'', JNull), (''last_success_at'', JNull),
          (''last_digest'', JNull), (''consecutive_failures'', JNum 0), (''staleness_notified_at'', JNull), (''run_count'', JNum 0),
          (''history'', JList [])])"

definition add_schedule :: "sched_env \<Rightarrow> rat \<Rightarrow> string \<Rightarrow> sched_request \<Rightarrow> sched \<Rightarrow> py_raise + entry \<times> sched" where
  "add_schedule E clock uuid rq d =
     bindE (load_sched E d) (\<lambda>d1.
       let s = schedule_of E clock uuid rq in Inr (s, save_sched (d1\<lparr>sd_list := sd_list d1 @ [s]\<rparr>)))"

fun without_id :: "json \<Rightarrow> entry list \<Rightarrow> py_raise + entry list" where
  "without_id i [] = Inr []"
| "without_id i (s # l) =
     (case dict_get s ''id'' of
        None \<Rightarrow> Inl ValueErr
      | Some j \<Rightarrow> bindE (without_id i l) (\<lambda>r. Inr (if j = i then r else s # r)))"

definition remove_schedule :: "sched_env \<Rightarrow> json \<Rightarrow> sched \<Rightarrow> py_raise + bool \<times> sched" where
  "remove_schedule E i d =
     bindE (load_sched E d) (\<lambda>d1.
     bindE (without_id i (sd_list d1)) (\<lambda>l.
       let d2 = d1\<lparr>sd_list := l\<rparr>
       in Inr (if length l < length (sd_list d1) then (True, save_sched d2) else (False, d2))))"

definition toggle_schedule :: "sched_env \<Rightarrow> json \<Rightarrow> sched \<Rightarrow> py_raise + bool option \<times> sched" where
  "toggle_schedule E i d =
     bindE (load_sched E d) (\<lambda>d1.
     bindE (change_first i
              (\<lambda>s. case dict_get s ''enabled'' of
                     None \<Rightarrow> Inl ValueErr
                   | Some e \<Rightarrow> Inr (dict_set ''enabled'' (JBool (\<not> truthy e)) s))
              (sd_list d1)) (\<lambda>r.
       Inr (case r of
              Some l \<Rightarrow>
                (map_option (\<lambda>s. truthy (get_none s ''enabled'')) (find (\<lambda>s. dict_get s ''id'' = Some i) l),
                 save_sched (d1\<lparr>sd_list := l\<rparr>))
            | None \<Rightarrow> (None, d1))))"

definition list_schedules :: "sched_env \<Rightarrow> sched \<Rightarrow> py_raise + entry list \<times> sched" where
  "list_schedules E d = bindE (load_sched E d) (\<lambda>d1. Inr (sd_list d1, d1))"

definition sched_start :: "sched_env \<Rightarrow> sched \<Rightarrow> py_raise + sched" where
  "sched_start E d = bindE (load_sched E d) (\<lambda>d1. Inr (if sd_running d1 then d1 else d1\<lparr>sd_running := True, sd_last_check := 0\<rparr>))"

definition sched_stop :: "sched \<Rightarrow> sched" where
  "sched_stop d = d\<lparr>sd_running := False\<rparr>"

definition set_pa_enqueue :: "sched \<Rightarrow> sched" where
  "set_pa_enqueue d = d\<lparr>sd_pa := True\<rparr>"

subsection \<open>What is due\<close>

text \<open>\<open>last_run or _parse_dt(created_at) or now\<close>, the base of the next cron time.\<close>

definition cron_base :: "sched_env \<Rightarrow> entry \<Rightarrow> rat \<Rightarrow> rat option \<Rightarrow> py_raise + rat" where
  "cron_base E s clock last_run =
     (case last_run of
        Some t \<Rightarrow> Inr t
      | None \<Rightarrow> bindE (sched_parse_dt E (get_none s ''created_at'')) (\<lambda>c. Inr (case c of Some t \<Rightarrow> t | None \<Rightarrow> clock)))"

definition cron_next :: "sched_env \<Rightarrow> entry \<Rightarrow> rat \<Rightarrow> rat option \<Rightarrow> py_raise + rat option" where
  "cron_next E s clock last_run =
     (case bindE (cron_base E s clock last_run) (sx_cron E (get_none s ''cron'')) of
        Inr t \<Rightarrow> Inr (Some t)
      | Inl ValueErr \<Rightarrow> Inr None
      | Inl OtherErr \<Rightarrow> Inl OtherErr)"

text \<open>The warning about a bad expression names \<open>schedule["id"]\<close>, so it raises for a record without one.\<close>

definition is_due :: "sched_env \<Rightarrow> entry \<Rightarrow> rat \<Rightarrow> py_raise + bool" where
  "is_due E s clock =
     bindE (sched_parse_dt E (get_none s ''last_run_at'')) (\<lambda>last_run.
       if truthy (get_none s ''cron'')
       then bindE (cron_next E s clock last_run) (\<lambda>n.
              case n of
                Some t \<Rightarrow> Inr (clock \<ge> t)
              | None \<Rightarrow> if dict_get s ''id'' = None then Inl ValueErr else Inr False)
       else if truthy (get_none s ''interval_seconds'')
       then (case last_run of
               Some t \<Rightarrow> bindE (seconds_of (get_none s ''interval_seconds'')) (\<lambda>n. Inr (clock \<ge> t + n))
             | None \<Rightarrow> Inr True)
       else Inr False)"

definition next_run_at :: "sched_env \<Rightarrow> entry \<Rightarrow> rat \<Rightarrow> py_raise + rat option" where
  "next_run_at E s clock =
     bindE (sched_parse_dt E (get_none s ''last_run_at'')) (\<lambda>last_run.
       if truthy (get_none s ''cron'') then cron_next E s clock last_run
       else if truthy (get_none s ''interval_seconds'')
       then (case last_run of
               Some t \<Rightarrow> bindE (seconds_of (get_none s ''interval_seconds'')) (\<lambda>n. Inr (Some (t + n)))
             | None \<Rightarrow> Inr (Some clock))
       else Inr None)"

definition period_seconds :: "sched_env \<Rightarrow> entry \<Rightarrow> rat \<Rightarrow> py_raise + int option" where
  "period_seconds E s clock =
     (if truthy (get_none s ''interval_seconds'') then bindE (int_of (get_none s ''interval_seconds'')) (\<lambda>n. Inr (Some n))
      else if \<not> truthy (get_none s ''cron'') then Inr None
      else case bindE (sx_cron E (get_none s ''cron'') clock) (\<lambda>a. bindE (sx_cron E (get_none s ''cron'') a) (\<lambda>b. Inr (b - a))) of
             Inr q \<Rightarrow> Inr (Some (if 0 \<le> q then \<lfloor>q\<rfloor> else \<lceil>q\<rceil>))
           | Inl ValueErr \<Rightarrow> Inr None
           | Inl OtherErr \<Rightarrow> Inl OtherErr)"

subsection \<open>Notices\<close>

text \<open>\<open>_enqueue_notice\<close>: the queue may refuse the message by raising.\<close>

definition notice_message :: "sched_tick \<Rightarrow> entry \<Rightarrow> string \<Rightarrow> entry" where
  "notice_message T s message =
     [(''type'', JStr ''message''), (''msg_id'', JStr (''schnotice_'' @ take 8 (tk_uuid T))),
      (''channel'', or_else (get_none s ''reply_channel'') (JStr ''schedule'')), (''prompt'', JStr message),
      (''reply_context'', get_def s ''reply_context'' (JObj []))]"

definition enqueue_notice :: "sched_tick \<Rightarrow> entry \<Rightarrow> string \<Rightarrow> sched \<Rightarrow> py_raise + sched" where
  "enqueue_notice T s message d =
     (if \<not> sd_pa d then Inr d
      else if \<not> tk_pa_ok T then Inl OtherErr
      else Inr (d\<lparr>sd_queue := sd_queue d @ [notice_message T s message]\<rparr>))"

text \<open>A notice on its way: the delivery, and the queue when it goes to the agent.\<close>

definition send_notice ::
    "sched_env \<Rightarrow> sched_world \<Rightarrow> sched_tick \<Rightarrow> entry \<Rightarrow> string \<Rightarrow> sched \<Rightarrow> (py_raise + delivery) \<times> sched" where
  "send_notice E W T s message d =
     (case deliver E W s message (sd_pa d) of
        Inl e \<Rightarrow> (Inl e, d)
      | Inr r \<Rightarrow>
          (let d1 = d\<lparr>sd_notices := sd_notices d @ [(r, message)]\<rparr>
           in if delivery_status r = ''queued''
              then (case enqueue_notice T s message d1 of Inl e \<Rightarrow> (Inl e, d1) | Inr d2 \<Rightarrow> (Inr r, d2))
              else (Inr r, d1)))"

text \<open>\<open>_check_staleness\<close>: the pass over the records by position. An exception ends it, and the loop goes on.\<close>

definition wants_staleness :: "entry \<Rightarrow> py_raise + bool" where
  "wants_staleness s =
     (if \<not> truthy (get_def s ''enabled'' (JBool True)) then Inr False
      else bindE (as_obj (get_none s ''notify'')) (\<lambda>cfg.
             Inr (get_none cfg ''on'' \<noteq> JNull \<and> get_none cfg ''on'' \<noteq> JStr ''never''
                  \<and> \<not> truthy (get_none s ''staleness_notified_at''))))"

definition overdue_by :: "sched_env \<Rightarrow> rat \<Rightarrow> entry \<Rightarrow> py_raise + rat option" where
  "overdue_by E clock s =
     bindE (wants_staleness s) (\<lambda>wanted.
       if \<not> wanted then Inr None else bindE (period_seconds E s clock) (is_stale E s clock))"

definition check_one ::
    "sched_env \<Rightarrow> sched_world \<Rightarrow> sched_tick \<Rightarrow> nat \<Rightarrow> sched \<Rightarrow> sched \<times> py_raise option" where
  "check_one E W T k d =
     (let s = sd_list d ! k
      in case overdue_by E (tk_clock T) s of
           Inl e \<Rightarrow> (d, Some e)
         | Inr None \<Rightarrow> (d, None)
         | Inr (Some over) \<Rightarrow>
             (case send_notice E W T s (staleness_text E s over) d of
                (Inl e, d1) \<Rightarrow> (d1, Some e)
              | (Inr r, d1) \<Rightarrow>
                  (save_sched (d1\<lparr>sd_list := (sd_list d1)[k := dict_set ''staleness_notified_at'' (JStr (sx_iso E (tk_clock T))) s]\<rparr>),
                   if dict_get s ''id'' = None then Some ValueErr else None)))"

fun check_from :: "sched_env \<Rightarrow> sched_world \<Rightarrow> sched_tick \<Rightarrow> nat list \<Rightarrow> sched \<Rightarrow> sched" where
  "check_from E W T [] d = d"
| "check_from E W T (k # ks) d = (case check_one E W T k d of (d1, Some _) \<Rightarrow> d1 | (d1, None) \<Rightarrow> check_from E W T ks d1)"

definition check_staleness :: "sched_env \<Rightarrow> sched_world \<Rightarrow> sched_tick \<Rightarrow> sched \<Rightarrow> sched" where
  "check_staleness E W T d = check_from E W T [0..<length (sd_list d)] d"

subsection \<open>Running what is due\<close>

text \<open>The records a pass goes through, and whether the service still holds that same list.\<close>

record pass =
  ps_sched :: sched
  ps_items :: "entry list"
  ps_same :: bool

definition put_item :: "nat \<Rightarrow> entry \<Rightarrow> pass \<Rightarrow> pass" where
  "put_item k s p =
     (let items = (ps_items p)[k := s]
      in p\<lparr>ps_items := items, ps_sched := (if ps_same p then (ps_sched p)\<lparr>sd_list := items\<rparr> else ps_sched p)\<rparr>)"

definition save_pass :: "pass \<Rightarrow> pass" where
  "save_pass p = p\<lparr>ps_sched := save_sched (ps_sched p)\<rparr>"

definition native_outcome :: "sched_env \<Rightarrow> sched_world \<Rightarrow> entry \<Rightarrow> run_outcome" where
  "native_outcome E W s =
     (case run_scheduled E W s of
        Inr r \<Rightarrow> r
      | Inl e \<Rightarrow> failed_outcome (case get_def s ''kind'' (JStr ''?'') of JStr k \<Rightarrow> k | _ \<Rightarrow> []) (sw_exc_text W e) 0)"

definition native_entry :: "sched_env \<Rightarrow> rat \<Rightarrow> run_outcome \<Rightarrow> notify_decision \<Rightarrow> string \<Rightarrow> string \<Rightarrow> entry \<Rightarrow> json" where
  "native_entry E clock out decision notify_status st s =
     JObj [(''triggered_at'', get_def s ''last_run_at'' (JStr (sx_iso E clock))), (''status'', JStr st), (''kind'', get_none s ''kind''),
           (''exit_code'', case ro_exit_code out of Some c \<Rightarrow> JNum c | None \<Rightarrow> JNull), (''duration_ms'', JNum (ro_duration_ms out)),
           (''error'', JStr (take 300 (ro_error out))), (''notified'', JBool (nd_should decision)), (''notify_status'', JStr notify_status),
           (''notify_reason'', JStr (nd_reason decision)), (''task_id'', JNull)]"

text \<open>What a finished run leaves in its record.\<close>

definition record_run ::
    "sched_env \<Rightarrow> rat \<Rightarrow> run_outcome \<Rightarrow> notify_decision \<Rightarrow> string \<Rightarrow> entry \<Rightarrow> py_raise + entry" where
  "record_run E clock out decision notify_status s =
     (let st = (if ro_ok out then ''success'' else ''failed''); s1 = dict_set ''last_status'' (JStr st) s
      in bindE (if ro_ok out
                then Inr (dict_set ''staleness_notified_at'' JNull
                           (dict_set ''consecutive_failures'' (JNum 0)
                           (dict_set ''last_digest'' (JStr (ro_digest out))
                           (dict_set ''last_success_at'' (JStr (sx_iso E clock)) s1))))
                else bindE (int_of (get_def s1 ''consecutive_failures'' (JNum 0))) (\<lambda>n.
                       Inr (dict_set ''consecutive_failures'' (JNum (n + 1)) s1))) (\<lambda>s2.
           add_history (native_entry E clock out decision notify_status st s2) s2))"

definition execute_native ::
    "sched_env \<Rightarrow> sched_world \<Rightarrow> sched_tick \<Rightarrow> json \<Rightarrow> entry \<Rightarrow> sched \<Rightarrow> sched \<times> py_raise option" where
  "execute_native E W T i s d =
     (let prev = \<lparr>pv_digest = get_none s ''last_digest'', pv_failures = get_def s ''consecutive_failures'' (JNum 0)\<rparr>;
          out = native_outcome E W s
      in case decide_notification E s out prev of
           Inl e \<Rightarrow> (d, Some e)
         | Inr decision \<Rightarrow>
             (case (if nd_should decision then send_notice E W T s (nd_text decision) d else (Inr (Delivered ''skipped'' []), d)) of
                (Inl e, d1) \<Rightarrow> (d1, Some e)
              | (Inr r, d1) \<Rightarrow>
                  (let notify_status = (if delivery_status r = ''queued'' then ''ok'' else delivery_status r);
                       d2 = d1\<lparr>sd_file := tk_meanwhile T (sd_file d1)\<rparr>
                   in case load_sched E d2 of
                        Inl e \<Rightarrow> (d2, Some e)
                      | Inr d3 \<Rightarrow>
                          (case change_first i (record_run E (tk_clock T) out decision notify_status) (sd_list d3) of
                             Inl e \<Rightarrow> (d3, Some e)
                           | Inr None \<Rightarrow> (d3, None)
                           | Inr (Some l) \<Rightarrow> (save_sched (d3\<lparr>sd_list := l\<rparr>), None)))))"

definition task_message :: "sched_env \<Rightarrow> sched_tick \<Rightarrow> json \<Rightarrow> entry \<Rightarrow> entry" where
  "task_message E T i s =
     [(''type'', JStr ''scheduled_task''), (''msg_id'', JStr (''sch_msg_'' @ take 8 (tk_uuid T))),
      (''channel'', or_else (get_none s ''reply_channel'') (JStr ''schedule'')), (''schedule_id'', i),
      (''schedule_name'', get_def s ''name'' (get_def s ''recipe_name'' (JStr ''unnamed''))), (''prompt'', get_def s ''prompt'' (JStr [])),
      (''recipe'', get_def s ''recipe'' (get_none s ''recipe_name'')), (''params'', or_else (get_def s ''params'' (JObj [])) (JObj [])),
      (''reply_context'', get_def s ''reply_context'' (JObj [])), (''triggered_at'', get_none s ''last_run_at''),
      (''last_status'', get_none s ''last_status''), (''run_count'', get_def s ''run_count'' (JNum 0))]"

definition execute_via_pa :: "sched_env \<Rightarrow> sched_tick \<Rightarrow> json \<Rightarrow> entry \<Rightarrow> sched \<Rightarrow> sched" where
  "execute_via_pa E T i s d =
     (if \<not> sd_pa d \<or> \<not> tk_pa_ok T then d
      else d\<lparr>sd_queue := sd_queue d @ [task_message E T i s], sd_active := List.insert i (sd_active d)\<rparr>)"

text \<open>\<open>n + 1\<close> on a JSON value.\<close>

fun plus_one :: "json \<Rightarrow> py_raise + json" where
  "plus_one (JNum n) = Inr (JNum (n + 1))"
| "plus_one (JFloat q) = Inr (JFloat (q + 1))"
| "plus_one (JBool b) = Inr (JNum (if b then 2 else 1))"
| "plus_one _ = Inl OtherErr"

text \<open>\<open>_execute\<close>. The second component is None or the exception that ends the loop. A record that an exception leaves
  half changed is never read: every operation reloads the file first.\<close>

definition execute :: "sched_env \<Rightarrow> sched_world \<Rightarrow> sched_tick \<Rightarrow> nat \<Rightarrow> pass \<Rightarrow> pass \<times> py_raise option" where
  "execute E W T k p =
     (let s = ps_items p ! k
      in case dict_get s ''id'' of
           None \<Rightarrow> (p, Some ValueErr)
         | Some i \<Rightarrow>
             if get_def s ''overlap'' (JStr ''skip'') = JStr ''skip'' \<and> i \<in> set (sd_active (ps_sched p)) then (p, None)
             else (case plus_one (get_def s ''run_count'' (JNum 0)) of
                     Inl e \<Rightarrow> (p, Some e)
                   | Inr n \<Rightarrow>
                       (let s2 = dict_set ''run_count'' n (dict_set ''last_run_at'' (JStr (sx_iso E (tk_clock T))) s);
                            p1 = save_pass (put_item k s2 p);
                            d = ps_sched p1
                        in if kind_of s2 = JStr ''command'' \<or> kind_of s2 = JStr ''recipe''
                           then (case execute_native E W T i s2 (d\<lparr>sd_active := List.insert i (sd_active d)\<rparr>) of
                                   (d', r) \<Rightarrow> (p1\<lparr>ps_sched := d'\<lparr>sd_active := removeAll i (sd_active d')\<rparr>, ps_same := False\<rparr>, r))
                           else (p1\<lparr>ps_sched := execute_via_pa E T i s2 d\<rparr>, None))))"

text \<open>One record of a pass.\<close>

definition visit :: "sched_env \<Rightarrow> sched_world \<Rightarrow> sched_tick \<Rightarrow> nat \<Rightarrow> pass \<Rightarrow> pass \<times> py_raise option" where
  "visit E W T k p =
     (let s = ps_items p ! k; clock = tk_clock T
      in if \<not> truthy (get_def s ''enabled'' (JBool True)) then (p, None)
         else case bindE (sched_parse_dt E (get_none s ''start_at'')) (\<lambda>a. bindE (sched_parse_dt E (get_none s ''end_at'')) (\<lambda>b. Inr (a, b))) of
                Inl e \<Rightarrow> (p, Some e)
              | Inr (start, stop) \<Rightarrow>
                  if (case start of Some t \<Rightarrow> clock < t | None \<Rightarrow> False) then (p, None)
                  else if (case stop of Some t \<Rightarrow> clock > t | None \<Rightarrow> False)
                  then (save_pass (put_item k (dict_set ''enabled'' (JBool False) s) p), if dict_get s ''id'' = None then Some ValueErr else None)
                  else case is_due E s clock of
                         Inl e \<Rightarrow> (p, Some e)
                       | Inr due \<Rightarrow> if due then execute E W T k p else (p, None))"

fun visit_from :: "sched_env \<Rightarrow> sched_world \<Rightarrow> sched_tick \<Rightarrow> nat list \<Rightarrow> pass \<Rightarrow> pass \<times> py_raise option" where
  "visit_from E W T [] p = (p, None)"
| "visit_from E W T (k # ks) p =
     (case visit E W T k p of (p1, None) \<Rightarrow> visit_from E W T ks p1 | (p1, Some e) \<Rightarrow> (p1, Some e))"

text \<open>One turn of \<open>_loop\<close>; the inspection for overdue schedules comes at most every half hour. An exception ends the
  task that runs the loop.\<close>

definition loop_turn :: "sched_env \<Rightarrow> sched_world \<Rightarrow> sched_tick \<Rightarrow> sched \<Rightarrow> sched" where
  "loop_turn E W T d =
     (if \<not> sd_running d then d
      else case load_sched E d of
             Inl e \<Rightarrow> d\<lparr>sd_running := False\<rparr>
           | Inr d1 \<Rightarrow>
               (let d2 = (if tk_mono T - sd_last_check d1 > 1800
                          then check_staleness E W T (d1\<lparr>sd_last_check := tk_mono T\<rparr>) else d1)
                in case visit_from E W T [0..<length (sd_list d2)] \<lparr>ps_sched = d2, ps_items = sd_list d2, ps_same = True\<rparr> of
                     (p, None) \<Rightarrow> ps_sched p
                   | (p, Some e) \<Rightarrow> (ps_sched p)\<lparr>sd_running := False\<rparr>))"

subsection \<open>Well-formed records\<close>

text \<open>The fields the migration fills in; a record that has them is left as it is.\<close>

definition full_record :: "entry \<Rightarrow> bool" where
  "full_record s \<longleftrightarrow> list_all (\<lambda>k. dict_get s k \<noteq> None)
     [''name'', ''prompt'', ''recipe'', ''cron'', ''overlap'', ''timeout'', ''history'', ''reply_channel'', ''reply_context'', ''kind'', ''command'',
      ''cwd'', ''notify'', ''last_success_at'', ''last_digest'', ''consecutive_failures'', ''staleness_notified_at'']"

lemma setdefault_present: "dict_get s k \<noteq> None \<Longrightarrow> setdefault k v s = s"
  by (auto simp: setdefault_def)

lemma migrate_full:
  assumes "full_record s"
  shows "migrate_schedule E s = s"
proof -
  have k: "setdefault k v s = s" if "k \<in> {''name'', ''prompt'', ''recipe'', ''cron'', ''overlap'', ''timeout'', ''history'', ''reply_channel'',
      ''reply_context'', ''kind'', ''command'', ''cwd'', ''notify'', ''last_success_at'', ''last_digest'', ''consecutive_failures'',
      ''staleness_notified_at''}" for k v
    using assms that by (intro setdefault_present) (auto simp: full_record_def)
  note k1 = k [of "''name''"] k [of "''prompt''"] k [of "''recipe''"] k [of "''cron''"] k [of "''overlap''"] k [of "''timeout''"]
    k [of "''history''"] k [of "''reply_channel''"] k [of "''reply_context''"] k [of "''kind''"] k [of "''command''"] k [of "''cwd''"]
    k [of "''notify''"] k [of "''last_success_at''"] k [of "''last_digest''"] k [of "''consecutive_failures''"]
    k [of "''staleness_notified_at''"]
  note k2 = k1 [simplified]
  show ?thesis by (cases "dict_get s ''recipe_name''") (simp_all only: migrate_schedule_def Let_def k2 option.case)
qed

lemma full_record_set [simp]: "full_record s \<Longrightarrow> full_record (dict_set k v s)"
  by (simp add: full_record_def)

definition time_ok :: "sched_env \<Rightarrow> json \<Rightarrow> bool" where
  "time_ok E j \<longleftrightarrow> \<not> truthy j \<or> (\<exists>t c. j = JStr t \<and> sx_from_iso E t = Some c)"

text \<open>The fields the operations read with a type in mind. \<open>X\<close> names ids whose records must not run twice at once.\<close>

definition field_checks :: "sched_env \<Rightarrow> (string \<times> (json \<Rightarrow> bool)) list" where
  "field_checks E =
     [(''start_at'', time_ok E), (''end_at'', time_ok E), (''last_run_at'', time_ok E),
      (''created_at'', \<lambda>j. truthy j \<and> time_ok E j), (''cron'', \<lambda>j. j = JNull \<or> (\<exists>c. j = JStr c)),
      (''interval_seconds'', \<lambda>j. j = JNull \<or> (\<exists>n. j = JNum n)), (''notify'', \<lambda>j. \<exists>n. j = JObj n),
      (''consecutive_failures'', \<lambda>j. \<exists>n. j = JNum n), (''run_count'', \<lambda>j. \<exists>n. j = JNum n),
      (''history'', \<lambda>j. \<exists>h. j = JList h \<and> length h \<le> HISTORY_LIMIT), (''last_success_at'', \<lambda>j. j = JNull \<or> (\<exists>t. j = JStr t))]"

definition rec_ok :: "sched_env \<Rightarrow> json set \<Rightarrow> entry \<Rightarrow> bool" where
  "rec_ok E X s \<longleftrightarrow> full_record s \<and> (\<forall>i \<in> X. dict_get s ''id'' = Some i \<longrightarrow> get_none s ''overlap'' = JStr ''skip'') \<and> dict_get s ''id'' \<noteq> None \<and> dict_get s ''enabled'' \<noteq> None
     \<and> list_all (\<lambda>(k, P). P (get_none s k)) (field_checks E)"

text \<open>What is relied on: a time written is read back, and \<open>croniter\<close> raises nothing but \<open>ValueError\<close> for text.\<close>

definition env_ok :: "sched_env \<Rightarrow> bool" where
  "env_ok E \<longleftrightarrow> (\<forall>t. sx_from_iso E (sx_iso E t) = Some t \<and> sx_iso E t \<noteq> []) \<and> (\<forall>c t. sx_cron E (JStr c) t \<noteq> Inl OtherErr)"

definition file_ok :: "sched_env \<Rightarrow> json set \<Rightarrow> file_text option \<Rightarrow> bool" where
  "file_ok E X f \<longleftrightarrow> (\<exists>l. read_schedules E f = Inr l \<and> list_all (rec_ok E X) l)"

definition sched_ok :: "sched_env \<Rightarrow> json set \<Rightarrow> sched \<Rightarrow> bool" where
  "sched_ok E X d \<longleftrightarrow> file_ok E X (sd_file d) \<and> list_all (rec_ok E X) (sd_list d)"

definition world_ok :: "sched_world \<Rightarrow> bool" where
  "world_ok W \<longleftrightarrow> (\<exists>names. resolve_channel_names W = Inr names)"

definition tick_ok :: "sched_env \<Rightarrow> json set \<Rightarrow> sched_tick \<Rightarrow> bool" where
  "tick_ok E X T \<longleftrightarrow> tk_pa_ok T \<and> (\<forall>f. file_ok E X f \<longrightarrow> file_ok E X (tk_meanwhile T f))"

lemma get_def_set [simp]: "get_def (dict_set k v s) k' x = (if k' = k then v else get_def s k' x)"
  by (simp add: get_def_def)

lemma get_def_present: "dict_get s k \<noteq> None \<Longrightarrow> get_def s k v = get_none s k"
  by (auto simp: get_def_def)

lemma get_none_present: "get_none s k = j \<Longrightarrow> j \<noteq> JNull \<Longrightarrow> get_def s k v = j"
  by (auto simp: get_def_def split: option.splits)

lemma read_file_of: "list_all full_record l \<Longrightarrow> read_schedules E (Some (file_of l)) = Inr l"
proof -
  assume a: "list_all full_record l"
  then have "migrate_all E (map JObj l) = Inr l" by (induction l) (simp_all add: migrate_full)
  then show ?thesis by (simp add: read_schedules_def file_of_def get_def_def)
qed

lemma rec_ok_full: "list_all (rec_ok E X) l \<Longrightarrow> list_all full_record l"
  by (auto simp: list_all_iff rec_ok_def)

lemma sched_ok_save [simp]: "list_all (rec_ok E X) (sd_list d) \<Longrightarrow> sched_ok E X (save_sched d)"
  by (simp add: sched_ok_def save_sched_def file_ok_def read_file_of rec_ok_full)

lemma sched_ok_load: "sched_ok E X d \<Longrightarrow> \<exists>l. load_sched E d = Inr (d\<lparr>sd_list := l\<rparr>) \<and> sched_ok E X (d\<lparr>sd_list := l\<rparr>)"
  by (auto simp: sched_ok_def load_sched_def file_ok_def)

lemma rec_ok_set:
  assumes "rec_ok E X s" "list_all (\<lambda>(k', P). k' = k \<longrightarrow> P v) (field_checks E)" "k \<noteq> ''id''" "k \<noteq> ''overlap''"
  shows "rec_ok E X (dict_set k v s)"
  using assms by (auto simp: rec_ok_def list_all_iff)

lemma rec_ok_field: "rec_ok E X s \<Longrightarrow> (k, P) \<in> set (field_checks E) \<Longrightarrow> P (get_none s k)"
  by (auto simp: rec_ok_def list_all_iff)

lemma rec_ok_fields:
  assumes "rec_ok E X s"
  shows "time_ok E (get_none s ''start_at'')" "time_ok E (get_none s ''end_at'')" "time_ok E (get_none s ''last_run_at'')"
    "truthy (get_none s ''created_at'') \<and> time_ok E (get_none s ''created_at'')"
    "get_none s ''cron'' = JNull \<or> (\<exists>c. get_none s ''cron'' = JStr c)"
    "get_none s ''interval_seconds'' = JNull \<or> (\<exists>n. get_none s ''interval_seconds'' = JNum n)"
    "\<exists>n. get_none s ''notify'' = JObj n" "\<exists>n. get_none s ''consecutive_failures'' = JNum n" "\<exists>n. get_none s ''run_count'' = JNum n"
    "\<exists>h. get_none s ''history'' = JList h \<and> length h \<le> HISTORY_LIMIT"
    "get_none s ''last_success_at'' = JNull \<or> (\<exists>t. get_none s ''last_success_at'' = JStr t)"
  using assms by (simp_all add: rec_ok_def field_checks_def)

lemma add_history_ok:
  assumes "rec_ok E X s"
  shows "\<exists>s'. add_history item s = Inr s' \<and> rec_ok E X s'"
proof -
  obtain h where h: "get_none s ''history'' = JList h" "length h \<le> HISTORY_LIMIT" using rec_ok_fields(10) [OF assms] by blast
  have "get_def s ''history'' (JList []) = JList h" by (rule get_none_present [OF h(1)]) simp
  then show ?thesis using rec_ok_set [OF assms, of "''history''"] by (simp add: add_history_def Let_def field_checks_def)
qed

lemma change_first_ok:
  assumes "list_all (rec_ok E X) l" "\<And>s. rec_ok E X s \<Longrightarrow> \<exists>s'. f s = Inr s' \<and> rec_ok E X s'"
  shows "\<exists>r. change_first i f l = Inr r \<and> (case r of None \<Rightarrow> True | Some l' \<Rightarrow> list_all (rec_ok E X) l')"
  using assms(1)
proof (induction l)
  case (Cons s l)
  then obtain r where r: "change_first i f l = Inr r" "case r of None \<Rightarrow> True | Some l' \<Rightarrow> list_all (rec_ok E X) l'" by auto
  obtain s' where s': "f s = Inr s'" "rec_ok E X s'" using assms(2) Cons.prems by auto
  obtain j where j: "dict_get s ''id'' = Some j" using Cons.prems by (auto simp: rec_ok_def)
  show ?case using r s' j Cons.prems by (cases r) simp_all
qed simp

subsection \<open>No operation raises on well-formed records\<close>

lemma parse_dt_ok: "time_ok E j \<Longrightarrow> \<exists>c. sched_parse_dt E j = Inr c"
  by (auto simp: time_ok_def sched_parse_dt_def)

lemma cron_next_ok:
  assumes "env_ok E" "rec_ok E X s" "truthy (get_none s ''cron'')"
  shows "\<exists>n. cron_next E s clock last_run = Inr n"
proof -
  obtain c where c: "get_none s ''cron'' = JStr c" using rec_ok_fields(5) [OF assms(2)] assms(3) by auto
  obtain t where "sched_parse_dt E (get_none s ''created_at'') = Inr t" using parse_dt_ok rec_ok_fields(4) [OF assms(2)] by blast
  then obtain b where b: "cron_base E s clock last_run = Inr b" by (cases last_run) (simp_all add: cron_base_def)
  have "sx_cron E (JStr c) b \<noteq> Inl OtherErr" using assms(1) by (simp add: env_ok_def)
  then show ?thesis by (auto simp: cron_next_def b c split: sum.split py_raise.split)
qed

lemma is_due_ok:
  assumes "env_ok E" "rec_ok E X s"
  shows "\<exists>b. is_due E s clock = Inr b"
proof -
  obtain l where l: "sched_parse_dt E (get_none s ''last_run_at'') = Inr l" using parse_dt_ok rec_ok_fields(3) [OF assms(2)] by blast
  have i: "dict_get s ''id'' \<noteq> None" using assms(2) by (simp add: rec_ok_def)
  show ?thesis
  proof (cases "truthy (get_none s ''cron'')")
    case True
    then obtain n where "cron_next E s clock l = Inr n" using cron_next_ok [OF assms] by blast
    then show ?thesis using True i by (cases n) (auto simp: is_due_def l)
  next
    case False
    then show ?thesis using rec_ok_fields(6) [OF assms(2)] by (cases l) (auto simp: is_due_def l)
  qed
qed

lemma notify_obj: "rec_ok E X s \<Longrightarrow> \<exists>cfg. as_obj (get_none s ''notify'') = Inr cfg"
  using rec_ok_fields(7) [of E X s] by (auto simp: as_obj_def or_else_def)

lemma deliver_ok:
  assumes "rec_ok E X s" "world_ok W"
  shows "\<exists>r. deliver E W s message pa = Inr r"
proof -
  obtain cfg where "as_obj (get_none s ''notify'') = Inr cfg" using notify_obj [OF assms(1)] by blast
  moreover obtain names where "resolve_channel_names W = Inr names" using assms(2) by (auto simp: world_ok_def)
  ultimately show ?thesis by (simp add: deliver_def Let_def)
qed

text \<open>A notice touches nothing but what was sent and the agent's queue, where it is no task.\<close>

definition only_notices :: "sched \<Rightarrow> sched \<Rightarrow> bool" where
  "only_notices d d' \<longleftrightarrow> (\<exists>q ms. d' = d\<lparr>sd_notices := q, sd_queue := sd_queue d @ ms\<rparr>
     \<and> (\<forall>m \<in> set ms. dict_get m ''type'' = Some (JStr ''message'')))"

lemma only_notices_refl [simp]: "only_notices d d"
  unfolding only_notices_def by (rule exI [of _ "sd_notices d"], rule exI [of _ "[]"]) simp

lemma only_noticesD:
  assumes "only_notices d d'"
  shows "sd_file d' = sd_file d" "sd_list d' = sd_list d" "sd_active d' = sd_active d" "sd_running d' = sd_running d" "sd_pa d' = sd_pa d"
  using assms by (auto simp: only_notices_def)

lemma only_noticesI:
  "list_all (\<lambda>m. dict_get m ''type'' = Some (JStr ''message'')) ms \<Longrightarrow> only_notices d (d\<lparr>sd_notices := q, sd_queue := sd_queue d @ ms\<rparr>)"
  unfolding only_notices_def by (rule exI [of _ q], rule exI [of _ ms]) (simp add: list_all_iff)

lemma send_notice_frame: "only_notices d (snd (send_notice E W T s message d))"
proof (cases "deliver E W s message (sd_pa d)")
  case (Inr r)
  let ?d1 = "d\<lparr>sd_notices := sd_notices d @ [(r, message)]\<rparr>"
  have 1: "only_notices d ?d1" using only_noticesI [of "[]" d "sd_notices d @ [(r, message)]"] by simp
  have "only_notices d d2" if "enqueue_notice T s message ?d1 = Inr d2" for d2
    using that 1 only_noticesI [of "[notice_message T s message]" d "sd_notices d @ [(r, message)]"]
    by (auto simp: enqueue_notice_def notice_message_def split: if_splits)
  then show ?thesis using Inr 1 by (auto simp: send_notice_def Let_def split: sum.splits)
qed (simp add: send_notice_def)

lemma send_notice_ok:
  assumes "rec_ok E X s" "world_ok W" "tick_ok E X T"
  shows "\<exists>r d'. send_notice E W T s message d = (Inr r, d') \<and> only_notices d d'"
proof -
  obtain r where r: "deliver E W s message (sd_pa d) = Inr r" using deliver_ok [OF assms(1,2)] by blast
  have "tk_pa_ok T" using assms(3) by (simp add: tick_ok_def)
  then have "\<exists>x. enqueue_notice T s message d1 = Inr x" for d1 by (simp add: enqueue_notice_def)
  then have "\<exists>r'. fst (send_notice E W T s message d) = Inr r'"
    by (auto simp: send_notice_def r Let_def split: sum.split) (metis Inr_not_Inl)
  then show ?thesis using send_notice_frame [of d E W T s message] by (cases "send_notice E W T s message d") auto
qed

lemma decide_ok:
  assumes "rec_ok E X s"
  shows "\<exists>x. decide_notification E s out \<lparr>pv_digest = g, pv_failures = get_def s ''consecutive_failures'' (JNum 0)\<rparr> = Inr x"
proof -
  obtain cfg where c: "as_obj (get_none s ''notify'') = Inr cfg" using notify_obj [OF assms] by blast
  obtain n where "get_none s ''consecutive_failures'' = JNum n" using rec_ok_fields(8) [OF assms] by blast
  then have "get_def s ''consecutive_failures'' (JNum 0) = JNum n" by (rule get_none_present) simp
  then show ?thesis by (simp add: decide_notification_def c Let_def)
qed

lemma record_run_ok:
  assumes "rec_ok E X s" "env_ok E"
  shows "\<exists>s'. record_run E clock out decision st s = Inr s' \<and> rec_ok E X s'"
proof -
  obtain n where "get_none s ''consecutive_failures'' = JNum n" using rec_ok_fields(8) [OF assms(1)] by blast
  then have n: "get_def s ''consecutive_failures'' (JNum 0) = JNum n" by (rule get_none_present) simp
  have keep: "rec_ok E X x \<Longrightarrow> rec_ok E X (dict_set ''last_status'' j x)" "rec_ok E X x \<Longrightarrow> rec_ok E X (dict_set ''consecutive_failures'' (JNum m) x)"
    "rec_ok E X x \<Longrightarrow> rec_ok E X (dict_set ''last_digest'' j x)" "rec_ok E X x \<Longrightarrow> rec_ok E X (dict_set ''last_success_at'' (JStr u) x)"
    "rec_ok E X x \<Longrightarrow> rec_ok E X (dict_set ''staleness_notified_at'' j x)" for x j m u
    by (rule rec_ok_set; simp add: field_checks_def)+
  define s1 where "s1 = dict_set ''last_status'' (JStr (if ro_ok out then ''success'' else ''failed'')) s"
  have s1: "rec_ok E X s1" "get_def s1 ''consecutive_failures'' (JNum 0) = JNum n" using assms keep n by (simp_all add: s1_def)
  show ?thesis
  proof (cases "ro_ok out")
    case True
    then show ?thesis
      using add_history_ok keep s1(1) by (simp add: record_run_def Let_def s1_def [simplified True if_True, symmetric])
  next
    case False
    then show ?thesis
      using add_history_ok keep s1 n by (simp add: record_run_def Let_def s1_def [simplified False if_False, symmetric])
  qed
qed

text \<open>What every part of a pass keeps: well-formed records and the switch of the loop.\<close>

lemma sched_ok_simps [simp]:
  "sched_ok E X (d\<lparr>sd_active := a\<rparr>) = sched_ok E X d" "sched_ok E X (d\<lparr>sd_running := b\<rparr>) = sched_ok E X d"
  "sched_ok E X (d\<lparr>sd_last_check := c\<rparr>) = sched_ok E X d" "sched_ok E X (d\<lparr>sd_queue := q\<rparr>) = sched_ok E X d"
  by (simp_all add: sched_ok_def)

lemma save_sched_fields [simp]:
  "sd_list (save_sched d) = sd_list d" "sd_active (save_sched d) = sd_active d" "sd_running (save_sched d) = sd_running d"
  "sd_queue (save_sched d) = sd_queue d" "sd_pa (save_sched d) = sd_pa d" "sd_last_check (save_sched d) = sd_last_check d"
  "sd_notices (save_sched d) = sd_notices d" "sd_file (save_sched d) = Some (file_of (sd_list d))"
  by (simp_all add: save_sched_def)

lemma only_notices_ok: "only_notices d d' \<Longrightarrow> sched_ok E X d \<Longrightarrow> sched_ok E X d'"
  by (simp add: sched_ok_def only_noticesD)

lemma execute_native_ok:
  assumes "env_ok E" "world_ok W" "tick_ok E X T" "sched_ok E X d" "rec_ok E X s"
  shows "\<exists>d'. execute_native E W T i s d = (d', None) \<and> sched_ok E X d' \<and> sd_running d' = sd_running d"
proof -
  define out where "out = native_outcome E W s"
  obtain x where x: "decide_notification E s out \<lparr>pv_digest = get_none s ''last_digest'', pv_failures = get_def s ''consecutive_failures'' (JNum 0)\<rparr> = Inr x"
    using decide_ok [OF assms(5)] by blast
  obtain r d1 where n: "(if nd_should x then send_notice E W T s (nd_text x) d else (Inr (Delivered ''skipped'' []), d)) = (Inr r, d1)"
      "only_notices d d1"
    using send_notice_ok [OF assms(5,2,3), of "nd_text x" d] only_notices_refl by (cases "nd_should x") auto
  define d2 where "d2 = d1\<lparr>sd_file := tk_meanwhile T (sd_file d1)\<rparr>"
  have d2: "sched_ok E X d2" "sd_running d2 = sd_running d"
    using assms(3,4) only_noticesD [OF n(2)] by (simp_all add: d2_def sched_ok_def tick_ok_def)
  obtain l where l: "load_sched E d2 = Inr (d2\<lparr>sd_list := l\<rparr>)" "sched_ok E X (d2\<lparr>sd_list := l\<rparr>)" using sched_ok_load [OF d2(1)] by blast
  define ns where "ns = (if delivery_status r = ''queued'' then ''ok'' else delivery_status r)"
  have "list_all (rec_ok E X) l" using l(2) by (simp add: sched_ok_def)
  then obtain c where c: "change_first i (record_run E (tk_clock T) out x ns) l = Inr c"
      "case c of None \<Rightarrow> True | Some l' \<Rightarrow> list_all (rec_ok E X) l'"
    using change_first_ok record_run_ok assms(1) by blast
  show ?thesis
  proof (cases c)
    case None
    then show ?thesis using n l c d2 by (simp add: execute_native_def Let_def out_def [symmetric] x d2_def [symmetric] ns_def [symmetric])
  next
    case (Some l')
    then show ?thesis using n l c d2 by (simp add: execute_native_def Let_def out_def [symmetric] x d2_def [symmetric] ns_def [symmetric])
  qed
qed

definition pass_ok :: "sched_env \<Rightarrow> json set \<Rightarrow> pass \<Rightarrow> bool" where
  "pass_ok E X p \<longleftrightarrow> sched_ok E X (ps_sched p) \<and> list_all (rec_ok E X) (ps_items p) \<and> (ps_same p \<longrightarrow> sd_list (ps_sched p) = ps_items p)"

lemma pass_ok_put:
  assumes "pass_ok E X p" "rec_ok E X s"
  shows "pass_ok E X (save_pass (put_item k s p))"
proof -
  have "list_all (rec_ok E X) ((ps_items p)[k := s])"
    using assms set_update_subset_insert [of "ps_items p" k s] by (auto simp: list_all_iff pass_ok_def)
  moreover have "list_all (rec_ok E X) (sd_list (ps_sched p))" using assms(1) by (simp add: pass_ok_def sched_ok_def)
  ultimately show ?thesis using assms(1) by (auto simp: pass_ok_def save_pass_def put_item_def Let_def)
qed

lemma put_item_fields [simp]:
  "sd_running (ps_sched (save_pass (put_item k s p))) = sd_running (ps_sched p)"
  "length (ps_items (save_pass (put_item k s p))) = length (ps_items p)"
  "sd_active (ps_sched (save_pass (put_item k s p))) = sd_active (ps_sched p)"
  "sd_queue (ps_sched (save_pass (put_item k s p))) = sd_queue (ps_sched p)"
  "sd_pa (ps_sched (save_pass (put_item k s p))) = sd_pa (ps_sched p)"
  by (simp_all add: save_pass_def put_item_def Let_def)

definition pass_kept :: "sched_env \<Rightarrow> json set \<Rightarrow> pass \<Rightarrow> pass \<times> py_raise option \<Rightarrow> bool" where
  "pass_kept E X p r \<longleftrightarrow> snd r = None \<and> pass_ok E X (fst r) \<and> length (ps_items (fst r)) = length (ps_items p)
     \<and> sd_running (ps_sched (fst r)) = sd_running (ps_sched p)"

lemma execute_ok:
  assumes "env_ok E" "world_ok W" "tick_ok E X T" "pass_ok E X p" "k < length (ps_items p)"
  shows "pass_kept E X p (execute E W T k p)"
proof -
  define s where "s = ps_items p ! k"
  have s: "rec_ok E X s" using assms(4,5) by (simp add: pass_ok_def list_all_length s_def)
  obtain i where i: "dict_get s ''id'' = Some i" using s by (auto simp: rec_ok_def)
  obtain n where "get_none s ''run_count'' = JNum n" using rec_ok_fields(9) [OF s] by blast
  then have n: "get_def s ''run_count'' (JNum 0) = JNum n" by (rule get_none_present) simp
  define s2 where "s2 = dict_set ''run_count'' (JNum (n + 1)) (dict_set ''last_run_at'' (JStr (sx_iso E (tk_clock T))) s)"
  have s2: "rec_ok E X s2"
    unfolding s2_def using s assms(1)
    by (intro rec_ok_set) (simp_all add: field_checks_def time_ok_def env_ok_def)
  define p1 where "p1 = save_pass (put_item k s2 p)"
  have p1: "pass_ok E X p1" "length (ps_items p1) = length (ps_items p)" "sd_running (ps_sched p1) = sd_running (ps_sched p)"
    using pass_ok_put [OF assms(4) s2] by (simp_all add: p1_def)
  define d where "d = ps_sched p1"
  have d: "sched_ok E X (d\<lparr>sd_active := a\<rparr>)" for a using p1(1) by (simp add: d_def pass_ok_def)
  obtain d' where e: "execute_native E W T i s2 (d\<lparr>sd_active := List.insert i (sd_active d)\<rparr>) = (d', None)" "sched_ok E X d'"
      "sd_running d' = sd_running d"
    using execute_native_ok [OF assms(1-3) d s2, of i "List.insert i (sd_active d)"] by auto
  have pa: "sched_ok E X (execute_via_pa E T i s2 d)" "sd_running (execute_via_pa E T i s2 d) = sd_running d"
    "sd_list (execute_via_pa E T i s2 d) = sd_list d"
    using p1(1) by (simp_all add: execute_via_pa_def d_def pass_ok_def sched_ok_def)
  show ?thesis
    using p1 e pa assms(4)
    by (auto simp: execute_def Let_def s_def [symmetric] i n s2_def [symmetric] p1_def [symmetric] d_def [symmetric] pass_kept_def)
      (simp_all add: pass_ok_def d_def)
qed

lemma visit_ok:
  assumes "env_ok E" "world_ok W" "tick_ok E X T" "pass_ok E X p" "k < length (ps_items p)"
  shows "pass_kept E X p (visit E W T k p)"
proof -
  define s where "s = ps_items p ! k"
  have s: "rec_ok E X s" using assms(4,5) by (simp add: pass_ok_def list_all_length s_def)
  have i: "dict_get s ''id'' \<noteq> None" using s by (simp add: rec_ok_def)
  obtain a b where ab: "sched_parse_dt E (get_none s ''start_at'') = Inr a" "sched_parse_dt E (get_none s ''end_at'') = Inr b"
    using parse_dt_ok rec_ok_fields(1,2) [OF s] by blast
  obtain due where due: "is_due E s (tk_clock T) = Inr due" using is_due_ok [OF assms(1) s] by blast
  have "rec_ok E X (dict_set ''enabled'' (JBool False) s)" by (rule rec_ok_set [OF s]) (simp_all add: field_checks_def)
  then have off: "pass_ok E X (save_pass (put_item k (dict_set ''enabled'' (JBool False) s) p))" by (rule pass_ok_put [OF assms(4)])
  have id: "pass_kept E X p (p, None)" using assms(4) by (simp add: pass_kept_def)
  have on: "pass_kept E X p (if due then execute E W T k p else (p, None))" using execute_ok [OF assms] id by simp
  have "pass_kept E X p (save_pass (put_item k (dict_set ''enabled'' (JBool False) s) p), if dict_get s ''id'' = None then Some ValueErr else None)"
    using off i by (simp add: pass_kept_def)
  then show ?thesis
    using id on by (simp add: visit_def Let_def s_def [symmetric] ab due del: not_None_eq)
qed

lemma visit_from_ok:
  assumes "env_ok E" "world_ok W" "tick_ok E X T" "pass_ok E X p" "list_all (\<lambda>k. k < length (ps_items p)) ks"
  shows "pass_kept E X p (visit_from E W T ks p)"
  using assms(4,5)
proof (induction ks arbitrary: p)
  case Nil
  then show ?case by (simp add: pass_kept_def)
next
  case (Cons k ks)
  have v: "pass_kept E X p (visit E W T k p)" using visit_ok [OF assms(1-3)] Cons.prems by simp
  obtain p1 where p1: "visit E W T k p = (p1, None)" using v by (cases "visit E W T k p") (simp add: pass_kept_def)
  have "pass_kept E X p1 (visit_from E W T ks p1)" using Cons v p1 by (simp add: pass_kept_def)
  then show ?case using v p1 by (simp add: pass_kept_def)
qed

text \<open>The inspection for overdue schedules.\<close>

lemma overdue_ok:
  assumes "env_ok E" "rec_ok E X s"
  shows "\<exists>r. overdue_by E clock s = Inr r"
proof -
  obtain cfg where "as_obj (get_none s ''notify'') = Inr cfg" using notify_obj [OF assms(2)] by blast
  then have "\<exists>w. wants_staleness s = Inr w" by (auto simp: wants_staleness_def)
  then obtain w where w: "wants_staleness s = Inr w" by blast
  obtain p where p: "period_seconds E s clock = Inr p"
  proof (cases "truthy (get_none s ''interval_seconds'')")
    case True
    then obtain n where "get_none s ''interval_seconds'' = JNum n" using rec_ok_fields(6) [OF assms(2)] by auto
    then show ?thesis using True that by (simp add: period_seconds_def)
  next
    case False
    show ?thesis
    proof (cases "truthy (get_none s ''cron'')")
      case True
      then obtain c where c: "get_none s ''cron'' = JStr c" using rec_ok_fields(5) [OF assms(2)] by auto
      define q where "q = bindE (sx_cron E (JStr c) clock) (\<lambda>a. bindE (sx_cron E (JStr c) a) (\<lambda>b. Inr (b - a)))"
      have "sx_cron E (JStr c) t \<noteq> Inl OtherErr" for t using assms(1) by (simp add: env_ok_def)
      then have q: "q \<noteq> Inl OtherErr" by (auto simp: q_def bindE_def split: sum.splits)
      have "period_seconds E s clock = (case q of Inr q \<Rightarrow> Inr (Some (if 0 \<le> q then \<lfloor>q\<rfloor> else \<lceil>q\<rceil>)) | Inl ValueErr \<Rightarrow> Inr None | Inl OtherErr \<Rightarrow> Inl OtherErr)"
        using False True c by (simp add: period_seconds_def q_def)
      then show ?thesis using q that by (auto split: sum.splits py_raise.splits)
    next
      case cron: False
      then show ?thesis using False that by (simp add: period_seconds_def)
    qed
  qed
  obtain u where u: "get_none s ''created_at'' = JStr u" using rec_ok_fields(4) [OF assms(2)] by (auto simp: time_ok_def)
  then have c: "dict_get s ''created_at'' = Some (JStr u)" by (auto simp: get_def_def split: option.splits)
  have "\<exists>r. is_stale E s clock p = Inr r"
    using rec_ok_fields(11) [OF assms(2)]
    by (cases p) (auto simp: is_stale_def time_or_none_def c Let_def split: option.split)
  then show ?thesis using w p by (cases w) (simp_all add: overdue_by_def)
qed

lemma check_one_ok:
  assumes "env_ok E" "world_ok W" "tick_ok E X T" "sched_ok E X d" "k < length (sd_list d)"
  shows "\<exists>d'. check_one E W T k d = (d', None) \<and> sched_ok E X d' \<and> sd_running d' = sd_running d \<and> length (sd_list d') = length (sd_list d)"
proof -
  define s where "s = sd_list d ! k"
  have s: "rec_ok E X s" using assms(4,5) by (simp add: sched_ok_def list_all_length s_def)
  have i: "dict_get s ''id'' \<noteq> None" using s by (simp add: rec_ok_def)
  obtain r where r: "overdue_by E (tk_clock T) s = Inr r" using overdue_ok [OF assms(1) s] by blast
  show ?thesis
  proof (cases r)
    case None
    then show ?thesis using r assms(4) by (simp add: check_one_def Let_def s_def [symmetric])
  next
    case (Some over)
    obtain q d1 where q: "send_notice E W T s (staleness_text E s over) d = (Inr q, d1)" "only_notices d d1"
      using send_notice_ok [OF s assms(2,3)] by blast
    define s' where "s' = dict_set ''staleness_notified_at'' (JStr (sx_iso E (tk_clock T))) s"
    have "rec_ok E X s'" unfolding s'_def by (rule rec_ok_set [OF s]) (simp_all add: field_checks_def)
    then have "list_all (rec_ok E X) ((sd_list d)[k := s'])"
      using assms(4) set_update_subset_insert [of "sd_list d" k s'] by (auto simp: list_all_iff sched_ok_def)
    then show ?thesis
      using r Some q i only_noticesD [OF q(2)]
      by (simp add: check_one_def Let_def s_def [symmetric] s'_def [symmetric] del: not_None_eq)
  qed
qed

lemma check_from_ok:
  assumes "env_ok E" "world_ok W" "tick_ok E X T" "sched_ok E X d" "list_all (\<lambda>k. k < length (sd_list d)) ks"
  shows "sched_ok E X (check_from E W T ks d) \<and> sd_running (check_from E W T ks d) = sd_running d"
  using assms(4,5)
proof (induction ks arbitrary: d)
  case (Cons k ks)
  obtain d' where d': "check_one E W T k d = (d', None)" "sched_ok E X d'" "sd_running d' = sd_running d" "length (sd_list d') = length (sd_list d)"
    using check_one_ok [OF assms(1-3) Cons.prems(1)] Cons.prems(2) by auto
  then show ?case using Cons by simp
qed simp

lemma loop_turn_ok:
  assumes "env_ok E" "world_ok W" "tick_ok E X T" "sched_ok E X d"
  shows "sched_ok E X (loop_turn E W T d) \<and> sd_running (loop_turn E W T d) = sd_running d"
proof (cases "sd_running d")
  case True
  obtain l where l: "load_sched E d = Inr (d\<lparr>sd_list := l\<rparr>)" "sched_ok E X (d\<lparr>sd_list := l\<rparr>)" using sched_ok_load [OF assms(4)] by blast
  define d1 where "d1 = d\<lparr>sd_list := l\<rparr>"
  define d2 where "d2 = (if tk_mono T - sd_last_check d1 > 1800 then check_staleness E W T (d1\<lparr>sd_last_check := tk_mono T\<rparr>) else d1)"
  have d2: "sched_ok E X d2" "sd_running d2 = sd_running d"
    using check_from_ok [OF assms(1-3), of "d1\<lparr>sd_last_check := tk_mono T\<rparr>" "[0..<length (sd_list d1)]"] l(2)
    by (simp_all add: d2_def d1_def check_staleness_def list_all_iff)
  have "pass_kept E X \<lparr>ps_sched = d2, ps_items = sd_list d2, ps_same = True\<rparr>
      (visit_from E W T [0..<length (sd_list d2)] \<lparr>ps_sched = d2, ps_items = sd_list d2, ps_same = True\<rparr>)"
    using d2(1) by (intro visit_from_ok [OF assms(1-3)]) (simp_all add: pass_ok_def list_all_iff, simp add: sched_ok_def list_all_iff)
  then show ?thesis
    using True l(1) d2(2)
    by (auto simp: loop_turn_def Let_def d1_def [symmetric] d2_def [symmetric] pass_kept_def pass_ok_def split: prod.splits)
qed (simp add: loop_turn_def assms(4))

end
