(* ===== verification/Schedule_Runs.thy ===== *)
theory Schedule_Runs
  imports Scheduler
begin

text \<open>
  What the scheduler promises over time: well-formed schedules never stop the loop, a task for the resident agent is
  not handed out twice at once, and a failing task is announced at fixed counts and when it recovers. Three theorems at
  the end show where the loop falls short of its comments.
\<close>

subsection \<open>The other operations\<close>

text \<open>Times in a request that can be read, and an overlap rule for the ids in \<open>X\<close>.\<close>

definition request_ok :: "sched_env \<Rightarrow> json set \<Rightarrow> string \<Rightarrow> sched_request \<Rightarrow> bool" where
  "request_ok E X uuid rq \<longleftrightarrow> time_ok E (j_opt (rq_start_at rq)) \<and> time_ok E (j_opt (rq_end_at rq))
     \<and> (JStr (''sch_'' @ take 8 uuid) \<in> X \<longrightarrow> rq_overlap rq = ''skip'')"

lemma schedule_of_ok:
  assumes "env_ok E" "request_ok E X uuid rq"
  shows "rec_ok E X (schedule_of E clock uuid rq)"
proof -
  have j: "j_opt x = JNull \<or> (\<exists>c. j_opt x = JStr c)" for x by (cases x) (simp_all add: j_opt_def)
  have i: "(case n of Some n \<Rightarrow> JNum n | None \<Rightarrow> JNull) = JNull \<or> (\<exists>m. (case n of Some n \<Rightarrow> JNum n | None \<Rightarrow> JNull) = JNum m)" for n
    by (cases n) simp_all
  have n: "\<exists>x. (case n of Some n \<Rightarrow> if n \<noteq> [] then JObj n else JObj m | None \<Rightarrow> JObj m) = JObj x" for n m by (cases n) simp_all
  have t: "truthy (JStr (sx_iso E clock)) \<and> time_ok E (JStr (sx_iso E clock))" "time_ok E JNull"
    using assms(1) by (simp_all add: env_ok_def time_ok_def)
  show ?thesis
    unfolding rec_ok_def field_checks_def full_record_def schedule_of_def Let_def get_def_def
    using assms(2) j i n t by (simp add: request_ok_def)
qed

lemma list_ok_load:
  assumes "sched_ok E X d"
  obtains l where "load_sched E d = Inr (d\<lparr>sd_list := l\<rparr>)" "list_all (rec_ok E X) l" "sched_ok E X (d\<lparr>sd_list := l\<rparr>)"
  using sched_ok_load [OF assms] by (auto simp: sched_ok_def)

lemma update_result_ok:
  assumes "sched_ok E X d"
  shows "\<exists>d'. update_schedule_result E clock i status task d = Inr d' \<and> sched_ok E X d' \<and> sd_running d' = sd_running d
    \<and> sd_queue d' = sd_queue d \<and> (sd_active d' = removeAll i (sd_active d) \<or> sd_active d' = sd_active d)"
proof -
  obtain l where l: "load_sched E d = Inr (d\<lparr>sd_list := l\<rparr>)" "list_all (rec_ok E X) l" "sched_ok E X (d\<lparr>sd_list := l\<rparr>)"
    by (rule list_ok_load [OF assms])
  define f where "f = (\<lambda>s. let s1 = dict_set ''last_status'' (JStr status) s in add_history (result_entry E clock status task s1) s1)"
  have "\<exists>s'. f s = Inr s' \<and> rec_ok E X s'" if "rec_ok E X s" for s
  proof -
    have "rec_ok E X (dict_set ''last_status'' (JStr status) s)" by (rule rec_ok_set [OF that]) (simp_all add: field_checks_def)
    then show ?thesis using add_history_ok by (simp add: f_def Let_def)
  qed
  then obtain r where r: "change_first i f l = Inr r" "case r of None \<Rightarrow> True | Some l' \<Rightarrow> list_all (rec_ok E X) l'"
    using change_first_ok [OF l(2), of f i] by blast
  show ?thesis
    using l r assms by (cases r) (simp_all add: update_schedule_result_def f_def [symmetric])
qed

lemma without_id_ok: "list_all (rec_ok E X) l \<Longrightarrow> \<exists>r. without_id i l = Inr r \<and> list_all (rec_ok E X) r"
proof (induction l)
  case (Cons s l)
  then obtain r where "without_id i l = Inr r" "list_all (rec_ok E X) r" by auto
  moreover obtain j where "dict_get s ''id'' = Some j" using Cons.prems by (auto simp: rec_ok_def)
  ultimately show ?case using Cons.prems by simp
qed simp

lemma remove_ok:
  assumes "sched_ok E X d"
  shows "\<exists>b d'. remove_schedule E i d = Inr (b, d') \<and> sched_ok E X d' \<and> sd_running d' = sd_running d
    \<and> sd_queue d' = sd_queue d \<and> sd_active d' = sd_active d"
proof -
  obtain l where l: "load_sched E d = Inr (d\<lparr>sd_list := l\<rparr>)" "list_all (rec_ok E X) l" "sched_ok E X (d\<lparr>sd_list := l\<rparr>)"
    by (rule list_ok_load [OF assms])
  obtain r where "without_id i l = Inr r" "list_all (rec_ok E X) r" using without_id_ok [OF l(2)] by blast
  then show ?thesis using l by (auto simp: remove_schedule_def Let_def) (simp_all add: sched_ok_def)
qed

lemma toggle_ok:
  assumes "sched_ok E X d"
  shows "\<exists>b d'. toggle_schedule E i d = Inr (b, d') \<and> sched_ok E X d' \<and> sd_running d' = sd_running d
    \<and> sd_queue d' = sd_queue d \<and> sd_active d' = sd_active d"
proof -
  obtain l where l: "load_sched E d = Inr (d\<lparr>sd_list := l\<rparr>)" "list_all (rec_ok E X) l" "sched_ok E X (d\<lparr>sd_list := l\<rparr>)"
    by (rule list_ok_load [OF assms])
  define f where "f = (\<lambda>s. case dict_get s ''enabled'' of None \<Rightarrow> Inl ValueErr | Some e \<Rightarrow> Inr (dict_set ''enabled'' (JBool (\<not> truthy e)) s))"
  have "\<exists>s'. f s = Inr s' \<and> rec_ok E X s'" if r: "rec_ok E X s" for s
  proof -
    obtain e where e: "dict_get s ''enabled'' = Some e" using r by (auto simp: rec_ok_def)
    have "rec_ok E X (dict_set ''enabled'' (JBool (\<not> truthy e)) s)" by (rule rec_ok_set [OF r]) (simp_all add: field_checks_def)
    then show ?thesis by (simp add: f_def e)
  qed
  then obtain r where r: "change_first i f l = Inr r" "case r of None \<Rightarrow> True | Some l' \<Rightarrow> list_all (rec_ok E X) l'"
    using change_first_ok [OF l(2), of f i] by blast
  show ?thesis using l r by (cases r) (simp_all add: toggle_schedule_def f_def [symmetric])
qed

lemma add_ok:
  assumes "env_ok E" "sched_ok E X d" "request_ok E X uuid rq"
  shows "\<exists>d'. add_schedule E clock uuid rq d = Inr (schedule_of E clock uuid rq, d') \<and> sched_ok E X d' \<and> sd_running d' = sd_running d
    \<and> sd_queue d' = sd_queue d \<and> sd_active d' = sd_active d"
proof -
  obtain l where l: "load_sched E d = Inr (d\<lparr>sd_list := l\<rparr>)" "list_all (rec_ok E X) l" "sched_ok E X (d\<lparr>sd_list := l\<rparr>)"
    by (rule list_ok_load [OF assms(2)])
  then show ?thesis using schedule_of_ok [OF assms(1,3)] by (simp add: add_schedule_def Let_def)
qed

subsection \<open>Any course of events\<close>

text \<open>Turns of the loop, calls from the agent and the user interface, and changes other processes make to the file.
  \<open>n\<close> counts the results reported for \<open>i\<close>.\<close>

inductive sched_reach :: "sched_env \<Rightarrow> json set \<Rightarrow> json \<Rightarrow> sched \<Rightarrow> nat \<Rightarrow> sched \<Rightarrow> bool" for E X i d0 where
  origin: "sched_reach E X i d0 0 d0"
| turn: "sched_reach E X i d0 n d \<Longrightarrow> world_ok W \<Longrightarrow> tick_ok E X T \<Longrightarrow> sched_reach E X i d0 n (loop_turn E W T d)"
| added: "sched_reach E X i d0 n d \<Longrightarrow> request_ok E X uuid rq \<Longrightarrow> add_schedule E clock uuid rq d = Inr (s, d') \<Longrightarrow> sched_reach E X i d0 n d'"
| removed: "sched_reach E X i d0 n d \<Longrightarrow> remove_schedule E j d = Inr (b, d') \<Longrightarrow> sched_reach E X i d0 n d'"
| toggled: "sched_reach E X i d0 n d \<Longrightarrow> toggle_schedule E j d = Inr (v, d') \<Longrightarrow> sched_reach E X i d0 n d'"
| reported: "sched_reach E X i d0 n d \<Longrightarrow> update_schedule_result E clock j status task d = Inr d' \<Longrightarrow>
    sched_reach E X i d0 (if j = i then Suc n else n) d'"
| elsewhere: "sched_reach E X i d0 n d \<Longrightarrow> file_ok E X f \<Longrightarrow> sched_reach E X i d0 n (d\<lparr>sd_file := f\<rparr>)"

lemma reach_ok:
  assumes "env_ok E" "sched_ok E X d0" "sched_reach E X i d0 n d"
  shows "sched_ok E X d \<and> sd_running d = sd_running d0"
  using assms(3)
proof (induction rule: sched_reach.induct)
  case origin
  then show ?case using assms(2) by simp
next
  case (turn n d W T)
  then show ?case using loop_turn_ok [OF assms(1)] by blast
next
  case (added n d uuid rq clock s d')
  then show ?case using add_ok [OF assms(1), of X d uuid rq clock] by auto
next
  case (removed n d j b d')
  then show ?case using remove_ok [of E X d j] by auto
next
  case (toggled n d j v d')
  then show ?case using toggle_ok [of E X d j] by auto
next
  case (reported n d clock j status task d')
  then show ?case using update_result_ok [of E X d clock j status task] by auto
next
  case (elsewhere n d f)
  then show ?case by (simp add: sched_ok_def)
qed

subsection \<open>Tasks in the hands of the agent\<close>

definition is_task :: "json \<Rightarrow> entry \<Rightarrow> bool" where
  "is_task i m \<longleftrightarrow> dict_get m ''type'' = Some (JStr ''scheduled_task'') \<and> dict_get m ''schedule_id'' = Some i"

definition tasks_for :: "json \<Rightarrow> sched \<Rightarrow> nat" where
  "tasks_for i d = length (filter (is_task i) (sd_queue d))"

definition task_bound :: "json \<Rightarrow> nat \<Rightarrow> sched \<Rightarrow> bool" where
  "task_bound i n d \<longleftrightarrow> tasks_for i d \<le> n + (if i \<in> set (sd_active d) then 1 else 0)"

lemma only_notices_tasks: "only_notices d d' \<Longrightarrow> tasks_for i d' = tasks_for i d"
  by (auto simp: only_notices_def tasks_for_def is_task_def filter_empty_conv)

lemma execute_native_frame:
  "tasks_for j (fst (execute_native E W T i s d)) = tasks_for j d \<and> sd_active (fst (execute_native E W T i s d)) = sd_active d"
proof -
  define out where "out = native_outcome E W s"
  define dn where "dn = decide_notification E s out \<lparr>pv_digest = get_none s ''last_digest'', pv_failures = get_def s ''consecutive_failures'' (JNum 0)\<rparr>"
  show ?thesis
  proof (cases dn)
    case (Inl e)
    then show ?thesis by (simp add: execute_native_def Let_def out_def [symmetric] dn_def [symmetric])
  next
    case (Inr x)
    define sn where "sn = (if nd_should x then send_notice E W T s (nd_text x) d else (Inr (Delivered ''skipped'' []), d))"
    obtain r d1 where sn: "sn = (r, d1)" by (cases sn)
    have "only_notices d d1" using send_notice_frame [of d E W T s "nd_text x"] sn by (auto simp: sn_def split: if_splits)
    then have d1: "tasks_for j d1 = tasks_for j d" "sd_active d1 = sd_active d" by (simp_all add: only_notices_tasks only_noticesD)
    have fr: "tasks_for j (d1\<lparr>sd_file := f\<rparr>) = tasks_for j d1" "tasks_for j (d1\<lparr>sd_file := f, sd_list := l\<rparr>) = tasks_for j d1"
      "tasks_for j (save_sched (d1\<lparr>sd_file := f, sd_list := l\<rparr>)) = tasks_for j d1" for f l
      by (simp_all add: tasks_for_def)
    show ?thesis
      using d1 fr
      by (auto simp: execute_native_def Let_def out_def [symmetric] dn_def [symmetric] Inr sn_def [symmetric] sn load_sched_def bindE_def
          split: sum.split option.split)
  qed
qed

lemma execute_bound:
  assumes "pass_ok E X p" "i \<in> X" "k < length (ps_items p)" "task_bound i n (ps_sched p)"
  shows "task_bound i n (ps_sched (fst (execute E W T k p)))"
proof -
  define s where "s = ps_items p ! k"
  have s: "rec_ok E X s" using assms(1,3) by (simp add: pass_ok_def list_all_length s_def)
  obtain j where j: "dict_get s ''id'' = Some j" using s by (auto simp: rec_ok_def)
  have "get_none s ''overlap'' = JStr ''skip''" if "j = i" using s assms(2) j that by (simp add: rec_ok_def)
  then have skip: "j = i \<Longrightarrow> get_def s ''overlap'' (JStr ''skip'') = JStr ''skip''" using get_none_present by blast
  show ?thesis
  proof (cases "get_def s ''overlap'' (JStr ''skip'') = JStr ''skip'' \<and> j \<in> set (sd_active (ps_sched p))")
    case True
    then show ?thesis using assms(4) by (simp add: execute_def Let_def s_def [symmetric] j)
  next
    case False
    then have fresh: "j = i \<Longrightarrow> tasks_for i (ps_sched p) \<le> n" using skip assms(4) by (auto simp: task_bound_def)
    show ?thesis
    proof (cases "plus_one (get_def s ''run_count'' (JNum 0))")
      case (Inl e)
      then show ?thesis using False assms(4) by (auto simp: execute_def Let_def s_def [symmetric] j)
    next
      case (Inr m)
      define s2 where "s2 = dict_set ''run_count'' m (dict_set ''last_run_at'' (JStr (sx_iso E (tk_clock T))) s)"
      define p1 where "p1 = save_pass (put_item k s2 p)"
      define d where "d = ps_sched p1"
      have d: "tasks_for i d = tasks_for i (ps_sched p)" "sd_active d = sd_active (ps_sched p)"
        by (simp_all add: d_def p1_def tasks_for_def)
      define d' where "d' = fst (execute_native E W T j s2 (d\<lparr>sd_active := List.insert j (sd_active d)\<rparr>))"
      have d': "tasks_for i d' = tasks_for i d" "sd_active d' = List.insert j (sd_active d)"
        using execute_native_frame [of i E W T j s2 "d\<lparr>sd_active := List.insert j (sd_active d)\<rparr>"] by (simp_all add: d'_def tasks_for_def)
      have nat: "task_bound i n (d'\<lparr>sd_active := removeAll j (sd_active d')\<rparr>)"
        using fresh assms(4) d d' by (cases "j = i") (auto simp: task_bound_def tasks_for_def)
      have pa: "task_bound i n (execute_via_pa E T j s2 d)"
      proof (cases "j = i")
        case True
        have "is_task i (task_message E T i s2)" by (simp add: is_task_def task_message_def)
        then show ?thesis using True fresh d assms(4) by (auto simp: execute_via_pa_def task_bound_def tasks_for_def)
      next
        case False
        then have "\<not> is_task i (task_message E T j s2)" by (simp add: is_task_def task_message_def)
        then show ?thesis using False d assms(4) by (auto simp: execute_via_pa_def task_bound_def tasks_for_def)
      qed
      show ?thesis
        using False nat pa Inr
        by (auto simp: execute_def Let_def s_def [symmetric] j s2_def [symmetric] p1_def [symmetric] d_def [symmetric] d'_def split: prod.splits)
    qed
  qed
qed

lemma task_bound_cong: "sd_queue d' = sd_queue d \<Longrightarrow> sd_active d' = sd_active d \<Longrightarrow> task_bound i n d' = task_bound i n d"
  by (simp add: task_bound_def tasks_for_def)

lemma visit_bound:
  assumes "pass_ok E X p" "i \<in> X" "k < length (ps_items p)" "task_bound i n (ps_sched p)"
  shows "task_bound i n (ps_sched (fst (visit E W T k p)))"
proof -
  have "task_bound i n (ps_sched (save_pass (put_item k s p)))" for s using assms(4) by (simp cong: task_bound_cong)
  then show ?thesis
    using assms(4) execute_bound [OF assms, of W T] by (auto simp: visit_def Let_def split: sum.split prod.split option.split)
qed

lemma visit_from_bound:
  assumes "env_ok E" "world_ok W" "tick_ok E X T" "pass_ok E X p" "i \<in> X" "list_all (\<lambda>k. k < length (ps_items p)) ks" "task_bound i n (ps_sched p)"
  shows "task_bound i n (ps_sched (fst (visit_from E W T ks p)))"
  using assms(4,6,7)
proof (induction ks arbitrary: p)
  case (Cons k ks)
  have v: "pass_kept E X p (visit E W T k p)" using visit_ok [OF assms(1-3)] Cons.prems by simp
  obtain p1 where p1: "visit E W T k p = (p1, None)" using v by (cases "visit E W T k p") (simp add: pass_kept_def)
  have "task_bound i n (ps_sched p1)" using visit_bound [of E X p i k n W T] Cons.prems assms(5) p1 by simp
  then show ?case using Cons.IH [of p1] v p1 Cons.prems(2) by (simp add: pass_kept_def)
qed simp

lemma check_from_bound:
  "task_bound i n d \<Longrightarrow> task_bound i n (check_from E W T ks d)"
proof (induction ks arbitrary: d)
  case (Cons k ks)
  define s where "s = sd_list d ! k"
  have n: "task_bound i n (snd (send_notice E W T s m d))" for m
    using Cons.prems send_notice_frame [of d E W T s m] by (simp add: task_bound_def only_notices_tasks only_noticesD)
  have c: "task_bound i n (save_sched (d1\<lparr>sd_list := l\<rparr>)) = task_bound i n d1" for d1 l by (simp cong: task_bound_cong)
  have "task_bound i n (fst (check_one E W T k d))"
    using Cons.prems n [of "staleness_text E s over" for over]
    by (auto simp: check_one_def Let_def s_def [symmetric] c split: sum.split option.split prod.split) (metis snd_conv)+
  then show ?case using Cons.IH by (auto split: prod.split option.split)
qed simp

lemma loop_turn_bound:
  assumes "env_ok E" "world_ok W" "tick_ok E X T" "sched_ok E X d" "i \<in> X" "task_bound i n d"
  shows "task_bound i n (loop_turn E W T d)"
proof -
  obtain l where l: "load_sched E d = Inr (d\<lparr>sd_list := l\<rparr>)" "list_all (rec_ok E X) l" "sched_ok E X (d\<lparr>sd_list := l\<rparr>)"
    by (rule list_ok_load [OF assms(4)])
  define d1 where "d1 = d\<lparr>sd_list := l\<rparr>"
  define d2 where "d2 = (if tk_mono T - sd_last_check d1 > 1800 then check_staleness E W T (d1\<lparr>sd_last_check := tk_mono T\<rparr>) else d1)"
  have d2: "sched_ok E X d2"
    using check_from_ok [OF assms(1-3), of "d1\<lparr>sd_last_check := tk_mono T\<rparr>" "[0..<length (sd_list d1)]"] l(3)
    by (simp add: d2_def d1_def check_staleness_def list_all_iff)
  have "task_bound i n (d1\<lparr>sd_last_check := c\<rparr>)" "task_bound i n d1" for c using assms(6) by (simp_all add: d1_def task_bound_def tasks_for_def)
  then have b: "task_bound i n d2" using check_from_bound by (simp add: d2_def check_staleness_def)
  have ok: "pass_ok E X \<lparr>ps_sched = d2, ps_items = sd_list d2, ps_same = True\<rparr>" using d2 by (simp add: pass_ok_def sched_ok_def)
  define p0 where "p0 = \<lparr>ps_sched = d2, ps_items = sd_list d2, ps_same = True\<rparr>"
  obtain p r where v: "visit_from E W T [0..<length (sd_list d2)] p0 = (p, r)" by (cases "visit_from E W T [0..<length (sd_list d2)] p0")
  have "task_bound i n (ps_sched (fst (visit_from E W T [0..<length (sd_list d2)] p0)))"
    unfolding p0_def by (rule visit_from_bound [OF assms(1-3) ok assms(5)]) (simp_all add: list_all_iff b)
  then have p: "task_bound i n (ps_sched p)" "task_bound i n ((ps_sched p)\<lparr>sd_running := False\<rparr>)"
    using v by (simp_all add: task_bound_def tasks_for_def)
  show ?thesis
  proof (cases "sd_running d")
    case True
    then have "loop_turn E W T d = (case (p, r) of (p, None) \<Rightarrow> ps_sched p | (p, Some e) \<Rightarrow> (ps_sched p)\<lparr>sd_running := False\<rparr>)"
      by (simp only: loop_turn_def l(1) sum.case Let_def d1_def [symmetric] d2_def [symmetric] p0_def [symmetric] v if_False simp_thms)
    then show ?thesis using p by (cases r) simp_all
  next
    case False
    then show ?thesis using assms(6) by (simp add: loop_turn_def)
  qed
qed

lemma reach_bound:
  assumes "env_ok E" "sched_ok E X d0" "i \<in> X" "task_bound i 0 d0" "sched_reach E X i d0 n d"
  shows "task_bound i n d"
  using assms(5)
proof (induction rule: sched_reach.induct)
  case origin
  then show ?case using assms(4) .
next
  case (turn n d W T)
  then show ?case using loop_turn_bound [OF assms(1)] reach_ok [OF assms(1,2)] assms(3) by blast
next
  case (added n d uuid rq clock s d')
  then show ?case using add_ok [OF assms(1), of X d uuid rq clock] reach_ok [OF assms(1,2)] by (auto cong: task_bound_cong)
next
  case (removed n d j b d')
  then show ?case using remove_ok [of E X d j] reach_ok [OF assms(1,2)] by (auto cong: task_bound_cong)
next
  case (toggled n d j v d')
  then show ?case using toggle_ok [of E X d j] reach_ok [OF assms(1,2)] by (auto cong: task_bound_cong)
next
  case (reported n d clock j status task d')
  then have "sd_queue d' = sd_queue d" "sd_active d' = removeAll j (sd_active d) \<or> sd_active d' = sd_active d"
    using update_result_ok [of E X d clock j status task] reach_ok [OF assms(1,2)] by auto
  then show ?case using reported.IH by (auto simp: task_bound_def tasks_for_def split: if_splits)
next
  case (elsewhere n d f)
  then show ?case by (simp add: task_bound_def tasks_for_def)
qed

subsection \<open>A world to run in\<close>

text \<open>Times as text: sign, numerator and denominator in strokes. No cron expression is valid.\<close>

definition stroke_iso :: "rat \<Rightarrow> string" where
  "stroke_iso t = (case quotient_of t of (p, q) \<Rightarrow>
     (if p < 0 then CHR ''-'' else CHR ''+'') # replicate (nat \<bar>p\<bar>) CHR ''a'' @ replicate (nat q) CHR ''b'')"

definition stroke_from_iso :: "string \<Rightarrow> rat option" where
  "stroke_from_iso s =
     (if s = [] \<or> hd s \<notin> {CHR ''+'', CHR ''-''} then None
      else Some (of_int ((if hd s = CHR ''-'' then - 1 else 1) * int (length (filter (\<lambda>c. c = CHR ''a'') s)))
                 / of_int (int (length (filter (\<lambda>c. c = CHR ''b'') s)))))"

lemma stroke_reads_back: "stroke_from_iso (stroke_iso t) = Some t"
proof -
  obtain p q where pq: "quotient_of t = (p, q)" by (cases "quotient_of t")
  have q: "q > 0" using quotient_of_denom_pos [OF pq] .
  have i: "stroke_iso t = (if p < 0 then CHR ''-'' else CHR ''+'') # replicate (nat \<bar>p\<bar>) CHR ''a'' @ replicate (nat q) CHR ''b''"
    by (simp add: stroke_iso_def pq)
  have "stroke_from_iso (stroke_iso t) = Some (of_int p / of_int q)"
    unfolding i using q by (simp add: stroke_from_iso_def filter_replicate)
  then show ?thesis using quotient_of_div [OF pq] by simp
qed

definition demo_senv :: sched_env where
  "demo_senv = \<lparr>sx_sha256 = id, sx_dumps = (\<lambda>j. ''json''), sx_loads = (\<lambda>s. None), sx_str = (\<lambda>j. ''json''), sx_phrase = id,
     sx_iso = stroke_iso, sx_from_iso = stroke_from_iso, sx_cron = (\<lambda>c t. Inl ValueErr)\<rparr>"

definition demo_sworld :: sched_world where
  "demo_sworld = \<lparr>sw_which = (\<lambda>b. None), sw_home = ''/home/ada'', sw_run = (\<lambda>a c t. (ProcDone 1 [] ''no space'', 5)),
     sw_recipe = (\<lambda>r p t. (RecipeRaised ''unknown recipe'', 5)), sw_config = None, sw_desktop = (\<lambda>t b. True), sw_channel = (\<lambda>c m x. None),
     sw_exc_text = (\<lambda>e. ''error'')\<rparr>"

definition demo_stick :: "rat \<Rightarrow> sched_tick" where
  "demo_stick t = \<lparr>tk_clock = t, tk_uuid = ''01234567'', tk_pa_ok = True, tk_meanwhile = id, tk_mono = t\<rparr>"

definition demo_request :: sched_request where
  "demo_request = \<lparr>rq_recipe_name = None, rq_interval = Some 60, rq_params = None, rq_start_at = None, rq_end_at = None, rq_name = Some ''digest'',
     rq_prompt = Some ''sum up the day'', rq_cron = None, rq_overlap = ''skip'', rq_timeout = 300, rq_reply_channel = None,
     rq_reply_context = None, rq_command = None, rq_cwd = None, rq_notify = None\<rparr>"

definition demo_service :: sched where
  "demo_service = (new_sched None)\<lparr>sd_running := True, sd_pa := True\<rparr>"

lemma demo_senv_ok: "env_ok demo_senv"
  by (simp add: env_ok_def demo_senv_def stroke_reads_back) (simp add: stroke_iso_def split: prod.split)

lemma demo_sworld_ok: "world_ok demo_sworld"
  by (simp add: world_ok_def demo_sworld_def resolve_channel_names_def)

lemma demo_stick_ok: "tick_ok E X (demo_stick t)"
  by (simp add: tick_ok_def demo_stick_def)

lemma demo_service_ok: "sched_ok E X demo_service" "sd_running demo_service" "task_bound i 0 demo_service"
  by (simp_all add: demo_service_def new_sched_def sched_ok_def file_ok_def read_schedules_def task_bound_def tasks_for_def)

lemma demo_request_ok: "request_ok E X uuid demo_request"
  by (simp add: request_ok_def demo_request_def j_opt_def time_ok_def)

lemma demo_schedule_reach:
  "\<exists>d. add_schedule demo_senv 0 ''01234567'' demo_request demo_service = Inr (schedule_of demo_senv 0 ''01234567'' demo_request, d)
     \<and> sched_reach demo_senv X i demo_service 0 (loop_turn demo_senv demo_sworld (demo_stick 0) d)"
proof -
  obtain d where d: "add_schedule demo_senv 0 ''01234567'' demo_request demo_service = Inr (schedule_of demo_senv 0 ''01234567'' demo_request, d)"
    using add_ok [OF demo_senv_ok demo_service_ok(1) demo_request_ok, where X = X and clock = 0 and uuid = "''01234567''"] by blast
  have "sched_reach demo_senv X i demo_service 0 d" by (rule sched_reach.added [OF sched_reach.origin demo_request_ok d])
  then show ?thesis using d sched_reach.turn [OF _ demo_sworld_ok demo_stick_ok] by blast
qed

subsection \<open>One schedule over its runs\<close>

abbreviation has_id :: "json \<Rightarrow> entry \<Rightarrow> bool" where
  "has_id i s \<equiv> dict_get s ''id'' = Some i"

definition current :: "sched_env \<Rightarrow> json \<Rightarrow> file_text option \<Rightarrow> entry option" where
  "current E i f = (case read_schedules E f of Inr l \<Rightarrow> find (has_id i) l | Inl e \<Rightarrow> None)"

definition index_of :: "json \<Rightarrow> entry list \<Rightarrow> nat" where
  "index_of i l = length (takeWhile (\<lambda>s. \<not> has_id i s) l)"

text \<open>What a turn of the loop does for a record that is due, when it is the first one.\<close>

definition run_due :: "sched_env \<Rightarrow> sched_world \<Rightarrow> sched_tick \<Rightarrow> json \<Rightarrow> sched \<Rightarrow> sched" where
  "run_due E W T i d =
     (case load_sched E d of
        Inl e \<Rightarrow> d
      | Inr d1 \<Rightarrow> ps_sched (fst (execute E W T (index_of i (sd_list d1)) \<lparr>ps_sched = d1, ps_items = sd_list d1, ps_same = True\<rparr>)))"

definition triggered :: "sched_env \<Rightarrow> sched_tick \<Rightarrow> entry \<Rightarrow> entry" where
  "triggered E T s =
     dict_set ''run_count'' (case plus_one (get_def s ''run_count'' (JNum 0)) of Inr n \<Rightarrow> n | Inl e \<Rightarrow> JNull)
       (dict_set ''last_run_at'' (JStr (sx_iso E (tk_clock T))) s)"

lemma find_index:
  "find P l = Some s \<Longrightarrow> length (takeWhile (\<lambda>x. \<not> P x) l) < length l \<and> l ! length (takeWhile (\<lambda>x. \<not> P x) l) = s"
  by (induction l) (auto split: if_splits)

lemma find_update:
  "find P l = Some s \<Longrightarrow> P s' \<Longrightarrow> find P (l[length (takeWhile (\<lambda>x. \<not> P x) l) := s']) = Some s'"
  by (induction l) (auto split: if_splits)

lemma find_pred: "find P l = Some s \<Longrightarrow> P s"
  by (induction l) (auto split: if_splits)

lemma change_first_find:
  assumes "list_all (rec_ok E X) l" "find (has_id i) l = Some s" "f s = Inr s'" "has_id i s'"
  shows "\<exists>l'. change_first i f l = Inr (Some l') \<and> find (has_id i) l' = Some s'"
  using assms
proof (induction l)
  case (Cons x l)
  obtain j where j: "dict_get x ''id'' = Some j" using Cons.prems(1) by (auto simp: rec_ok_def)
  show ?case
  proof (cases "j = i")
    case True
    then show ?thesis using Cons.prems j by simp
  next
    case False
    then obtain l' where "change_first i f l = Inr (Some l')" "find (has_id i) l' = Some s'" using Cons j by auto
    then show ?thesis using False j by simp
  qed
qed simp

lemma current_file_of: "list_all (rec_ok E X) l \<Longrightarrow> current E i (Some (file_of l)) = find (has_id i) l"
  by (simp add: current_def read_file_of rec_ok_full)

text \<open>A run leaves the notice settings, the kind and the id alone and counts the failures.\<close>

lemma record_run_fields:
  assumes "rec_ok E X s" "get_none s ''consecutive_failures'' = JNum n" "record_run E clock out x st s = Inr s'"
  shows "get_none s' ''consecutive_failures'' = JNum (if ro_ok out then 0 else n + 1)"
    "k \<in> {''notify'', ''kind'', ''recipe'', ''id''} \<Longrightarrow> dict_get s' k = dict_get s k"
proof -
  have n: "get_def s ''consecutive_failures'' (JNum 0) = JNum n" by (rule get_none_present [OF assms(2)]) simp
  have h: "add_history item u = Inr v \<Longrightarrow> k \<noteq> ''history'' \<Longrightarrow> dict_get v k = dict_get u k" for item u v k
    by (auto simp: add_history_def Let_def split: json.splits)
  have g: "add_history item u = Inr v \<Longrightarrow> get_none v ''consecutive_failures'' = get_none u ''consecutive_failures''" for item u v
    using h [of item u v "''consecutive_failures''"] by (simp add: get_def_def)
  show "get_none s' ''consecutive_failures'' = JNum (if ro_ok out then 0 else n + 1)"
    using assms(3) n by (auto simp: record_run_def Let_def bindE_eq_Inr dest!: g split: if_splits)
  show "k \<in> {''notify'', ''kind'', ''recipe'', ''id''} \<Longrightarrow> dict_get s' k = dict_get s k"
    using assms(3) n h by (auto simp: record_run_def Let_def bindE_eq_Inr split: if_splits)
qed

lemma send_notice_count:
  "send_notice E W T s m d = (Inr r, d') \<Longrightarrow> length (sd_notices d') = Suc (length (sd_notices d))"
  by (auto simp: send_notice_def enqueue_notice_def Let_def split: sum.splits if_splits)

definition native_kind :: "entry \<Rightarrow> bool" where
  "native_kind s \<longleftrightarrow> kind_of s \<in> {JStr ''command'', JStr ''recipe''}"

definition tick_for :: "sched_env \<Rightarrow> json \<Rightarrow> sched_tick \<Rightarrow> bool" where
  "tick_for E i T \<longleftrightarrow> tick_ok E {} T \<and> (\<forall>f. current E i (tk_meanwhile T f) = current E i f)"

text \<open>The record and the count of notices after the native part of a run.\<close>

lemma native_exact:
  assumes "env_ok E" "world_ok W" "tick_for E i T" "sched_ok E {} d" "rec_ok E {} s" "has_id i s" "current E i (sd_file d) = Some s"
    and "get_none s ''consecutive_failures'' = JNum n"
    and x: "decide_notification E s (native_outcome E W s)
        \<lparr>pv_digest = get_none s ''last_digest'', pv_failures = get_def s ''consecutive_failures'' (JNum 0)\<rparr> = Inr x"
  shows "\<exists>d' s'. execute_native E W T i s d = (d', None) \<and> current E i (sd_file d') = Some s'
    \<and> get_none s' ''consecutive_failures'' = JNum (if ro_ok (native_outcome E W s) then 0 else n + 1)
    \<and> (\<forall>k \<in> {''notify'', ''kind'', ''recipe'', ''id''}. dict_get s' k = dict_get s k)
    \<and> length (sd_notices d') = length (sd_notices d) + (if nd_should x then 1 else 0)"
proof -
  have tick: "tick_ok E {} T" "\<And>f. current E i (tk_meanwhile T f) = current E i f" using assms(3) by (simp_all add: tick_for_def)
  define out where "out = native_outcome E W s"
  obtain r d1 where n: "(if nd_should x then send_notice E W T s (nd_text x) d else (Inr (Delivered ''skipped'' []), d)) = (Inr r, d1)"
      "only_notices d d1" "length (sd_notices d1) = length (sd_notices d) + (if nd_should x then 1 else 0)"
  proof (cases "nd_should x")
    case True
    obtain r d1 where q: "send_notice E W T s (nd_text x) d = (Inr r, d1)" "only_notices d d1"
      using send_notice_ok [OF assms(5,2) tick(1)] by blast
    then show ?thesis using True that send_notice_count [OF q(1)] by simp
  next
    case False
    then show ?thesis using that by simp
  qed
  define d2 where "d2 = d1\<lparr>sd_file := tk_meanwhile T (sd_file d1)\<rparr>"
  have d2: "sched_ok E {} d2" "current E i (sd_file d2) = Some s" "sd_notices d2 = sd_notices d1"
    using assms(4,7) tick only_noticesD [OF n(2)] by (simp_all add: d2_def sched_ok_def tick_ok_def)
  obtain l where l: "load_sched E d2 = Inr (d2\<lparr>sd_list := l\<rparr>)" "list_all (rec_ok E {}) l" by (rule list_ok_load [OF d2(1)])
  have "read_schedules E (sd_file d2) = Inr l" using l(1) by (auto simp: load_sched_def bindE_eq_Inr dest: arg_cong [of _ _ sd_list])
  then have find: "find (has_id i) l = Some s" using d2(2) by (simp add: current_def)
  define ns where "ns = (if delivery_status r = ''queued'' then ''ok'' else delivery_status r)"
  obtain s' where s': "record_run E (tk_clock T) out x ns s = Inr s'" "rec_ok E {} s'" using record_run_ok [OF assms(5,1)] by blast
  note f = record_run_fields [OF assms(5,8) s'(1)]
  have "has_id i s'" using f(2) assms(6) by simp
  then obtain l' where l': "change_first i (record_run E (tk_clock T) out x ns) l = Inr (Some l')" "find (has_id i) l' = Some s'"
    using change_first_find [where f = "record_run E (tk_clock T) out x ns", OF l(2) find s'(1)] by blast
  have "list_all (rec_ok E {}) l'"
    using change_first_ok [OF l(2), of "record_run E (tk_clock T) out x ns" i] record_run_ok [OF _ assms(1)] l'(1) by fastforce
  then have c: "current E i (Some (file_of l')) = Some s'" using l'(2) by (simp add: current_file_of)
  have "execute_native E W T i s d = (save_sched (d2\<lparr>sd_list := l'\<rparr>), None)"
    using n(1) l(1) l'(1) x by (simp add: execute_native_def Let_def out_def [symmetric] d2_def [symmetric] ns_def [symmetric])
  then show ?thesis using c f d2(3) n(3) by (simp add: out_def)
qed

lemma run_due_exact:
  assumes "env_ok E" "world_ok W" "tick_for E i T" "sched_ok E {} d" "i \<notin> set (sd_active d)" "current E i (sd_file d) = Some s" "native_kind s"
    and "get_none s ''consecutive_failures'' = JNum n"
    and x: "decide_notification E (triggered E T s) (native_outcome E W (triggered E T s)) \<lparr>pv_digest = get_none s ''last_digest'', pv_failures = JNum n\<rparr> = Inr x"
  shows "sched_ok E {} (run_due E W T i d) \<and> i \<notin> set (sd_active (run_due E W T i d))
    \<and> length (sd_notices (run_due E W T i d)) = length (sd_notices d) + (if nd_should x then 1 else 0)
    \<and> (\<exists>s'. current E i (sd_file (run_due E W T i d)) = Some s' \<and> native_kind s' \<and> dict_get s' ''notify'' = dict_get s ''notify''
         \<and> get_none s' ''consecutive_failures'' = JNum (if ro_ok (native_outcome E W (triggered E T s)) then 0 else n + 1))"
proof -
  obtain l where l: "load_sched E d = Inr (d\<lparr>sd_list := l\<rparr>)" "list_all (rec_ok E {}) l" "sched_ok E {} (d\<lparr>sd_list := l\<rparr>)"
    by (rule list_ok_load [OF assms(4)])
  have "read_schedules E (sd_file d) = Inr l" using l(1) by (auto simp: load_sched_def bindE_eq_Inr dest: arg_cong [of _ _ sd_list])
  then have find: "find (has_id i) l = Some s" using assms(6) by (simp add: current_def)
  define k where "k = index_of i l"
  have k: "k < length l" "l ! k = s" using find_index [OF find] by (simp_all add: k_def index_of_def)
  have i: "has_id i s" by (rule find_pred [OF find])
  have s: "rec_ok E {} s" using l(2) k by (auto simp: list_all_length)
  obtain m where "get_none s ''run_count'' = JNum m" using rec_ok_fields(9) [OF s] by blast
  then have m: "get_def s ''run_count'' (JNum 0) = JNum m" by (rule get_none_present) simp
  define s2 where "s2 = triggered E T s"
  have s2_eq: "s2 = dict_set ''run_count'' (JNum (m + 1)) (dict_set ''last_run_at'' (JStr (sx_iso E (tk_clock T))) s)"
    by (simp add: s2_def triggered_def m)
  have s2: "rec_ok E {} s2" "has_id i s2" "get_none s2 ''consecutive_failures'' = JNum n" "kind_of s2 = kind_of s"
      "dict_get s2 ''notify'' = dict_get s ''notify''" "get_none s2 ''last_digest'' = get_none s ''last_digest''"
      "get_def s2 ''consecutive_failures'' (JNum 0) = JNum n"
    using s assms(1,8) i get_none_present [OF assms(8)] unfolding s2_eq
    by (simp_all add: kind_of_def, intro rec_ok_set) (simp_all add: field_checks_def time_ok_def env_ok_def)
  define p0 where "p0 = \<lparr>ps_sched = d\<lparr>sd_list := l\<rparr>, ps_items = l, ps_same = True\<rparr>"
  have p0: "pass_ok E {} p0" using l by (simp add: pass_ok_def p0_def)
  define p1 where "p1 = save_pass (put_item k s2 p0)"
  define dd where "dd = (ps_sched p1)\<lparr>sd_active := List.insert i (sd_active (ps_sched p1))\<rparr>"
  have lk: "list_all (rec_ok E {}) (l[k := s2])"
    using l(2) s2(1) set_update_subset_insert [of l k s2] by (auto simp: list_all_iff)
  have dd: "sched_ok E {} dd" "current E i (sd_file dd) = Some s2" "sd_active dd = List.insert i (sd_active d)" "sd_notices dd = sd_notices d"
    using pass_ok_put [OF p0 s2(1), of k] current_file_of [OF lk, of i] find_update [OF find s2(2)]
    by (simp_all add: dd_def p1_def pass_ok_def) (simp_all add: p0_def save_pass_def put_item_def Let_def k_def index_of_def)
  obtain d' s' where e: "execute_native E W T i s2 dd = (d', None)" "current E i (sd_file d') = Some s'"
      "get_none s' ''consecutive_failures'' = JNum (if ro_ok (native_outcome E W s2) then 0 else n + 1)"
      "\<forall>k \<in> {''notify'', ''kind'', ''recipe'', ''id''}. dict_get s' k = dict_get s2 k"
      "length (sd_notices d') = length (sd_notices dd) + (if nd_should x then 1 else 0)"
    using native_exact [OF assms(1-3) dd(1) s2(1,2) dd(2) s2(3), of x] x s2 by (auto simp: s2_def [symmetric])
  have ok: "sched_ok E {} d'"
    using execute_native_ok [OF assms(1,2) _ dd(1) s2(1), of T i] assms(3) e(1) by (auto simp: tick_for_def)
  have act: "sd_active d' = List.insert i (sd_active d)" using execute_native_frame [of i E W T i s2 dd] e(1) dd(3) by simp
  have nk: "native_kind s2" using assms(7) s2(4) by (simp add: native_kind_def)
  have kind: "native_kind s'" using nk e(4) by (simp add: native_kind_def kind_of_def get_def_def)
  have p0f: "ps_items p0 = l" "sd_active (ps_sched p0) = sd_active d" by (simp_all add: p0_def)
  have "fst (execute E W T k p0) = p1\<lparr>ps_sched := d'\<lparr>sd_active := removeAll i (sd_active d')\<rparr>, ps_same := False\<rparr>"
    using e(1) nk assms(5)
    by (simp add: execute_def p0f k i m Let_def s2_eq [symmetric] p1_def [symmetric] dd_def [symmetric] native_kind_def
        del: not_in_set_insert put_item_fields)
  then have "run_due E W T i d = d'\<lparr>sd_active := removeAll i (sd_active d')\<rparr>"
    by (simp add: run_due_def l(1) p0_def [symmetric] k_def [symmetric])
  then show ?thesis using ok act e kind s2(5) dd(4) by (simp add: s2_def)
qed

definition notify_on :: "entry \<Rightarrow> json" where
  "notify_on s = (case as_obj (get_none s ''notify'') of Inr cfg \<Rightarrow> get_def cfg ''on'' (JStr ''change'') | Inl e \<Rightarrow> JNull)"

lemma decide_exact:
  assumes "rec_ok E X s" "notify_on s \<noteq> JStr ''never''"
  shows "\<exists>x. decide_notification E s out \<lparr>pv_digest = g, pv_failures = JNum n\<rparr> = Inr x
    \<and> (\<not> ro_ok out \<longrightarrow> nd_should x = (n + 1 \<in> set FAILURE_ESCALATION_POINTS))
    \<and> (ro_ok out \<and> n > 0 \<and> notify_on s \<noteq> JStr ''failure'' \<longrightarrow> nd_should x)"
proof -
  obtain cfg where c: "as_obj (get_none s ''notify'') = Inr cfg" using notify_obj [OF assms(1)] by blast
  have on: "notify_on s = get_def cfg ''on'' (JStr ''change'')" by (simp add: notify_on_def c)
  have "nd_should (recovery_notice E name out j)" for name j by (simp add: recovery_notice_def say_def)
  then show ?thesis
    using assms(2) by (auto simp: decide_notification_def c on Let_def failure_notice_should)
qed

text \<open>\<open>k\<close> runs in a row, each of them failing.\<close>

inductive streak :: "sched_env \<Rightarrow> json \<Rightarrow> sched \<Rightarrow> nat \<Rightarrow> sched \<Rightarrow> bool" for E i d0 where
  none: "streak E i d0 0 d0"
| more: "streak E i d0 k d \<Longrightarrow> world_ok W \<Longrightarrow> tick_for E i T \<Longrightarrow> current E i (sd_file d) = Some s \<Longrightarrow>
    \<not> ro_ok (native_outcome E W (triggered E T s)) \<Longrightarrow> streak E i d0 (Suc k) (run_due E W T i d)"

definition failing_state :: "sched_env \<Rightarrow> json \<Rightarrow> json option \<Rightarrow> int \<Rightarrow> sched \<Rightarrow> bool" where
  "failing_state E i settings n d \<longleftrightarrow> sched_ok E {} d \<and> i \<notin> set (sd_active d)
     \<and> (\<exists>s. current E i (sd_file d) = Some s \<and> native_kind s \<and> dict_get s ''notify'' = settings \<and> get_none s ''consecutive_failures'' = JNum n)"

lemma triggered_notify: "notify_on (triggered E T s) = notify_on s"
  by (simp add: notify_on_def triggered_def)

lemma current_rec_ok: "sched_ok E X d \<Longrightarrow> current E i (sd_file d) = Some s \<Longrightarrow> rec_ok E X s"
  by (auto simp: sched_ok_def file_ok_def current_def list_all_iff find_Some_iff)

lemma triggered_ok: "env_ok E \<Longrightarrow> rec_ok E X s \<Longrightarrow> rec_ok E X (triggered E T s)"
proof -
  assume e: "env_ok E" and s: "rec_ok E X s"
  obtain m where "get_none s ''run_count'' = JNum m" using rec_ok_fields(9) [OF s] by blast
  then have "get_def s ''run_count'' (JNum 0) = JNum m" by (rule get_none_present) simp
  then show ?thesis using e s unfolding triggered_def
    by (intro rec_ok_set) (simp_all add: field_checks_def time_ok_def env_ok_def)
qed

lemma failing_run:
  assumes "env_ok E" "world_ok W" "tick_for E i T" "failing_state E i (dict_get s0 ''notify'') n d" "notify_on s0 \<noteq> JStr ''never''"
    and "current E i (sd_file d) = Some s" "\<not> ro_ok (native_outcome E W (triggered E T s))"
  shows "failing_state E i (dict_get s0 ''notify'') (n + 1) (run_due E W T i d)
    \<and> length (sd_notices (run_due E W T i d)) = length (sd_notices d) + (if n + 1 \<in> set FAILURE_ESCALATION_POINTS then 1 else 0)"
proof -
  have f: "sched_ok E {} d" "i \<notin> set (sd_active d)" "native_kind s" "dict_get s ''notify'' = dict_get s0 ''notify''"
      "get_none s ''consecutive_failures'' = JNum n"
    using assms(4,6) by (auto simp: failing_state_def)
  have "notify_on s = notify_on s0" using f(4) by (simp add: notify_on_def get_def_def)
  then have "notify_on (triggered E T s) \<noteq> JStr ''never''" using assms(5) by (simp add: triggered_notify)
  then obtain x where x: "decide_notification E (triggered E T s) (native_outcome E W (triggered E T s))
      \<lparr>pv_digest = get_none s ''last_digest'', pv_failures = JNum n\<rparr> = Inr x" "nd_should x = (n + 1 \<in> set FAILURE_ESCALATION_POINTS)"
    using decide_exact [OF triggered_ok [OF assms(1) current_rec_ok [OF f(1) assms(6)]]] assms(7) by blast
  show ?thesis
    using run_due_exact [OF assms(1-3) f(1,2) assms(6) f(3,5) x(1)] x(2) assms(7) f(4) by (simp add: failing_state_def)
qed

lemma streak_notices:
  assumes "env_ok E" "failing_state E i (dict_get s0 ''notify'') 0 d0" "notify_on s0 \<noteq> JStr ''never''" "streak E i d0 k d"
  shows "failing_state E i (dict_get s0 ''notify'') (int k) d
    \<and> length (sd_notices d) = length (sd_notices d0) + length (filter (\<lambda>p. p \<le> int k) FAILURE_ESCALATION_POINTS)"
  using assms(4)
proof (induction rule: streak.induct)
  case none
  then show ?case using assms(2) by (simp add: FAILURE_ESCALATION_POINTS_def)
next
  case (more k d W T s)
  have e: "int (Suc k) = int k + 1" by simp
  have "length (filter (\<lambda>p. p \<le> int k + 1) FAILURE_ESCALATION_POINTS)
      = length (filter (\<lambda>p. p \<le> int k) FAILURE_ESCALATION_POINTS) + (if int k + 1 \<in> set FAILURE_ESCALATION_POINTS then 1 else 0)"
    by (auto simp: FAILURE_ESCALATION_POINTS_def)
  moreover have "failing_state E i (dict_get s0 ''notify'') (int k) d" using more.IH by blast
  note failing_run [OF assms(1) more.hyps(2,3) this assms(3) more.hyps(4,5)]
  ultimately show ?case unfolding e using more.IH by simp
qed

subsection \<open>Properties\<close>



text \<open>C23: the resident agent never holds two tasks of a schedule that forbids overlap. Whatever the turns, calls and
  changes of the file, as long as every record of the id says \<open>skip\<close> the number of its tasks ever put into the agent's
  queue exceeds the number of results reported for it by at most one.\<close>

theorem one_task_at_a_time:
  assumes "env_ok E" "sched_ok E {i} d0" "tasks_for i d0 = 0" "sched_reach E {i} i d0 n d"
  shows "tasks_for i d \<le> n + 1"
proof -
  have "task_bound i 0 d0" using assms(3) by (simp add: task_bound_def)
  then have "task_bound i n d" using reach_bound [OF assms(1,2)] assms(4) by simp
  then show ?thesis by (simp add: task_bound_def split: if_splits)
qed

definition demo_task_turn :: sched where
  "demo_task_turn = (case add_schedule demo_senv 0 ''01234567'' demo_request demo_service of
     Inr (s, d) \<Rightarrow> loop_turn demo_senv demo_sworld (demo_stick 0) d | Inl e \<Rightarrow> demo_service)"

lemma demo_task_sent: "tasks_for (JStr ''sch_01234567'') demo_task_turn = 1"
  by code_simp

theorem one_task_at_a_time_witness:
  "sched_reach demo_senv {JStr ''sch_01234567''} (JStr ''sch_01234567'') demo_service 0 demo_task_turn
   \<and> tasks_for (JStr ''sch_01234567'') demo_task_turn = 1 \<and> 1 \<le> (0::nat) + 1"
proof -
  have r: "sched_reach demo_senv {JStr ''sch_01234567''} (JStr ''sch_01234567'') demo_service 0 demo_task_turn"
    using demo_schedule_reach [of "{JStr ''sch_01234567''}" "JStr ''sch_01234567''"] by (auto simp: demo_task_turn_def)
  have z: "tasks_for (JStr ''sch_01234567'') demo_service = 0" by (simp add: demo_service_def new_sched_def tasks_for_def)
  show ?thesis using one_task_at_a_time [OF demo_senv_ok demo_service_ok(1) z r] r demo_task_sent by simp
qed

text \<open>C25: a failing task is never silent and never a flood. From a count of zero, \<open>k\<close> failing runs in a row send
  exactly one notice for each of the counts 1, 2, 5, 10, 20, 50 and 100 up to \<open>k\<close>, unless notices are switched off; and a
  run that succeeds after at least one failure sends one more, unless only failures are wanted.\<close>

theorem failures_escalate:
  assumes "env_ok E" "sched_ok E {} d" "i \<notin> set (sd_active d)" "current E i (sd_file d) = Some s" "native_kind s"
    and "get_none s ''consecutive_failures'' = JNum 0" "notify_on s \<noteq> JStr ''never''" "streak E i d k d'"
  shows "length (sd_notices d') = length (sd_notices d) + length (filter (\<lambda>p. p \<le> int k) [1, 2, 5, 10, 20, 50, 100])
    \<and> (world_ok W \<and> tick_for E i T \<and> current E i (sd_file d') = Some s' \<and> ro_ok (native_outcome E W (triggered E T s'))
         \<and> 0 < k \<and> notify_on s \<noteq> JStr ''failure'' \<longrightarrow>
       length (sd_notices (run_due E W T i d')) = Suc (length (sd_notices d')))"
proof -
  have "failing_state E i (dict_get s ''notify'') 0 d" using assms by (auto simp: failing_state_def)
  note st = streak_notices [OF assms(1) this assms(7,8)]
  have "length (sd_notices (run_due E W T i d')) = Suc (length (sd_notices d'))"
    if h: "world_ok W" "tick_for E i T" "current E i (sd_file d') = Some s'" "ro_ok (native_outcome E W (triggered E T s'))"
      "0 < k" "notify_on s \<noteq> JStr ''failure''"
  proof -
    have f: "sched_ok E {} d'" "i \<notin> set (sd_active d')" "native_kind s'" "dict_get s' ''notify'' = dict_get s ''notify''"
        "get_none s' ''consecutive_failures'' = JNum (int k)"
      using st h(3) by (auto simp: failing_state_def)
    have "notify_on (triggered E T s') = notify_on s" using f(4) by (simp add: triggered_notify) (simp add: notify_on_def get_def_def)
    then obtain x where x: "decide_notification E (triggered E T s') (native_outcome E W (triggered E T s'))
        \<lparr>pv_digest = get_none s' ''last_digest'', pv_failures = JNum (int k)\<rparr> = Inr x" "nd_should x"
      using decide_exact [OF triggered_ok [OF assms(1) current_rec_ok [OF f(1) h(3)]], of T] h(4-6) assms(7) by fastforce
    show ?thesis using run_due_exact [OF assms(1) h(1,2) f(1,2) h(3) f(3,5) x(1)] x(2) by simp
  qed
  then show ?thesis using st by (simp add: FAILURE_ESCALATION_POINTS_def)
qed

definition demo_command :: "string \<Rightarrow> sched_request" where
  "demo_command c = demo_request\<lparr>rq_prompt := None, rq_command := Some c\<rparr>"

definition demo_with :: "(string \<times> sched_request) list \<Rightarrow> sched" where
  "demo_with rqs = fold (\<lambda>(uuid, rq) d. case add_schedule demo_senv 0 uuid rq d of Inr (s, d') \<Rightarrow> d' | Inl e \<Rightarrow> d) rqs demo_service"

lemma demo_sworld_fails: "\<not> ro_ok (native_outcome E demo_sworld s)"
proof -
  have "\<not> ro_ok (execute_command E demo_sworld c t w)" "\<not> ro_ok (execute_recipe E demo_sworld r p t)" for c t w r p
    by (simp_all add: execute_command_def execute_recipe_def demo_sworld_def failed_outcome_def Let_def)
  then show ?thesis
    by (auto simp: native_outcome_def run_scheduled_def bindE_def failed_outcome_def split: sum.splits if_splits)
qed

lemma demo_command_state:
  "failing_state demo_senv (JStr ''sch_0'') (dict_get (schedule_of demo_senv 0 ''0'' (demo_command ''df'')) ''notify'') 0 (demo_with [(''0'', demo_command ''df'')])"
proof -
  have r: "request_ok demo_senv {} ''0'' (demo_command ''df'')" by (simp add: request_ok_def demo_command_def demo_request_def j_opt_def time_ok_def)
  obtain d where d: "add_schedule demo_senv 0 ''0'' (demo_command ''df'') demo_service = Inr (schedule_of demo_senv 0 ''0'' (demo_command ''df''), d)"
      "sched_ok demo_senv {} d" "sd_active d = sd_active demo_service"
    using add_ok [OF demo_senv_ok demo_service_ok(1) r] by blast
  have w: "demo_with [(''0'', demo_command ''df'')] = d" using d(1) by (simp add: demo_with_def)
  have "current demo_senv (JStr ''sch_0'') (sd_file (demo_with [(''0'', demo_command ''df'')])) = Some (schedule_of demo_senv 0 ''0'' (demo_command ''df''))"
    "native_kind (schedule_of demo_senv 0 ''0'' (demo_command ''df''))"
    "get_none (schedule_of demo_senv 0 ''0'' (demo_command ''df'')) ''consecutive_failures'' = JNum 0"
    by code_simp+
  then show ?thesis using d w by (simp add: failing_state_def demo_service_def new_sched_def)
qed

lemma demo_tick_for: "tick_for E i (demo_stick t)"
  by (simp add: tick_for_def demo_stick_ok) (simp add: demo_stick_def)

theorem failures_escalate_witness:
  "length (sd_notices (run_due demo_senv demo_sworld (demo_stick 60) (JStr ''sch_0'')
     (run_due demo_senv demo_sworld (demo_stick 0) (JStr ''sch_0'') (demo_with [(''0'', demo_command ''df'')])))) = 2"
proof -
  let ?i = "JStr ''sch_0''" and ?s = "schedule_of demo_senv 0 ''0'' (demo_command ''df'')" and ?d = "demo_with [(''0'', demo_command ''df'')]"
  have on: "notify_on ?s \<noteq> JStr ''never''" by code_simp
  have c: "current demo_senv ?i (sd_file ?d) = Some ?s" "native_kind ?s" "get_none ?s ''consecutive_failures'' = JNum 0" "sd_notices ?d = []"
    by code_simp+
  have s1: "streak demo_senv ?i ?d 1 (run_due demo_senv demo_sworld (demo_stick 0) ?i ?d)"
    using streak.more [OF streak.none demo_sworld_ok demo_tick_for c(1) demo_sworld_fails] by simp
  then obtain u where u: "current demo_senv ?i (sd_file (run_due demo_senv demo_sworld (demo_stick 0) ?i ?d)) = Some u"
    using streak_notices [OF demo_senv_ok demo_command_state on] by (auto simp: failing_state_def)
  note s2 = streak.more [OF s1 demo_sworld_ok demo_tick_for u demo_sworld_fails]
  have d: "sched_ok demo_senv {} ?d" "?i \<notin> set (sd_active ?d)" using demo_command_state by (simp_all add: failing_state_def)
  show ?thesis using failures_escalate [OF demo_senv_ok d c(1-3) on s2 [of 60]] c(4) by simp
qed

subsection \<open>What can go wrong\<close>

text \<open>A reload in the middle of a pass detaches the records that are still to come: what the pass writes into them is
  not saved. Here a task that is due every 60 seconds is handed to the agent at 0 and again at 5, because a command
  before it in the list was run in the same pass.\<close>

definition demo_pair :: sched where
  "demo_pair = demo_with [(''0'', demo_command ''df''), (''1'', demo_request\<lparr>rq_overlap := ''queue''\<rparr>)]"

theorem trigger_time_is_lost:
  "tasks_for (JStr ''sch_1'') (loop_turn demo_senv demo_sworld (demo_stick 0) demo_pair) = 1
   \<and> map_option (\<lambda>s. get_none s ''last_run_at'')
       (current demo_senv (JStr ''sch_1'') (sd_file (loop_turn demo_senv demo_sworld (demo_stick 0) demo_pair))) = Some JNull
   \<and> tasks_for (JStr ''sch_1'') (loop_turn demo_senv demo_sworld (demo_stick 5) (loop_turn demo_senv demo_sworld (demo_stick 0) demo_pair)) = 2"
  by code_simp

text \<open>Nothing checks the times of a new schedule, and one that cannot be read ends the loop for all of them.\<close>

theorem bad_start_time_stops_the_loop:
  "\<not> sd_running (loop_turn demo_senv demo_sworld (demo_stick 0)
      (demo_with [(''0'', (demo_command ''df'')\<lparr>rq_start_at := Some ''tomorrow''\<rparr>), (''1'', demo_command ''ls'')]))"
  by code_simp

text \<open>The recovery of a task with notices on failure only is not announced.\<close>

theorem recovery_unannounced:
  "notify_on s = JStr ''failure'' \<Longrightarrow> rec_ok E X s \<Longrightarrow> ro_ok out \<Longrightarrow>
   \<exists>x. decide_notification E s out \<lparr>pv_digest = g, pv_failures = JNum 5\<rparr> = Inr x \<and> \<not> nd_should x"
  using notify_obj [of E X s] by (auto simp: decide_notification_def notify_on_def Let_def silent_def)

end
