(* ===== verification/Todo_Store.thy ===== *)
theory Todo_Store
  imports Py_Path
begin

text \<open>
  \<open>todo/store.py\<close>: one JSON file per todo. The directory is a dictionary from the name before \<open>.json\<close> to the text of
  the file; a todo is the dictionary of its fields in the order of the dataclass, since nothing checks their types when
  a file is read. \<open>slugify\<close> is a library: its result is an argument.
\<close>

type_synonym todo = entry
type_synonym todo_dir = "(string, file_text) dict"

definition STATUSES :: "string list" where "STATUSES = [''todo'', ''doing'', ''done'', ''dropped'']"
definition PRIORITIES :: "string list" where "PRIORITIES = [''low'', ''normal'', ''high'']"
definition ACTIVE :: "string list" where "ACTIVE = [''todo'', ''doing'']"

definition PRIORITY_ORDER :: "(string, nat) dict" where
  "PRIORITY_ORDER = [(''high'', 0), (''normal'', 1), (''low'', 2)]"

datatype todo_error = NoMatch | Ambiguous "string list" | BadValue | Malformed

text \<open>The fields after \<open>id\<close> and \<open>title\<close>, with their defaults.\<close>

definition TODO_DEFAULTS :: entry where
  "TODO_DEFAULTS =
     [(''summary'', JNull), (''status'', JStr ''todo''), (''priority'', JStr ''normal''), (''tags'', JList []), (''created'', JStr []),
      (''updated'', JStr []), (''done_at'', JNull), (''context'', JNull), (''steps'', JList []), (''done_when'', JList []), (''links'', JList [])]"

text \<open>\<open>Todo(**data)\<close>: the arguments that are given, and the defaults of the others.\<close>

definition make_todo :: "string \<Rightarrow> json \<Rightarrow> entry \<Rightarrow> todo" where
  "make_todo i title data =
     (''id'', JStr i) # (''title'', title) # map (\<lambda>(k, v). (k, case dict_get data k of Some j \<Rightarrow> j | None \<Rightarrow> v)) TODO_DEFAULTS"

definition field :: "todo \<Rightarrow> string \<Rightarrow> json" where
  "field t k = (case dict_get t k of Some j \<Rightarrow> j | None \<Rightarrow> JNull)"

subsection \<open>Ids\<close>

text \<open>Where the todos are: the variable \<open>FRAGO_TODO_DIR\<close>, or a directory under the home directory.\<close>

definition todo_dir_of :: "string option \<Rightarrow> path \<Rightarrow> path" where
  "todo_dir_of base home = (case base of Some b \<Rightarrow> if b \<noteq> [] then path_of b else home @ [''.frago'', ''todo''] | None \<Rightarrow> home @ [''.frago'', ''todo''])"

definition todo_exists :: "todo_dir \<Rightarrow> string \<Rightarrow> bool" where
  "todo_exists d i = (dict_get d i \<noteq> None)"

definition numbered :: "string \<Rightarrow> nat \<Rightarrow> string" where
  "numbered stem n = stem @ ''-'' @ dec n"

lemma dec_inj: "dec m = dec n \<longleftrightarrow> m = n"
  by (metis dec_props)

lemma numbered_inj: "numbered stem m = numbered stem n \<longleftrightarrow> m = n"
  by (simp add: numbered_def dec_inj)

lemma finite_taken: "finite {m. n \<le> m \<and> todo_exists d (numbered stem m)}"
proof (rule finite_subset)
  show "{m. n \<le> m \<and> todo_exists d (numbered stem m)} \<subseteq> {m. numbered stem m \<in> fst ` set d}"
    by (auto simp: todo_exists_def map_of_eq_None_iff dom_map_of_conv_image_fst [symmetric])
  have "inj_on (numbered stem) {m. numbered stem m \<in> fst ` set d}" by (auto simp: inj_on_def numbered_inj)
  then show "finite {m. numbered stem m \<in> fst ` set d}" by (rule inj_on_finite [of _ _ "fst ` set d"]) auto
qed

function free_number :: "todo_dir \<Rightarrow> string \<Rightarrow> nat \<Rightarrow> string" where
  "free_number d stem n = (if todo_exists d (numbered stem n) then free_number d stem (n + 1) else numbered stem n)"
  by pat_completeness auto
termination
proof (relation "measure (\<lambda>(d, stem, n). card {m. n \<le> m \<and> todo_exists d (numbered stem m)})")
  fix d :: todo_dir and stem and n :: nat
  assume "todo_exists d (numbered stem n)"
  then have "n \<in> {m. n \<le> m \<and> todo_exists d (numbered stem m)}" "n \<notin> {m. n + 1 \<le> m \<and> todo_exists d (numbered stem m)}"
    "{m. n + 1 \<le> m \<and> todo_exists d (numbered stem m)} \<subseteq> {m. n \<le> m \<and> todo_exists d (numbered stem m)}" by auto
  then have "{m. n + 1 \<le> m \<and> todo_exists d (numbered stem m)} \<subset> {m. n \<le> m \<and> todo_exists d (numbered stem m)}" by blast
  then show "((d, stem, n + 1), d, stem, n) \<in> measure (\<lambda>(d, stem, n). card {m. n \<le> m \<and> todo_exists d (numbered stem m)})"
    using psubset_card_mono [OF finite_taken] by simp
qed simp

declare free_number.simps [simp del]

definition make_id :: "string \<Rightarrow> string \<Rightarrow> todo_dir \<Rightarrow> string" where
  "make_id day slug d =
     (let stem = (if slug \<noteq> [] then day @ ''-'' @ slug else day)
      in if todo_exists d stem then free_number d stem 2 else stem)"

text \<open>\<open>glob("*.json")\<close> sees the files of the directory itself.\<close>

definition globbed :: "todo_dir \<Rightarrow> string list" where
  "globbed d = sort (filter (\<lambda>k. CHR ''/'' \<notin> set k) (map fst d))"

definition resolve_id :: "string \<Rightarrow> todo_dir \<Rightarrow> todo_error + string" where
  "resolve_id ref d =
     (if todo_exists d ref then Inr ref
      else case filter (\<lambda>k. startswith k ref) (globbed d) of
             [] \<Rightarrow> Inl NoMatch
           | [k] \<Rightarrow> Inr k
           | ks \<Rightarrow> Inl (Ambiguous ks))"

subsection \<open>Files\<close>

definition write_todo :: "todo \<Rightarrow> todo_dir \<Rightarrow> todo_dir" where
  "write_todo t d = (case field t ''id'' of JStr i \<Rightarrow> dict_set i (Parsed (JObj t)) d | _ \<Rightarrow> d)"

text \<open>\<open>_load_file\<close>: the id is the name of the file whatever the file says.\<close>

definition load_todo :: "string \<Rightarrow> file_text \<Rightarrow> todo_error + todo" where
  "load_todo i f =
     (case f of
        Parsed (JObj raw) \<Rightarrow> Inr (make_todo i (case dict_get raw ''title'' of Some j \<Rightarrow> j | None \<Rightarrow> JStr i) raw)
      | _ \<Rightarrow> Inl Malformed)"

subsection \<open>Operations\<close>

record todo_request =
  tq_title :: string
  tq_summary :: "string option"
  tq_priority :: string
  tq_status :: string
  tq_tags :: "string list"
  tq_context :: "string option"
  tq_steps :: "string list"
  tq_done_when :: "string list"
  tq_links :: "string list"

definition opt_text :: "string option \<Rightarrow> json" where
  "opt_text x = (case x of Some s \<Rightarrow> JStr s | None \<Rightarrow> JNull)"

definition texts :: "string list \<Rightarrow> json" where
  "texts l = JList (map JStr l)"

definition new_todo :: "string \<Rightarrow> string \<Rightarrow> todo_request \<Rightarrow> todo" where
  "new_todo i today q =
     make_todo i (JStr (strip (tq_title q)))
       [(''summary'', opt_text (tq_summary q)), (''status'', JStr (tq_status q)), (''priority'', JStr (tq_priority q)), (''tags'', texts (tq_tags q)),
        (''created'', JStr today), (''updated'', JStr today), (''done_at'', if tq_status q = ''done'' then JStr today else JNull),
        (''context'', opt_text (tq_context q)), (''steps'', texts (tq_steps q)), (''done_when'', texts (tq_done_when q)), (''links'', texts (tq_links q))]"

definition add_todo :: "string \<Rightarrow> string \<Rightarrow> string \<Rightarrow> todo_request \<Rightarrow> todo_dir \<Rightarrow> (todo_error + todo) \<times> todo_dir" where
  "add_todo today day slug q d =
     (if strip (tq_title q) = [] \<or> tq_priority q \<notin> set PRIORITIES \<or> tq_status q \<notin> set STATUSES then (Inl BadValue, d)
      else let t = new_todo (make_id day slug d) today q in (Inr t, write_todo t d))"

definition get_todo :: "string \<Rightarrow> todo_dir \<Rightarrow> todo_error + todo" where
  "get_todo ref d = bindE (resolve_id ref d) (\<lambda>i. case dict_get d i of Some f \<Rightarrow> load_todo i f | None \<Rightarrow> Inl NoMatch)"

definition EDITABLE :: "string list" where
  "EDITABLE = [''title'', ''summary'', ''status'', ''priority'', ''tags'', ''context'', ''steps'', ''done_when'', ''links'']"

fun apply_changes :: "(string \<times> json) list \<Rightarrow> todo \<Rightarrow> todo_error + todo" where
  "apply_changes [] t = Inr t"
| "apply_changes ((k, v) # cs) t =
     (if v = JNull then apply_changes cs t
      else if k \<notin> set EDITABLE then Inl BadValue
      else if k = ''status'' \<and> v \<notin> JStr ` set STATUSES then Inl BadValue
      else if k = ''priority'' \<and> v \<notin> JStr ` set PRIORITIES then Inl BadValue
      else apply_changes cs (dict_set k v t))"

definition update_todo :: "string \<Rightarrow> string \<Rightarrow> entry \<Rightarrow> todo_dir \<Rightarrow> (todo_error + todo) \<times> todo_dir" where
  "update_todo today ref changes d =
     (case bindE (get_todo ref d) (apply_changes changes) of
        Inl e \<Rightarrow> (Inl e, d)
      | Inr t \<Rightarrow>
          (let t1 = dict_set ''updated'' (JStr today) t;
               t2 = (if dict_get changes ''status'' = Some (JStr ''done'') \<and> \<not> truthy (field t1 ''done_at'')
                     then dict_set ''done_at'' (JStr today) t1 else t1)
           in (Inr t2, write_todo t2 d)))"

definition mark_done :: "string \<Rightarrow> string \<Rightarrow> todo_dir \<Rightarrow> (todo_error + todo) \<times> todo_dir" where
  "mark_done today ref d =
     (case get_todo ref d of
        Inl e \<Rightarrow> (Inl e, d)
      | Inr t \<Rightarrow>
          if field t ''status'' = JStr ''done'' then (Inr t, d)
          else let t1 = dict_set ''updated'' (JStr today) (dict_set ''done_at'' (JStr today) (dict_set ''status'' (JStr ''done'') t))
               in (Inr t1, write_todo t1 d))"

definition remove_todo :: "string \<Rightarrow> todo_dir \<Rightarrow> (todo_error + string) \<times> todo_dir" where
  "remove_todo ref d = (case resolve_id ref d of Inl e \<Rightarrow> (Inl e, d) | Inr i \<Rightarrow> (Inr i, dict_del i d))"

text \<open>The order of a listing. A file that no operation of the store would write may hold a date or a tag list of another
  type, on which sorting or filtering may raise, depending on the pairs compared; None is a listing
  with such a todo, of which the model says nothing.\<close>

definition sort_rank :: "todo \<Rightarrow> nat" where
  "sort_rank t =
     (case field t ''priority'' of
        JStr p \<Rightarrow> (case dict_get PRIORITY_ORDER p of Some n \<Rightarrow> n | None \<Rightarrow> 1)
      | _ \<Rightarrow> 1)"

definition text_field :: "todo \<Rightarrow> string \<Rightarrow> string" where
  "text_field t k = (case field t k of JStr s \<Rightarrow> s | _ \<Rightarrow> [])"

definition sort_order :: "todo \<Rightarrow> nat \<times> string \<times> string" where
  "sort_order t = (sort_rank t, text_field t ''created'', text_field t ''id'')"

definition comparable :: "todo \<Rightarrow> bool" where
  "comparable t = ((case field t ''created'' of JStr _ \<Rightarrow> True | _ \<Rightarrow> False)
     \<and> (case field t ''priority'' of JList _ \<Rightarrow> False | JObj _ \<Rightarrow> False | _ \<Rightarrow> True)
     \<and> (case field t ''tags'' of JList _ \<Rightarrow> True | _ \<Rightarrow> False))"

definition loaded_todos :: "todo_dir \<Rightarrow> todo list" where
  "loaded_todos d =
     List.map_filter (\<lambda>i. case dict_get d i of Some f \<Rightarrow> (case load_todo i f of Inr t \<Rightarrow> Some t | Inl e \<Rightarrow> None) | None \<Rightarrow> None) (globbed d)"

definition wanted_todo :: "string option \<Rightarrow> string option \<Rightarrow> string option \<Rightarrow> todo \<Rightarrow> bool" where
  "wanted_todo st pr tag t =
     ((case st of Some x \<Rightarrow> x = [] \<or> field t ''status'' = JStr x | None \<Rightarrow> True)
      \<and> (case pr of Some x \<Rightarrow> x = [] \<or> field t ''priority'' = JStr x | None \<Rightarrow> True)
      \<and> (case tag of Some x \<Rightarrow> x = [] \<or> (case field t ''tags'' of JList l \<Rightarrow> JStr x \<in> set l | _ \<Rightarrow> False) | None \<Rightarrow> True))"

definition list_todos :: "string option \<Rightarrow> string option \<Rightarrow> string option \<Rightarrow> todo_dir \<Rightarrow> todo list option" where
  "list_todos st pr tag d =
     (let ts = loaded_todos d
      in if list_all comparable ts then Some (sort_key sort_order (filter (wanted_todo st pr tag) ts)) else None)"

definition next_todo :: "todo_dir \<Rightarrow> todo option option" where
  "next_todo d =
     map_option (\<lambda>ts. case filter (\<lambda>t. \<exists>s \<in> set ACTIVE. field t ''status'' = JStr s) ts of [] \<Rightarrow> None | t # _ \<Rightarrow> Some t)
       (list_todos None None None d)"

subsection \<open>Well-formed todos\<close>

definition todo_shape :: "string \<Rightarrow> todo \<Rightarrow> bool" where
  "todo_shape i t \<longleftrightarrow> map fst t = [''id'', ''title''] @ map fst TODO_DEFAULTS \<and> field t ''id'' = JStr i
     \<and> field t ''status'' \<in> JStr ` set STATUSES \<and> field t ''priority'' \<in> JStr ` set PRIORITIES
     \<and> (\<exists>s. field t ''created'' = JStr s) \<and> (\<exists>l. field t ''tags'' = JList l)"

definition todo_ok :: "string \<Rightarrow> todo \<Rightarrow> bool" where
  "todo_ok i t \<longleftrightarrow> todo_shape i t \<and> (field t ''status'' = JStr ''done'' \<longrightarrow> truthy (field t ''done_at''))"

definition dir_ok :: "todo_dir \<Rightarrow> bool" where
  "dir_ok d \<longleftrightarrow> dict_ok d \<and> (\<forall>(i, f) \<in> set d. \<exists>t. f = Parsed (JObj t) \<and> todo_ok i t)"

lemma field_set [simp]: "field (dict_set k v t) k' = (if k' = k then v else field t k')"
  by (simp add: field_def)

lemma keys_set_old: "k \<in> set (map fst t) \<Longrightarrow> map fst (dict_set k v t) = map fst t"
  by (induction t) auto

lemma dir_okD: "dir_ok d \<Longrightarrow> dict_get d i = Some f \<Longrightarrow> \<exists>t. f = Parsed (JObj t) \<and> todo_ok i t"
  by (auto simp: dir_ok_def dest!: map_of_SomeD)

text \<open>A well-formed todo is read back as it is.\<close>

lemma load_todo_ok:
  assumes "todo_ok i t"
  shows "load_todo i (Parsed (JObj t)) = Inr t"
proof -
  have k: "map fst t = [''id'', ''title''] @ map fst TODO_DEFAULTS" and i: "field t ''id'' = JStr i" using assms by (simp_all add: todo_ok_def todo_shape_def)
  have e: "t = map (\<lambda>k. (k, field t k)) (map fst t)"
  proof -
    have "distinct (map fst t)" unfolding k by (simp add: TODO_DEFAULTS_def)
    then have "field t (fst x) = snd x" if "x \<in> set t" for x using that by (cases x) (simp add: field_def)
    then show ?thesis by (simp add: map_idI)
  qed
  have d: "(case dict_get t k of Some j \<Rightarrow> j | None \<Rightarrow> v) = field t k" if "k \<in> set (map fst t)" for k v
    using that by (auto simp: field_def map_of_eq_None_iff split: option.split)
  have "make_todo i (case dict_get t ''title'' of Some j \<Rightarrow> j | None \<Rightarrow> JStr i) t = map (\<lambda>k. (k, field t k)) (map fst t)"
    using d i unfolding k by (simp add: make_todo_def TODO_DEFAULTS_def k)
  then show ?thesis using e by (simp add: load_todo_def)
qed

lemma dir_ok_write:
  assumes "dir_ok d" "todo_ok i t"
  shows "dir_ok (write_todo t d)" "write_todo t d = dict_set i (Parsed (JObj t)) d"
proof -
  show w: "write_todo t d = dict_set i (Parsed (JObj t)) d" using assms(2) by (simp add: write_todo_def todo_ok_def todo_shape_def)
  have "x \<in> set (dict_set i f d) \<Longrightarrow> x = (i, f) \<or> x \<in> set d" for x and f :: file_text by (induction d) (auto split: if_splits)
  then show "dir_ok (write_todo t d)" using assms unfolding w dir_ok_def by (fastforce simp del: update_conv)
qed

lemma get_todo_ok:
  assumes "dir_ok d" "get_todo ref d = Inr t"
  shows "\<exists>i. resolve_id ref d = Inr i \<and> dict_get d i = Some (Parsed (JObj t)) \<and> todo_ok i t"
proof -
  obtain i f where i: "resolve_id ref d = Inr i" "dict_get d i = Some f" "load_todo i f = Inr t"
    using assms(2) by (auto simp: get_todo_def bindE_eq_Inr split: option.splits)
  obtain u where "f = Parsed (JObj u)" "todo_ok i u" using dir_okD [OF assms(1) i(2)] by blast
  then show ?thesis using i load_todo_ok by simp
qed

lemma shape_set:
  assumes "todo_shape i t" "k \<in> set (map fst TODO_DEFAULTS) \<or> k = ''title''"
    and "k = ''status'' \<Longrightarrow> v \<in> JStr ` set STATUSES" "k = ''priority'' \<Longrightarrow> v \<in> JStr ` set PRIORITIES"
    and "k = ''created'' \<Longrightarrow> \<exists>s. v = JStr s" "k = ''tags'' \<Longrightarrow> \<exists>l. v = JList l"
  shows "todo_shape i (dict_set k v t)"
proof -
  have "k \<in> set (map fst t)" "k \<noteq> ''id''" using assms(1,2) by (auto simp: todo_shape_def TODO_DEFAULTS_def)
  then show ?thesis using assms keys_set_old [of k t v] unfolding todo_shape_def by simp
qed

text \<open>Changes as the command line makes them: no field twice, and tags are a list.\<close>

definition changes_ok :: "entry \<Rightarrow> bool" where
  "changes_ok cs \<longleftrightarrow> dict_ok cs \<and> (\<forall>(k, v) \<in> set cs. k = ''tags'' \<and> v \<noteq> JNull \<longrightarrow> (case v of JList l \<Rightarrow> True | _ \<Rightarrow> False))"

lemma changes_okD: "changes_ok cs \<Longrightarrow> \<forall>(k, v) \<in> set cs. k = ''tags'' \<and> v \<noteq> JNull \<longrightarrow> (\<exists>l. v = JList l)"
proof (clarsimp simp: changes_ok_def)
  fix v
  assume "\<forall>(k, v) \<in> set cs. k = ''tags'' \<and> v \<noteq> JNull \<longrightarrow> (case v of JList l \<Rightarrow> True | _ \<Rightarrow> False)" "(''tags'', v) \<in> set cs" "v \<noteq> JNull"
  then have "case v of JList l \<Rightarrow> True | _ \<Rightarrow> False" by blast
  then show "\<exists>l. v = JList l" by (cases v) simp_all
qed

lemma apply_changes_shape:
  assumes "todo_shape i t" "\<forall>(k, v) \<in> set cs. k = ''tags'' \<and> v \<noteq> JNull \<longrightarrow> (\<exists>l. v = JList l)" "apply_changes cs t = Inr t'"
  shows "todo_shape i t' \<and> field t' ''done_at'' = field t ''done_at''
    \<and> (field t' ''status'' = field t ''status'' \<or> (''status'', field t' ''status'') \<in> set cs)"
  using assms
proof (induction cs t arbitrary: t' rule: apply_changes.induct)
  case (2 k v cs t)
  show ?case
  proof (cases "v = JNull")
    case True
    then show ?thesis using 2 by auto
  next
    case False
    then have c: "k \<in> set EDITABLE" "k = ''status'' \<longrightarrow> v \<in> JStr ` set STATUSES" "k = ''priority'' \<longrightarrow> v \<in> JStr ` set PRIORITIES"
      and r: "apply_changes cs (dict_set k v t) = Inr t'"
      using "2.prems"(3) by (auto split: if_splits)
    have "todo_shape i (dict_set k v t)"
      using "2.prems"(1,2) False c by (intro shape_set) (auto simp: EDITABLE_def TODO_DEFAULTS_def)
    moreover have "\<forall>(k, v) \<in> set cs. k = ''tags'' \<and> v \<noteq> JNull \<longrightarrow> (\<exists>l. v = JList l)" using "2.prems"(2) by auto
    ultimately have ih: "todo_shape i t' \<and> field t' ''done_at'' = field (dict_set k v t) ''done_at''
        \<and> (field t' ''status'' = field (dict_set k v t) ''status'' \<or> (''status'', field t' ''status'') \<in> set cs)"
      using "2.IH"(2) False c r by blast
    have "k \<noteq> ''done_at''" using c(1) by (auto simp: EDITABLE_def)
    then show ?thesis using ih by (auto split: if_splits)
  qed
qed simp

lemma new_todo_ok:
  assumes "tq_priority q \<in> set PRIORITIES" "tq_status q \<in> set STATUSES" "today \<noteq> []"
  shows "todo_ok i (new_todo i today q)"
  using assms by (simp add: todo_ok_def todo_shape_def new_todo_def make_todo_def TODO_DEFAULTS_def field_def texts_def)

lemma update_todo_ok:
  assumes "dir_ok d" "today \<noteq> []" "changes_ok cs" "update_todo today ref cs d = (r, d')"
  shows "dir_ok d'"
proof (cases "bindE (get_todo ref d) (apply_changes cs)")
  case (Inl e)
  then show ?thesis using assms(1,4) by (simp add: update_todo_def)
next
  case (Inr t')
  then obtain t where t: "get_todo ref d = Inr t" "apply_changes cs t = Inr t'" by (auto simp: bindE_eq_Inr)
  obtain i where i: "todo_ok i t" using get_todo_ok [OF assms(1) t(1)] by blast
  have a: "todo_shape i t'" "field t' ''done_at'' = field t ''done_at''"
      "field t' ''status'' = field t ''status'' \<or> (''status'', field t' ''status'') \<in> set cs"
    using apply_changes_shape [OF _ changes_okD [OF assms(3)] t(2)] i by (auto simp: todo_ok_def)
  define t1 where "t1 = dict_set ''updated'' (JStr today) t'"
  have t1: "todo_shape i t1" using a(1) unfolding t1_def by (rule shape_set) (simp_all add: TODO_DEFAULTS_def)
  define t2 where "t2 = (if dict_get cs ''status'' = Some (JStr ''done'') \<and> \<not> truthy (field t1 ''done_at'') then dict_set ''done_at'' (JStr today) t1 else t1)"
  have "todo_shape i (dict_set ''done_at'' (JStr today) t1)" using t1 by (rule shape_set) (simp_all add: TODO_DEFAULTS_def)
  then have "todo_shape i t2" using t1 by (simp add: t2_def)
  moreover have "truthy (field t2 ''done_at'')" if "field t2 ''status'' = JStr ''done''"
  proof -
    have "field t' ''status'' = JStr ''done''" using that by (simp add: t2_def t1_def split: if_splits)
    then have "field t ''status'' = JStr ''done'' \<or> dict_get cs ''status'' = Some (JStr ''done'')"
      using a(3) assms(3) by (auto simp: changes_ok_def dict_get_in)
    then show ?thesis using i a(2) assms(2) by (auto simp: t2_def t1_def todo_ok_def)
  qed
  ultimately have "todo_ok i t2" by (simp add: todo_ok_def)
  moreover have "d' = write_todo t2 d" using assms(4) Inr by (simp add: update_todo_def Let_def t1_def [symmetric] t2_def [symmetric])
  ultimately show ?thesis using dir_ok_write(1) [OF assms(1)] by simp
qed

lemma mark_done_ok:
  assumes "dir_ok d" "today \<noteq> []" "mark_done today ref d = (r, d')"
  shows "dir_ok d'"
proof (cases "get_todo ref d")
  case (Inl e)
  then show ?thesis using assms(1,3) by (simp add: mark_done_def)
next
  case (Inr t)
  obtain i where i: "todo_ok i t" using get_todo_ok [OF assms(1) Inr] by blast
  define t1 where "t1 = dict_set ''updated'' (JStr today) (dict_set ''done_at'' (JStr today) (dict_set ''status'' (JStr ''done'') t))"
  have "todo_shape i t1"
    unfolding t1_def using i by (intro shape_set) (simp_all add: todo_ok_def TODO_DEFAULTS_def STATUSES_def)
  then have "todo_ok i t1" using assms(2) by (simp add: todo_ok_def t1_def)
  then show ?thesis
    using dir_ok_write(1) [OF assms(1)] assms(1,3) Inr by (auto simp: mark_done_def Let_def t1_def [symmetric] split: if_splits)
qed

lemma add_todo_ok:
  assumes "dir_ok d" "today \<noteq> []" "add_todo today day slug q d = (r, d')"
  shows "dir_ok d'"
  using assms(3) dir_ok_write(1) [OF assms(1) new_todo_ok [OF _ _ assms(2)]] assms(1)
  by (auto simp: add_todo_def Let_def split: if_splits)

lemma remove_todo_ok: "dir_ok d \<Longrightarrow> remove_todo ref d = (r, d') \<Longrightarrow> dir_ok d'"
  by (auto simp: remove_todo_def dir_ok_def AList.delete_eq split: sum.splits)

subsection \<open>Fresh ids\<close>

lemma free_number_free: "\<not> todo_exists d (free_number d stem n)"
  by (induction d stem n rule: free_number.induct) (subst free_number.simps, simp)

lemma make_id_free: "\<not> todo_exists d (make_id day slug d)"
  by (simp add: make_id_def Let_def free_number_free)

subsection \<open>Sequences of commands\<close>

datatype todo_op =
    Add string string string todo_request
  | Update string string entry
  | MarkDone string string
  | Remove string

text \<open>A day is never the empty text and changes are typed; other commands are not given.\<close>

fun todo_step :: "todo_op \<Rightarrow> todo_dir \<Rightarrow> todo_dir" where
  "todo_step (Add today day slug q) d = (if today = [] then d else snd (add_todo today day slug q d))"
| "todo_step (Update today ref cs) d = (if today = [] \<or> \<not> changes_ok cs then d else snd (update_todo today ref cs d))"
| "todo_step (MarkDone today ref) d = (if today = [] then d else snd (mark_done today ref d))"
| "todo_step (Remove ref) d = snd (remove_todo ref d)"

interpretation todos: invariant_ops todo_step dir_ok
proof
  fix d op
  assume "dir_ok d"
  then show "dir_ok (todo_step op d)"
    using add_todo_ok [OF _ _ prod.collapse [symmetric]] update_todo_ok [OF _ _ _ prod.collapse [symmetric]]
      mark_done_ok [OF _ _ prod.collapse [symmetric]] remove_todo_ok [OF _ prod.collapse [symmetric]]
    by (cases op) simp_all
qed

subsection \<open>Properties\<close>

lemma loaded_todos_ok:
  assumes "dir_ok d"
  shows "loaded_todos d = map (\<lambda>i. case dict_get d i of Some (Parsed (JObj t)) \<Rightarrow> t | _ \<Rightarrow> []) (globbed d)"
    "distinct (map (\<lambda>t. text_field t ''id'') (loaded_todos d))" "list_all comparable (loaded_todos d)"
proof -
  let ?t = "\<lambda>i. case dict_get d i of Some (Parsed (JObj t)) \<Rightarrow> t | _ \<Rightarrow> []"
  have g: "\<exists>t. dict_get d i = Some (Parsed (JObj t)) \<and> todo_ok i t" if "i \<in> set (globbed d)" for i
  proof -
    have "i \<in> fst ` set d" using that by (auto simp: globbed_def)
    then obtain f where "dict_get d i = Some f" by (metis map_of_eq_None_iff not_None_eq)
    then show ?thesis using dir_okD [OF assms] by blast
  qed
  have "List.map_filter (\<lambda>i. case dict_get d i of Some f \<Rightarrow> (case load_todo i f of Inr t \<Rightarrow> Some t | Inl e \<Rightarrow> None) | None \<Rightarrow> None) l = map ?t l"
    if "set l \<subseteq> set (globbed d)" for l
    using that
  proof (induction l)
    case (Cons i l)
    then obtain t where "dict_get d i = Some (Parsed (JObj t))" "todo_ok i t" using g by auto
    then show ?case using Cons by (simp add: List.map_filter_simps load_todo_ok)
  qed (simp add: List.map_filter_simps)
  then show l: "loaded_todos d = map ?t (globbed d)" by (simp add: loaded_todos_def)
  have tf: "text_field (?t i) ''id'' = i" "comparable (?t i)" if i: "i \<in> set (globbed d)" for i
  proof -
    obtain t where t: "dict_get d i = Some (Parsed (JObj t))" "todo_ok i t" using g [OF i] by blast
    have "field t ''id'' = JStr i" "\<exists>s. field t ''created'' = JStr s" "\<exists>l. field t ''tags'' = JList l" "field t ''priority'' \<in> JStr ` set PRIORITIES"
      using t(2) by (simp_all add: todo_ok_def todo_shape_def)
    then show "text_field (?t i) ''id'' = i" "comparable (?t i)" using t(1) by (auto simp: text_field_def comparable_def)
  qed
  show "list_all comparable (loaded_todos d)" unfolding l list_all_iff using tf(2) by auto
  have "map (\<lambda>t. text_field t ''id'') (loaded_todos d) = globbed d" unfolding l map_map o_def using tf(1) by (intro map_idI)
  moreover have "distinct (globbed d)" using assms by (simp add: globbed_def dir_ok_def dict_ok_def)
  ultimately show "distinct (map (\<lambda>t. text_field t ''id'') (loaded_todos d))" by simp
qed

text \<open>The most urgent of some todos, as the command promises it: high before normal before low, then the oldest, then
  the smallest id; a priority nobody knows counts as normal.\<close>

definition urgency :: "todo \<Rightarrow> nat \<times> string \<times> string" where
  "urgency t = (if field t ''priority'' = JStr ''high'' then 0 else if field t ''priority'' = JStr ''low'' then 2 else 1,
     text_field t ''created'', text_field t ''id'')"

definition most_urgent :: "todo list \<Rightarrow> todo option" where
  "most_urgent ts = (if ts = [] then None else Some (arg_min_list urgency ts))"

lemma urgency_sort_order: "urgency = sort_order"
  by (rule ext) (auto simp: urgency_def sort_order_def sort_rank_def PRIORITY_ORDER_def split: json.split)

definition is_active :: "todo \<Rightarrow> bool" where
  "is_active t \<longleftrightarrow> field t ''status'' \<in> {JStr ''todo'', JStr ''doing''}"

lemma hd_sort_key:
  assumes "xs \<noteq> []" "inj_on f (set xs)"
  shows "hd (sort_key f xs) = arg_min_list f xs"
proof -
  define m where "m = hd (sort_key f xs)"
  have ne: "sort_key f xs \<noteq> []" using assms(1) by (metis set_empty set_sort)
  have m: "m \<in> set xs" using hd_in_set [OF ne] by (simp add: m_def)
  have "f m \<le> f x" if "x \<in> set xs" for x
  proof -
    have "sorted (map f (sort_key f xs))" by simp
    moreover obtain y ys where y: "sort_key f xs = y # ys" using ne by (cases "sort_key f xs") auto
    moreover have "x \<in> set (y # ys)" using that y by (metis set_sort)
    ultimately show ?thesis by (auto simp: m_def)
  qed
  then have "f m = Min (f ` set xs)" using m by (intro Min_eqI [symmetric]) auto
  then have "f m = f (arg_min_list f xs)" by (rule trans) (rule f_arg_min_list_f [OF assms(1), symmetric])
  then have "m = arg_min_list f xs" by (rule inj_onD [OF assms(2)]) (rule m, rule arg_min_list_in [OF assms(1)])
  then show ?thesis by (simp only: m_def)
qed

text \<open>C27: \<open>next\<close> picks the most urgent todo. After any commands on a well-formed directory it never raises; it answers
  None exactly when no todo is open, and otherwise the one open todo that comes first by priority, then date, then id.\<close>

theorem next_is_most_urgent:
  assumes "dir_ok d0"
  shows "next_todo (fold todo_step ops d0) = Some (most_urgent (filter is_active (loaded_todos (fold todo_step ops d0))))"
proof -
  define d where "d = fold todo_step ops d0"
  have d: "dir_ok d" unfolding d_def by (rule todos.run_keeps [OF assms])
  note l = loaded_todos_ok(2,3) [OF d]
  define ts where "ts = filter is_active (loaded_todos d)"
  have "inj_on (\<lambda>t. text_field t ''id'') (set (loaded_todos d))" using l(1) by (simp add: distinct_map)
  then have "inj_on sort_order (set ts)" by (auto simp: inj_on_def sort_order_def ts_def)
  then have "ts \<noteq> [] \<Longrightarrow> hd (sort_key sort_order ts) = arg_min_list sort_order ts" by (intro hd_sort_key)
  moreover have "filter (\<lambda>t. \<exists>s \<in> set ACTIVE. field t ''status'' = JStr s) (sort_key sort_order (loaded_todos d)) = sort_key sort_order ts"
  proof -
    have "(\<lambda>t. \<exists>s \<in> set ACTIVE. field t ''status'' = JStr s) = is_active" by (auto simp: is_active_def ACTIVE_def)
    then show ?thesis by (simp add: ts_def filter_sort)
  qed
  moreover have "list_todos None None None d = Some (sort_key sort_order (loaded_todos d))"
  proof -
    have "wanted_todo None None None = (\<lambda>t. True)" by (simp add: wanted_todo_def fun_eq_iff)
    then show ?thesis using l(2) by (simp add: list_todos_def Let_def)
  qed
  moreover have "sort_key sort_order ts = [] \<longleftrightarrow> ts = []" by (metis set_empty set_sort)
  ultimately have "next_todo d = Some (most_urgent ts)"
    by (cases "sort_key sort_order ts") (auto simp: next_todo_def most_urgent_def urgency_sort_order)
  then show ?thesis by (simp add: d_def ts_def)
qed

definition demo_todo :: "string \<Rightarrow> string \<Rightarrow> todo_request" where
  "demo_todo title prio = \<lparr>tq_title = title, tq_summary = None, tq_priority = prio, tq_status = ''todo'', tq_tags = [], tq_context = None,
     tq_steps = [], tq_done_when = [], tq_links = []\<rparr>"

definition demo_todos :: "todo_op list" where
  "demo_todos = [Add ''2026-01-01'' ''20260101'' ''water'' (demo_todo ''water'' ''normal''), Add ''2026-01-02'' ''20260102'' ''pay'' (demo_todo ''pay'' ''high''),
     MarkDone ''2026-01-03'' ''20260101'']"

theorem next_is_most_urgent_witness:
  "next_todo (fold todo_step demo_todos []) = Some (most_urgent (filter is_active (loaded_todos (fold todo_step demo_todos []))))
   \<and> map_option (map_option (\<lambda>t. field t ''title'')) (next_todo (fold todo_step demo_todos [])) = Some (Some (JStr ''pay''))"
proof -
  have "map_option (map_option (\<lambda>t. field t ''title'')) (next_todo (fold todo_step demo_todos [])) = Some (Some (JStr ''pay''))" by code_simp
  then show ?thesis using next_is_most_urgent [of "[]" demo_todos] by (simp add: dir_ok_def)
qed

text \<open>C28: a todo that was added is found again and nothing else is touched. Adding never reuses an id and always ends;
  what \<open>get\<close> returns for the new id is what \<open>add\<close> returned, it has the requested fields and today's dates, and all other
  files are as before.\<close>

theorem add_then_get:
  assumes "dir_ok d" "today \<noteq> []" "add_todo today day slug q d = (Inr t, d')"
  shows "\<exists>i. \<not> todo_exists d i \<and> field t ''id'' = JStr i \<and> get_todo i d' = Inr t \<and> field t ''title'' = JStr (strip (tq_title q))
    \<and> field t ''status'' = JStr (tq_status q) \<and> field t ''created'' = JStr today
    \<and> (\<forall>j. j \<noteq> i \<longrightarrow> dict_get d' j = dict_get d j)"
proof -
  define i where "i = make_id day slug d"
  have t: "t = new_todo i today q" "d' = write_todo t d" "tq_priority q \<in> set PRIORITIES" "tq_status q \<in> set STATUSES"
    using assms(3) by (auto simp: add_todo_def Let_def i_def split: if_splits)
  have ok: "todo_ok i t" using new_todo_ok [OF t(3,4) assms(2)] t(1) by simp
  have d': "d' = dict_set i (Parsed (JObj t)) d" using dir_ok_write(2) [OF assms(1) ok] t(2) by simp
  have "resolve_id i d' = Inr i" by (simp add: resolve_id_def todo_exists_def d')
  then have "get_todo i d' = Inr t" by (simp add: get_todo_def d' load_todo_ok [OF ok])
  moreover have "field t ''title'' = JStr (strip (tq_title q))" "field t ''status'' = JStr (tq_status q)" "field t ''created'' = JStr today"
      "field t ''id'' = JStr i"
    by (simp_all add: t(1) new_todo_def make_todo_def TODO_DEFAULTS_def field_def)
  moreover have "\<not> todo_exists d i" by (simp add: i_def make_id_free)
  ultimately show ?thesis by (intro exI [of _ i]) (simp add: d')
qed

theorem add_then_get_witness:
  "\<exists>t d'. add_todo ''2026-01-02'' ''20260101'' ''water'' (demo_todo ''water'' ''low'') (fold todo_step demo_todos []) = (Inr t, d')
     \<and> get_todo ''20260101-water-2'' d' = Inr t"
proof -
  let ?d = "fold todo_step demo_todos []"
  have d: "dir_ok ?d" by (rule todos.run_keeps) (simp add: dir_ok_def)
  have m: "make_id ''20260101'' ''water'' ?d = ''20260101-water-2''" by code_simp
  obtain t d' where t: "add_todo ''2026-01-02'' ''20260101'' ''water'' (demo_todo ''water'' ''low'') ?d = (Inr t, d')"
      "field t ''id'' = JStr ''20260101-water-2''"
  proof
    show "add_todo ''2026-01-02'' ''20260101'' ''water'' (demo_todo ''water'' ''low'') ?d
        = (Inr (new_todo ''20260101-water-2'' ''2026-01-02'' (demo_todo ''water'' ''low'')),
           write_todo (new_todo ''20260101-water-2'' ''2026-01-02'' (demo_todo ''water'' ''low'')) ?d)"
    proof -
      have "strip (tq_title (demo_todo ''water'' ''low'')) \<noteq> []" by code_simp
      then show ?thesis unfolding add_todo_def m by (simp add: demo_todo_def PRIORITIES_def STATUSES_def Let_def)
    qed
    show "field (new_todo ''20260101-water-2'' ''2026-01-02'' (demo_todo ''water'' ''low'')) ''id'' = JStr ''20260101-water-2''" by code_simp
  qed
  show ?thesis using add_then_get [OF d _ t(1)] t by auto
qed

end
