(* ===== verification/Supervisor.thy ===== *)
theory Supervisor
  imports Frago_Prelude
begin

text \<open>
  \<open>server/services/recipe_supervisor.py\<close>: one recipe kept alive as a subprocess. A round of the loop starts the
  process, forwards its lines, takes it down and waits before the next start; what the process and the operating system
  do in a round is the round's argument.
\<close>

record sup_spec =
  sp_recipe :: string
  sp_params :: "entry option"
  sp_policy :: string
  sp_max_backoff :: int
  sp_initial_backoff :: int
  sp_startup_delay :: rat
  sp_name :: "string option"
  sp_win32 :: bool

definition sp_label :: "sup_spec \<Rightarrow> string" where
  "sp_label s = (case sp_name s of Some n \<Rightarrow> if n \<noteq> [] then n else sp_recipe s | None \<Rightarrow> sp_recipe s)"

subsection \<open>Starting the process\<close>

definition PROXY_VARS :: "string list" where
  "PROXY_VARS = [''HTTP_PROXY'', ''HTTPS_PROXY'', ''ALL_PROXY'', ''http_proxy'', ''https_proxy'', ''all_proxy'']"

text \<open>The environment of the process: \<open>secrets\<close> is the text of the resolved secrets of a recipe that declares some.\<close>

definition spawn_env :: "string option \<Rightarrow> bool \<Rightarrow> (string, string) dict \<Rightarrow> (string, string) dict" where
  "spawn_env secrets no_proxy os_environ =
     (let env1 = dict_set ''PYTHONIOENCODING'' ''utf-8'' os_environ;
          env2 = (case secrets of Some t \<Rightarrow> dict_set ''FRAGO_SECRETS'' t env1 | None \<Rightarrow> env1)
      in if no_proxy then fold dict_del PROXY_VARS env2 else env2)"

text \<open>The command line; \<open>dumps\<close> is \<open>json.dumps\<close> and \<open>uv\<close> the answer of \<open>shutil.which\<close>.\<close>

definition spawn_cmd :: "(json \<Rightarrow> string) \<Rightarrow> string option \<Rightarrow> string \<Rightarrow> sup_spec \<Rightarrow> string list" where
  "spawn_cmd dumps uv script s =
     [case uv of Some p \<Rightarrow> if p \<noteq> [] then p else ''uv'' | None \<Rightarrow> ''uv'', ''run'', ''--quiet'', script,
      dumps (JObj (case sp_params s of Some p \<Rightarrow> p | None \<Rightarrow> []))]"

subsection \<open>One round\<close>

text \<open>What the reader meets next: a line the sink takes, a line on which the sink raises, the end of the output, or the
  stop signal.\<close>

datatype pump_event = Line string | BadLine string | Eof | StopSet

fun pump :: "pump_event list \<Rightarrow> string list" where
  "pump [] = []"
| "pump (Line l # es) = l # pump es"
| "pump (_ # es) = []"

text \<open>What waiting for the process after a signal brings: a return code, the five seconds elapsed, or no such
  process.\<close>

datatype waited = ExitsWith int | StillThere | NoProcess

text \<open>\<open>rd_code\<close> is the return code when the reader is done, None while the process is not reaped; \<open>rd_term\<close> and
  \<open>rd_kill\<close> are what follows the two signals, the second without a time limit: None is no such process.\<close>

record round =
  rd_spawned :: bool
  rd_events :: "pump_event list"
  rd_code :: "int option"
  rd_term :: waited
  rd_kill :: "int option"
  rd_stop :: bool
  rd_wake :: bool

definition should_restart :: "sup_spec \<Rightarrow> int option \<Rightarrow> bool" where
  "should_restart s code =
     (if sp_policy s = ''never'' then False else if sp_policy s = ''always'' then True else code \<noteq> Some 0)"

datatype sig = SIGTERM | SIGKILL

datatype sig_call = KillPg sig | ProcTerminate | ProcKill

text \<open>The calls of \<open>_signal_tree\<close>; \<open>group_ok\<close> says whether the signal reaches the group.\<close>

definition signal_tree :: "bool \<Rightarrow> bool \<Rightarrow> sig option \<Rightarrow> sig_call list" where
  "signal_tree win32 group_ok s =
     (let alone = (if s = Some SIGTERM then ProcTerminate else ProcKill)
      in case s of
           Some g \<Rightarrow> if \<not> win32 then if group_ok then [KillPg g] else [KillPg g, alone] else [alone]
         | None \<Rightarrow> [alone])"

text \<open>\<open>_terminate\<close>: the signals it sends and the return code it leaves behind.\<close>

definition terminate :: "bool \<Rightarrow> round \<Rightarrow> sig option list \<times> int option" where
  "terminate win32 r =
     (if \<not> rd_spawned r then ([], None)
      else case rd_code r of
             Some c \<Rightarrow> ([], Some c)
           | None \<Rightarrow> (case rd_term r of
                 ExitsWith c \<Rightarrow> ([Some SIGTERM], Some c)
               | _ \<Rightarrow> ([Some SIGTERM, if \<not> win32 then Some SIGKILL else None], rd_kill r)))"

definition code_of :: "round \<Rightarrow> int option" where
  "code_of r = snd (terminate False r)"

lemma code_any: "snd (terminate w r) = code_of r"
  by (simp add: code_of_def terminate_def split: option.split waited.split)

record sup_state =
  su_backoff :: int
  su_restarts :: nat
  su_waits :: "int list"
  su_lines :: "string list"
  su_starts :: nat
  su_live :: nat
  su_done :: bool

definition sup_begin :: "sup_spec \<Rightarrow> bool \<Rightarrow> sup_state" where
  "sup_begin s stopped =
     \<lparr>su_backoff = sp_initial_backoff s, su_restarts = 0, su_waits = [], su_lines = [], su_starts = 0, su_live = 0, su_done = stopped\<rparr>"

definition sup_round :: "sup_spec \<Rightarrow> round \<Rightarrow> sup_state \<Rightarrow> sup_state" where
  "sup_round s r st =
     (if su_done st then st
      else let st1 = (if rd_spawned r
                      then st\<lparr>su_starts := su_starts st + 1, su_live := su_live st + 1, su_backoff := sp_initial_backoff s,
                              su_lines := su_lines st @ pump (rd_events r)\<rparr>
                      else st);
               code = snd (terminate (sp_win32 s) r);
               st2 = (if code \<noteq> None then st1\<lparr>su_live := su_live st1 - 1\<rparr> else st1)
           in if rd_stop r \<or> \<not> should_restart s code then st2\<lparr>su_done := True\<rparr>
              else let st3 = st2\<lparr>su_waits := su_waits st2 @ [su_backoff st2]\<rparr>
                   in if rd_wake r then st3\<lparr>su_done := True\<rparr>
                      else st3\<lparr>su_backoff := min (su_backoff st3 * 2) (sp_max_backoff s), su_restarts := su_restarts st3 + 1\<rparr>)"

definition sup_run :: "sup_spec \<Rightarrow> round list \<Rightarrow> sup_state" where
  "sup_run s rs = fold (sup_round s) rs (sup_begin s False)"

subsection \<open>The waits\<close>

text \<open>The wait before the next start by the number of starts that failed just before it.\<close>

definition capped_wait :: "sup_spec \<Rightarrow> nat \<Rightarrow> int" where
  "capped_wait s e = (if e = 0 then sp_initial_backoff s else min (sp_initial_backoff s * 2 ^ e) (sp_max_backoff s))"

text \<open>The exponent of a round from the one before; None before the first round.\<close>

definition next_exponent :: "bool \<Rightarrow> nat option \<Rightarrow> nat" where
  "next_exponent spawned e = (if spawned then 0 else case e of None \<Rightarrow> 0 | Some n \<Rightarrow> Suc n)"

fun exponents :: "bool list \<Rightarrow> nat option \<Rightarrow> nat list" where
  "exponents [] e = []"
| "exponents (b # bs) e = (let n = next_exponent b e in n # exponents bs (Some n))"

definition reaped :: "round \<Rightarrow> bool" where
  "reaped r \<longleftrightarrow> (rd_spawned r \<longrightarrow> code_of r \<noteq> None)"

definition goes_on :: "sup_spec \<Rightarrow> round \<Rightarrow> bool" where
  "goes_on s r \<longleftrightarrow> \<not> rd_stop r \<and> should_restart s (code_of r) \<and> \<not> rd_wake r"

lemma capped_wait_double:
  assumes "0 \<le> sp_initial_backoff s" "0 \<le> sp_max_backoff s"
  shows "min (capped_wait s e * 2) (sp_max_backoff s) = capped_wait s (Suc e)"
proof (cases e)
  case (Suc n)
  define a m where "a = sp_initial_backoff s * 2 ^ e" and "m = sp_max_backoff s"
  have "min (min a m * 2) m = min (a * 2) m" using assms by (simp add: m_def min_def)
  then show ?thesis by (simp add: capped_wait_def Suc a_def m_def mult.assoc mult.commute)
qed (simp add: capped_wait_def)

lemma sup_round_done: "su_done st \<Longrightarrow> fold (sup_round s) rs st = st"
  by (induction rs) (simp_all add: sup_round_def)

lemma code_of_unspawned: "\<not> rd_spawned r \<Longrightarrow> code_of r = None"
  by (simp add: code_of_def terminate_def)

text \<open>One round that goes on.\<close>

lemma sup_round_on:
  assumes "\<not> su_done st" "goes_on s r" "reaped r"
  shows "sup_round s r st = st\<lparr>su_starts := su_starts st + (if rd_spawned r then 1 else 0),
      su_lines := su_lines st @ (if rd_spawned r then pump (rd_events r) else []),
      su_waits := su_waits st @ [if rd_spawned r then sp_initial_backoff s else su_backoff st],
      su_backoff := min ((if rd_spawned r then sp_initial_backoff s else su_backoff st) * 2) (sp_max_backoff s),
      su_restarts := su_restarts st + 1\<rparr>"
  using assms by (auto simp: sup_round_def goes_on_def reaped_def code_any code_of_unspawned Let_def)

lemma run_on:
  assumes "0 \<le> sp_initial_backoff s" "0 \<le> sp_max_backoff s" "list_all (goes_on s) rs" "list_all reaped rs" "\<not> su_done st"
    and "su_backoff st = (case e of None \<Rightarrow> sp_initial_backoff s | Some n \<Rightarrow> capped_wait s (Suc n))"
  shows "su_waits (fold (sup_round s) rs st) = su_waits st @ map (capped_wait s) (exponents (map rd_spawned rs) e)
    \<and> \<not> su_done (fold (sup_round s) rs st) \<and> su_live (fold (sup_round s) rs st) = su_live st
    \<and> su_restarts (fold (sup_round s) rs st) = su_restarts st + length rs
    \<and> su_starts (fold (sup_round s) rs st) = su_starts st + length (filter rd_spawned rs)"
  using assms(3-6)
proof (induction rs arbitrary: st e)
  case (Cons r rs)
  define n where "n = next_exponent (rd_spawned r) e"
  have w: "(if rd_spawned r then sp_initial_backoff s else su_backoff st) = capped_wait s n"
    using Cons.prems(4) by (cases e) (simp_all add: n_def next_exponent_def capped_wait_def)
  note one = sup_round_on [OF Cons.prems(3), of s r]
  have "su_backoff (sup_round s r st) = capped_wait s (Suc n)"
    using one Cons.prems w capped_wait_double [OF assms(1,2), of n] by simp
  then show ?case
    using Cons.IH [of "sup_round s r st" "Some n"] one Cons.prems w by (simp add: n_def [symmetric] Let_def)
qed simp

text \<open>A recipe that asks for no proxy gets none, and its secrets and the rest of the environment all the same.\<close>

lemma dict_get_dels: "dict_get (fold dict_del ks d) k = (if k \<in> set ks then None else dict_get d k)"
  by (induction ks arbitrary: d) (simp_all add: dict_get_del)

lemma spawn_env_get:
  "dict_get (spawn_env secrets no_proxy d) k =
     (if no_proxy \<and> k \<in> set PROXY_VARS then None
      else if k = ''FRAGO_SECRETS'' \<and> secrets \<noteq> None then secrets
      else if k = ''PYTHONIOENCODING'' then Some ''utf-8'' else dict_get d k)"
proof -
  have "''FRAGO_SECRETS'' \<notin> set PROXY_VARS" "''PYTHONIOENCODING'' \<notin> set PROXY_VARS" by (simp_all add: PROXY_VARS_def)
  moreover have "''FRAGO_SECRETS'' \<noteq> ''PYTHONIOENCODING''" by simp
  ultimately show ?thesis by (cases secrets) (simp_all add: spawn_env_def dict_get_dels Let_def)
qed

text \<open>Every round, ending or not, leaves no process behind once its process is reaped.\<close>

lemma sup_round_live: "reaped r \<Longrightarrow> su_live (sup_round s r st) = su_live st"
  by (auto simp: sup_round_def reaped_def code_any code_of_unspawned Let_def)

lemma fold_live: "list_all reaped rs \<Longrightarrow> su_live (fold (sup_round s) rs st) = su_live st"
  by (induction rs arbitrary: st) (simp_all add: sup_round_live)

lemma sup_round_ends: "\<not> goes_on s r \<Longrightarrow> su_done (sup_round s r st)"
  by (auto simp: sup_round_def goes_on_def code_any Let_def)

lemma starts_grow: "su_starts (sup_round s r st) \<le> su_starts st + 1"
  by (simp add: sup_round_def Let_def)

definition demo_spec :: sup_spec where
  "demo_spec = \<lparr>sp_recipe = ''hud'', sp_params = None, sp_policy = ''on-failure'', sp_max_backoff = 60,
     sp_initial_backoff = 5, sp_startup_delay = 5, sp_name = None, sp_win32 = False\<rparr>"

definition demo_fails :: round where
  "demo_fails = \<lparr>rd_spawned = False, rd_events = [], rd_code = None, rd_term = NoProcess, rd_kill = None, rd_stop = False, rd_wake = False\<rparr>"

definition demo_crash :: round where
  "demo_crash = \<lparr>rd_spawned = True, rd_events = [Line ''x'', Eof], rd_code = None, rd_term = StillThere, rd_kill = Some (- 9), rd_stop = False, rd_wake = False\<rparr>"

definition demo_clean :: round where
  "demo_clean = demo_crash\<lparr>rd_code := Some 0\<rparr>"

lemma supervision_facts:
  assumes "0 \<le> sp_initial_backoff s" "0 \<le> sp_max_backoff s"
    and "list_all (goes_on s) rs" "list_all reaped rs" "\<not> goes_on s r" "reaped r"
  shows "su_waits (sup_run s rs) = map (capped_wait s) (exponents (map rd_spawned rs) None)"
    and "su_restarts (sup_run s rs) = length rs" and "su_live (sup_run s rs) = 0" and "\<not> su_done (sup_run s rs)"
    and "sup_run s (rs @ r # rest) = sup_run s (rs @ [r])" and "su_live (sup_run s (rs @ r # rest)) = 0"
    and "su_starts (sup_run s (rs @ r # rest)) = length (filter rd_spawned (rs @ [r]))"
proof -
  note on = run_on [OF assms(1-4), of "sup_begin s False" None]
  have b: "su_backoff (sup_begin s False) = (case (None :: nat option) of None \<Rightarrow> sp_initial_backoff s | Some n \<Rightarrow> capped_wait s (Suc n))"
    "\<not> su_done (sup_begin s False)" "su_waits (sup_begin s False) = []" "su_live (sup_begin s False) = 0"
    "su_restarts (sup_begin s False) = 0" "su_starts (sup_begin s False) = 0"
    by (simp_all add: sup_begin_def)
  note on = on [OF b(2,1)]
  show "su_waits (sup_run s rs) = map (capped_wait s) (exponents (map rd_spawned rs) None)"
    and "su_restarts (sup_run s rs) = length rs" and "su_live (sup_run s rs) = 0" and going: "\<not> su_done (sup_run s rs)"
    using on b by (simp_all add: sup_run_def)
  have cut: "sup_run s (rs @ r # rest) = sup_round s r (sup_run s rs)" for rest
    using sup_round_done [OF sup_round_ends [OF assms(5)]] by (simp add: sup_run_def)
  show "sup_run s (rs @ r # rest) = sup_run s (rs @ [r])" by (simp only: cut)
  show "su_live (sup_run s (rs @ r # rest)) = 0"
    using on b sup_round_live [OF assms(6)] by (simp add: cut) (simp add: sup_run_def)
  have "su_starts (sup_round s r (sup_run s rs)) = su_starts (sup_run s rs) + (if rd_spawned r then 1 else 0)"
    using going by (simp add: sup_round_def Let_def)
  then show "su_starts (sup_run s (rs @ r # rest)) = length (filter rd_spawned (rs @ [r]))"
    using on b by (simp add: cut) (simp add: sup_run_def)
qed



text \<open>A process that starts and dies at once, round after round, is restarted after the initial backoff each time: the
  wait does not grow.\<close>

theorem crash_loop_never_backs_off:
  "su_waits (sup_run demo_spec (replicate n demo_crash)) = replicate n 5"
proof -
  have c: "goes_on demo_spec demo_crash" "reaped demo_crash" "rd_spawned demo_crash" "0 \<le> sp_initial_backoff demo_spec"
    "0 \<le> sp_max_backoff demo_spec" "capped_wait demo_spec 0 = 5" by code_simp+
  have all: "list_all P (replicate n demo_crash)" if "P demo_crash" for P using that by (induction n) simp_all
  have zero: "exponents (replicate n True) e = replicate n 0" for e
    by (induction n arbitrary: e) (simp_all add: Let_def next_exponent_def)
  have "su_waits (fold (sup_round demo_spec) (replicate n demo_crash) (sup_begin demo_spec False))
      = su_waits (sup_begin demo_spec False) @ map (capped_wait demo_spec) (exponents (map rd_spawned (replicate n demo_crash)) None)"
    by (rule run_on [THEN conjunct1, OF c(4,5) all all]) (simp_all add: c sup_begin_def)
  then show ?thesis by (simp add: sup_run_def c zero map_replicate) (simp add: sup_begin_def)
qed

text \<open>A process whose output ends before it is reaped is sent SIGTERM; if that reaches it first, its clean exit counts
  as a failure and it is started again.\<close>

theorem clean_exit_may_restart:
  "should_restart demo_spec (code_of (demo_clean\<lparr>rd_code := None, rd_term := ExitsWith (- 15)\<rparr>))"
  by code_simp

end
