(* ===== verification/Project_Files.thy ===== *)
theory Project_Files
  imports Py_Path
begin

text \<open>
  \<open>server/services/file_service.py\<close>: the run directories under \<open>~/.frago/projects\<close> as the owner's interface lists and
  serves them. What the disk holds is the record below: the files and directories at resolved paths, \<open>Path.resolve\<close>
  (None when it raises), the entries of a directory in the order of \<open>os.scandir\<close>, and the properties of a file that the
  listing shows.
\<close>

record project_disk =
  pw_fs :: file_sys
  pw_resolve :: "path \<Rightarrow> path option"
  pw_scan :: "path \<Rightarrow> string list"
  pw_size :: "path \<Rightarrow> int"
  pw_modified :: "path \<Rightarrow> string"
  pw_mime :: "string \<Rightarrow> string option"
  pw_home :: path

definition PROJECTS_DIR :: "path \<Rightarrow> path" where
  "PROJECTS_DIR home = home @ [''.frago'', ''projects'']"

abbreviation pw_projects :: "project_disk \<Rightarrow> path" where
  "pw_projects w \<equiv> PROJECTS_DIR (pw_home w)"

text \<open>\<open>exists\<close>, \<open>is_dir\<close> and \<open>is_file\<close> follow links.\<close>

definition there :: "(file_sys \<Rightarrow> path \<Rightarrow> bool) \<Rightarrow> project_disk \<Rightarrow> path \<Rightarrow> bool" where
  "there test w p = (case pw_resolve w p of Some q \<Rightarrow> test (pw_fs w) q | None \<Rightarrow> False)"

definition exists_there :: "project_disk \<Rightarrow> path \<Rightarrow> bool" where
  "exists_there w p = there (\<lambda>fs q. is_file fs q \<or> is_dir fs q) w p"

subsection \<open>Addresses\<close>

definition bad_run_id :: "string \<Rightarrow> bool" where
  "bad_run_id r = (contains r ''..'' \<or> CHR ''/'' \<in> set r \<or> CHR 0x5C \<in> set r)"

text \<open>The second \<open>resolve\<close> cannot raise: the directory was just found.\<close>

definition validate_path :: "project_disk \<Rightarrow> string \<Rightarrow> string \<Rightarrow> path option" where
  "validate_path w run_id subpath =
     (if bad_run_id run_id then None
      else let project_dir = path_join (pw_projects w) run_id
           in if \<not> exists_there w project_dir then None
              else if subpath = [] then Some project_dir
              else case (pw_resolve w (path_join project_dir subpath), pw_resolve w project_dir) of
                     (Some target, Some base) \<Rightarrow> if prefix base target then Some target else None
                   | _ \<Rightarrow> None)"

definition get_project_dir :: "project_disk \<Rightarrow> string \<Rightarrow> path option" where
  "get_project_dir w run_id = validate_path w run_id []"

definition get_file_path :: "project_disk \<Rightarrow> string \<Rightarrow> string \<Rightarrow> path option" where
  "get_file_path w run_id subpath =
     (case validate_path w run_id subpath of
        None \<Rightarrow> None
      | Some p \<Rightarrow> if \<not> exists_there w p then None else if \<not> there is_file w p then None else Some p)"

text \<open>The command that opens a path, None where the answer is False; \<open>starts\<close> says whether it can be started.\<close>

definition open_in_system :: "project_disk \<Rightarrow> string \<Rightarrow> (string list \<Rightarrow> bool) \<Rightarrow> string \<Rightarrow> string \<Rightarrow> string list option" where
  "open_in_system w system starts run_id subpath =
     (case validate_path w run_id subpath of
        None \<Rightarrow> None
      | Some p \<Rightarrow>
          if \<not> exists_there w p then None
          else (let tool = (if system = ''Linux'' then Some ''xdg-open'' else if system = ''Darwin'' then Some ''open''
                            else if system = ''Windows'' then Some ''explorer'' else None)
                in case tool of
                     None \<Rightarrow> None
                   | Some t \<Rightarrow> if starts [t, path_str p] then Some [t, path_str p] else None))"

subsection \<open>Listing a directory\<close>

record file_info =
  fi_name :: string
  fi_path :: string
  fi_is_directory :: bool
  fi_size :: int
  fi_modified :: string
  fi_mime_type :: "string option"

definition hidden :: "string \<Rightarrow> bool" where
  "hidden n = startswith n ''.''"

definition file_entry :: "project_disk \<Rightarrow> path \<Rightarrow> string \<Rightarrow> string \<Rightarrow> file_info" where
  "file_entry w dir subpath n =
     (let rel = (if subpath \<noteq> [] then path_str (path_join (path_of subpath) n) else n); p = dir @ [n]
      in if there is_dir w p
         then \<lparr>fi_name = n, fi_path = rel, fi_is_directory = True, fi_size = 0, fi_modified = pw_modified w p, fi_mime_type = None\<rparr>
         else \<lparr>fi_name = n, fi_path = rel, fi_is_directory = False, fi_size = pw_size w p, fi_modified = pw_modified w p,
               fi_mime_type = pw_mime w n\<rparr>)"

definition listing_key :: "file_info \<Rightarrow> nat \<times> string" where
  "listing_key f = (if fi_is_directory f then 0 else 1, lower (fi_name f))"

definition list_files :: "project_disk \<Rightarrow> string \<Rightarrow> string \<Rightarrow> file_info list" where
  "list_files w run_id subpath =
     (case validate_path w run_id subpath of
        None \<Rightarrow> []
      | Some p \<Rightarrow>
          if \<not> exists_there w p \<or> \<not> there is_dir w p then []
          else sort_key listing_key
                 (map (file_entry w p subpath) (filter (\<lambda>n. \<not> hidden n \<and> exists_there w (p @ [n])) (pw_scan w p))))"

subsection \<open>Listing the projects\<close>

record project_info =
  pj_run_id :: json
  pj_theme_description :: json
  pj_created_at :: json
  pj_last_accessed :: json
  pj_status :: json

definition get_or :: "entry \<Rightarrow> string \<Rightarrow> json \<Rightarrow> json" where
  "get_or m k v = (case dict_get m k of Some x \<Rightarrow> x | None \<Rightarrow> v)"

definition project_info_of :: "string \<Rightarrow> entry \<Rightarrow> project_info" where
  "project_info_of n m =
     \<lparr>pj_run_id = get_or m ''run_id'' (JStr n), pj_theme_description = get_or m ''theme_description'' (JStr []),
      pj_created_at = get_or m ''created_at'' (JStr []), pj_last_accessed = get_or m ''last_accessed'' (JStr []),
      pj_status = get_or m ''status'' (JStr ''active'')\<rparr>"

datatype list_error = AttributeError | TypeError

text \<open>One entry of the projects directory: skipped, listed, or an exception that nothing catches, since \<open>get\<close> of a
  metadata file that is no object is an \<open>AttributeError\<close>.\<close>

definition read_project :: "project_disk \<Rightarrow> string \<Rightarrow> list_error + project_info option" where
  "read_project w n =
     (let dir = pw_projects w @ [n]
      in if \<not> there is_dir w dir \<or> \<not> exists_there w (dir @ [''.metadata.json'']) then Inr None
         else case pw_resolve w (dir @ [''.metadata.json'']) of
                None \<Rightarrow> Inr None
              | Some q \<Rightarrow>
                  (case dict_get (fs_files (pw_fs w)) q of
                     None \<Rightarrow> Inr None
                   | Some f \<Rightarrow>
                       (case f_text f of
                          Unparsable \<Rightarrow> Inr None
                        | Parsed (JObj m) \<Rightarrow> Inr (Some (project_info_of n m))
                        | Parsed _ \<Rightarrow> Inl AttributeError)))"

fun read_projects :: "project_disk \<Rightarrow> string list \<Rightarrow> list_error + project_info list" where
  "read_projects w [] = Inr []"
| "read_projects w (n # ns) =
     bindE (read_project w n) (\<lambda>x. bindE (read_projects w ns) (\<lambda>l. Inr (case x of Some p \<Rightarrow> p # l | None \<Rightarrow> l)))"

definition as_number :: "json \<Rightarrow> rat option" where
  "as_number j = (case j of JNum n \<Rightarrow> Some (of_int n) | JFloat q \<Rightarrow> Some q | JBool b \<Rightarrow> Some (if b then 1 else 0) | _ \<Rightarrow> None)"

definition is_text :: "json \<Rightarrow> bool" where
  "is_text j = (case j of JStr _ \<Rightarrow> True | _ \<Rightarrow> False)"

definition text_or_empty :: "json \<Rightarrow> string" where
  "text_or_empty j = (case j of JStr t \<Rightarrow> t | _ \<Rightarrow> [])"

text \<open>\<open>sort(key=..., reverse=True)\<close>: the newest first and equal ones in their order. Two dates of types that Python does
  not order raise; lists count as such.\<close>

definition newest_first :: "project_info list \<Rightarrow> list_error + project_info list" where
  "newest_first ps =
     (if list_all (\<lambda>p. is_text (pj_last_accessed p)) ps
      then Inr (rev (sort_key (\<lambda>p. text_or_empty (pj_last_accessed p)) (rev ps)))
      else if list_all (\<lambda>p. as_number (pj_last_accessed p) \<noteq> None) ps
      then Inr (rev (sort_key (\<lambda>p. the (as_number (pj_last_accessed p))) (rev ps)))
      else if length ps \<le> 1 then Inr ps
      else Inl TypeError)"

definition list_projects :: "project_disk \<Rightarrow> list_error + project_info list" where
  "list_projects w =
     (if \<not> exists_there w (pw_projects w) then Inr []
      else bindE (read_projects w (pw_scan w (pw_projects w))) newest_first)"

subsection \<open>Properties\<close>

text \<open>A resolved path has no links left.\<close>

definition resolve_settles :: "project_disk \<Rightarrow> bool" where
  "resolve_settles w \<longleftrightarrow> (\<forall>p q. pw_resolve w p = Some q \<longrightarrow> pw_resolve w q = Some q)"

lemma validate_path_base:
  assumes "resolve_settles w" "validate_path w r sub = Some p" "pw_resolve w p = Some q"
  shows "\<exists>base. pw_resolve w (path_join (pw_projects w) r) = Some base \<and> prefix base q"
  using assms by (auto simp: validate_path_def resolve_settles_def Let_def split: if_splits option.splits)

lemma there_resolves: "there t w p \<Longrightarrow> \<exists>q. pw_resolve w p = Some q \<and> t (pw_fs w) q"
  by (auto simp: there_def split: option.splits)

text \<open>A listed file is the one that is served under the listed address, unless it is a link out of the project.\<close>

lemma listed_file_served:
  assumes "resolve_settles w" "f \<in> set (list_files w r [])" "\<not> fi_is_directory f" "list_all one_component (pw_scan w (path_join (pw_projects w) r))"
    and "pw_resolve w (path_join (pw_projects w) r @ [fi_name f]) = Some q" "pw_resolve w (path_join (pw_projects w) r) = Some base"
    and "\<not> is_dir (pw_fs w) q"
  shows "get_file_path w r (fi_path f) = (if prefix base q then Some q else None)"
proof -
  define dir where "dir = path_join (pw_projects w) r"
  have v: "validate_path w r [] = Some dir" "\<not> bad_run_id r" "exists_there w dir"
    using assms(2) by (auto simp: list_files_def validate_path_def dir_def Let_def split: if_splits)
  have n: "fi_name f \<in> set (pw_scan w dir)" "exists_there w (dir @ [fi_name f])" "fi_path f = fi_name f"
    using assms(2) v(1) by (auto simp: list_files_def file_entry_def Let_def split: if_splits)
  have c: "one_component (fi_name f)" using assms(4) n(1) by (simp add: list_all_iff dir_def)
  have j: "path_join dir (fi_name f) = dir @ [fi_name f]" "fi_name f \<noteq> []"
    using path_join_one_component [OF c] c by (simp_all add: one_component_def)
  have q: "pw_resolve w q = Some q" "is_file (pw_fs w) q"
    using assms(1,5,7) n(2) by (auto simp: resolve_settles_def exists_there_def there_def dir_def)
  have "validate_path w r (fi_path f) = (if prefix base q then Some q else None)"
    using v(2,3) j n(3) assms(5,6) by (simp add: validate_path_def dir_def [symmetric] Let_def)
  then show ?thesis using q by (simp add: get_file_path_def exists_there_def there_def)
qed

text \<open>A disk with two projects, one of them with a link out of it.\<close>

definition demo_disk :: project_disk where
  "demo_disk =
     (let file = \<lambda>j. \<lparr>f_mode = 420, f_text = j\<rparr>;
          fs = \<lparr>fs_files = [([''/'', ''.frago'', ''projects'', ''a'', ''log''], file Unparsable), ([''/'', ''.frago'', ''projects'', ''b'', ''key''], file Unparsable),
                 ([''/'', ''.frago'', ''projects'', ''a'', ''.metadata.json''], file (Parsed (JObj [(''last_accessed'', JStr ''2026'')]))),
                 ([''/'', ''.frago'', ''projects'', ''b'', ''.metadata.json''], file (Parsed (JList [])))],
                fs_dirs = [([''/'', ''.frago'', ''projects''], 493), ([''/'', ''.frago'', ''projects'', ''a''], 493), ([''/'', ''.frago'', ''projects'', ''b''], 493)]\<rparr>
      in \<lparr>pw_fs = fs,
          pw_resolve = (\<lambda>p. Some (if p = [''/'', ''.frago'', ''projects'', ''a'', ''out''] then [''/'', ''.frago'', ''projects'', ''b'', ''key''] else p)),
          pw_scan = (\<lambda>p. if p = [''/'', ''.frago'', ''projects''] then [''a'', ''b''] else if p = [''/'', ''.frago'', ''projects'', ''a''] then [''log'', ''out'', ''.metadata.json''] else []),
          pw_size = (\<lambda>p. 0), pw_modified = (\<lambda>p. []), pw_mime = (\<lambda>n. None), pw_home = [''/'']\<rparr>)"

lemma demo_disk_settles: "resolve_settles demo_disk"
  by (simp add: resolve_settles_def demo_disk_def)



text \<open>The name \<open>.\<close> passes the check and stands for the projects directory itself, so that a path through it reaches the
  files of every project.\<close>

theorem dot_names_all_projects:
  "get_file_path demo_disk ''.'' ''b/key'' = Some [''/'', ''.frago'', ''projects'', ''b'', ''key'']"
  by code_simp

text \<open>A metadata file that is JSON but no object is not skipped: it makes the whole listing fail.\<close>

theorem one_metadata_file_hides_all: "list_projects demo_disk = Inl AttributeError"
  by code_simp

end
