(* ===== verification/Spec2Isabelle.thy ===== *)
theory Spec2Isabelle
  imports Home_Files Auth_Routes Execution_Store Session_Pool Schedule_Runs Todo_Store Supervisor Project_Files
begin

text \<open>
  \<^bold>\<open>Verification of frago.\<close> frago is a personal automation server in Python (\<open>src/src/frago\<close>). Its owner writes
  \<^emph>\<open>recipes\<close>, small programs with an optional web page; the server runs them, shows their pages, and may expose some of
  them to other people. Around this it keeps agents warm in tmux, runs schedules and daemons, and stores todos.

  \<^bold>\<open>The parts and how they interact.\<close> Every request meets the access gate (\<open>server/security.py\<close>) first. The gate reads
  the publication list (\<open>recipes/publish.py\<close>) and the login session (\<open>server/identity.py\<close>), sorts the request into a zone
  and records zone, slot and identity. Page routes (\<open>server/routes/app_pages.py\<close>) serve the state a recipe published
  (\<open>recipes/app_state.py\<close>) at that slot; the run route (\<open>app_run.py\<close>) lets a signed-in visitor start a recipe under a
  context (\<open>recipes/context.py\<close>) that confines what the recipe may publish; sign-in routes (\<open>auth.py\<close>) issue and end
  sessions. Recipes are found through the registry (\<open>recipes/registry.py\<close>), and their runs are recorded in the execution
  store (\<open>recipes/execution_store.py\<close>). The scheduler (\<open>server/services/scheduler_service.py\<close>) triggers commands, recipes
  and agent tasks; the supervisor keeps recipes alive as daemons; the session pool (\<open>agent_driver\<close>) holds the agents.

  \<^bold>\<open>Foundations.\<close>
  \<^item> \<open>Frago_Prelude\<close>: JSON values, results with an error branch (\<open>bindE\<close>), dictionaries that keep insertion order, and
    the interfaces \<open>invariant_ops\<close> (operations that keep an invariant; provided by \<open>Accounts\<close> and \<open>Todo_Store\<close>) and
    \<open>cached_table\<close> (a file read through a cache; provided by \<open>Publish\<close> and \<open>Accounts\<close>).
  \<^item> \<open>Py_Str\<close>, \<open>Py_Path\<close>: the string and path operations of Python that the sources use, and the files and directories
    with their permission bits.

  \<^bold>\<open>Exposure to other people.\<close>
  \<^item> \<open>Invocation\<close> (\<open>recipes/context.py\<close>), \<open>App_State\<close> (\<open>recipes/app_state.py\<close>): the run context in the environment, slot
    names and addresses, publishing and reading. Slots are confined to their root, reading returns what was published, and
    a visitor's run can only write the visitor's own slot.
  \<^item> \<open>Publish\<close> (\<open>recipes/publish.py\<close>): the list of exposed pages; unreadable fields end up closed. The locale
    \<open>page_directory\<close> is what the gate relies on.
  \<^item> \<open>Rate_Limit\<close>, \<open>Passwords\<close>, \<open>Switches\<close>, \<open>Login_Sessions\<close>, \<open>Accounts\<close> (\<open>server/identity.py\<close> and the switches of
    \<open>server/security.py\<close>): limiters with their bounds, the stored form of passwords, session files with expiry and
    quotas, the account table. \<open>id_step\<close> is one call; the invariant \<open>accounts_ok\<close> holds over all sequences of them.
  \<^item> \<open>Access_Gate\<close> (\<open>server/security.py\<close>): \<open>gate_call\<close> is the middleware. Its theorems say exactly who reaches what
    without signing in, with a session, and as the owner.
  \<^item> \<open>Home_Files\<close>: what start-up does to the home directory. No file is lost in the move and credentials end up private.
  \<^item> \<open>App_Pages\<close>, \<open>Visitor_Runs\<close>, \<open>Auth_Routes\<close>: the routes. A visitor learns only published keys of the own slot, reads
    files only below the own data directory, holds one run at a time out of at most two, and gets a cookie only by signing
    in from the site itself. \<open>Visitor_Runs\<close> treats requests and ends of runs as interleaved steps.

  \<^bold>\<open>Recipes and their runs.\<close>
  \<^item> \<open>Recipe_Params\<close> (\<open>recipes/metadata.py\<close>), \<open>Recipe_Registry\<close> (\<open>recipes/registry.py\<close>): declarations, the check of
    parameters, scanning and lookup; the locale \<open>recipe_index\<close> of \<open>App_Pages\<close> is the registry as the routes see it.
  \<^item> \<open>Executions\<close> (\<open>recipes/execution.py\<close>), \<open>Execution_Store\<close> (\<open>recipes/execution_store.py\<close>): the states of a run and the
    files behind them. Writes may fail or be torn; records only move forward, and with writes that succeed the store
    refines a map from ids to runs.
  \<^item> \<open>Supervisor\<close> (\<open>server/services/recipe_supervisor.py\<close>): \<open>sup_round\<close> is one round of \<open>run\<close>. The waits are given in
    closed form and no process is left behind.
  \<^item> \<open>Project_Files\<close> (\<open>server/services/file_service.py\<close>): listing and serving the files of run directories; served files
    lie in the named project.

  \<^bold>\<open>Agents and schedules.\<close>
  \<^item> \<open>Tmux_Session\<close>, \<open>Session_Pool\<close> (\<open>agent_driver\<close>): one turn of an agent with its polling, and the bounded pool together
    with the sessions tmux has. A turn with a timeout returns, ok means this very turn, and the pool refines a
    least-recently-used list and leaks no session.
  \<^item> \<open>Schedule_Executor\<close>, \<open>Scheduler\<close>, \<open>Schedule_Runs\<close> (\<open>server/services/schedule_executor.py\<close>, \<open>scheduler_service.py\<close>):
    running a scheduled task, deciding on a notice, one turn of the loop (\<open>loop_turn\<close>), and the relation \<open>sched_reach\<close>
    of all sequences of turns and calls. Well-formed schedules never stop the loop, an agent has one task of a schedule at
    a time, failures are announced at fixed counts.
  \<^item> \<open>Todo_Store\<close> (\<open>todo/store.py\<close>): ids, edits and listings; the next todo is the most urgent one.

  \<^bold>\<open>How code becomes definitions.\<close> A function becomes a definition of nearly the same name; state is passed explicitly as
  a record; an exception is the left branch of a sum or None, as each theory says. Numbers of Python are \<open>int\<close>, floats are exact
  rationals (the one overflow that matters is kept in \<open>Rate_Limit\<close>). Strings hold the code points 0 to 255, so phrases in
  Chinese are looked up under English names. Clocks, randomness, the disk's answers, processes, tmux, hashes, scrypt,
  regular expressions, croniter, slugify and ISO time parsing are arguments or record fields, and what is used of them are
  named hypotheses that the witnesses discharge on concrete instances.

  \<^bold>\<open>Loops and bounds.\<close> Recursions over data are structural. \<open>free_number\<close> (\<open>Todo_Store\<close>) has a termination proof by the
  numbers in use. The polling of \<open>Tmux_Session\<close>, which may go on for ever, yields an option, and that it returns under a
  timeout is a theorem. A turn of the scheduler and a round of the supervisor are single steps over which the theorems
  quantify. Limits such as 7 escalation points, 200 index entries or 50 history entries are the constants of the sources.

  \<^bold>\<open>Not modelled.\<close> Running a recipe process and installing recipes; the drivers, transcripts and session stores of external
  agents, whose formats are defined elsewhere; the resident agent's queue behind the scheduler; browser control; routes that
  only pass a request to a service; the server process itself; command line, installers, viewer, telemetry, cloud, web
  client and desktop shell: these are input and output, or wrappers of programs outside the repository. YAML documents and
  fuzzy name matching need an external parser, \<open>difflib\<close> and characters beyond the modelled range. Reading YAML metadata is
  an input of the registry. Threads are modelled as calls that happen one after the other where the source holds a lock;
  other interleavings are steps of \<open>Visitor_Runs\<close>, \<open>Session_Pool\<close> and \<open>Schedule_Runs\<close>.
\<close>

end
